(* ===== verification/Go_Prelude.thy ===== *)
theory Go_Prelude
  imports Complex_Main "HOL-Library.AList" "HOL-Library.Multiset" "HOL-Library.Word"
begin

text \<open>
  Shared vocabulary of the development: the parts of Go and of its standard library that the
  modelled packages use.

  \<^item> A Go map is an association list \<open>('k, 'v) gomap\<close>. The order of the list is the order a
    \<open>range\<close> loop happens to visit the map in; the language leaves that order open, so a theorem
    about every list with distinct keys (\<open>gwf\<close>) is a theorem about every iteration order.
    A map that may be \<open>nil\<close> is an \<open>option\<close> of such a list.
  \<^item> An \<open>error\<close> is a value of \<open>goerr\<close>; \<open>nil\<close> is \<open>None\<close> in \<open>goerr option\<close>, and a function that
    returns a value or an error has the result type \<open>goerr + 'a\<close>. \<open>errors_Join\<close> and
    \<open>errors_Is\<close> follow the package \<open>errors\<close>.
  \<^item> A Go string is a list of bytes (\<open>string\<close>); the functions of the package \<open>strings\<close> that the
    code calls are defined below.
  \<^item> \<open>int64\<close> arithmetic that can overflow goes through \<open>wrap64\<close>; \<open>uint64\<close> is \<open>64 word\<close>.
  \<^item> The clock is an argument (\<open>now\<close>, in nanoseconds). Log output is not modelled.
\<close>

section \<open>Collections of facts\<close>

named_theorems gomap_simps \<open>lookups after updates of Go maps\<close>
named_theorems err_simps \<open>facts on joined errors\<close>

section \<open>Maps\<close>

type_synonym ('k, 'v) gomap = "('k \<times> 'v) list"

abbreviation gget :: "('k, 'v) gomap \<Rightarrow> 'k \<Rightarrow> 'v option" where
  "gget m k \<equiv> map_of m k"

abbreviation gset :: "'k \<Rightarrow> 'v \<Rightarrow> ('k, 'v) gomap \<Rightarrow> ('k, 'v) gomap" where
  "gset k v m \<equiv> AList.update k v m"

abbreviation gdel :: "'k \<Rightarrow> ('k, 'v) gomap \<Rightarrow> ('k, 'v) gomap" where
  "gdel k m \<equiv> AList.delete k m"

abbreviation ghas :: "('k, 'v) gomap \<Rightarrow> 'k \<Rightarrow> bool" where
  "ghas m k \<equiv> map_of m k \<noteq> None"

abbreviation gkeys :: "('k, 'v) gomap \<Rightarrow> 'k list" where
  "gkeys m \<equiv> map fst m"

abbreviation gwf :: "('k, 'v) gomap \<Rightarrow> bool" where
  "gwf m \<equiv> distinct (map fst m)"

text \<open>\<open>maps.Copy(dst, src)\<close> and \<open>maps.Insert\<close>: every entry of \<open>src\<close> is stored into \<open>dst\<close>.\<close>

fun gcopy :: "('k, 'v) gomap \<Rightarrow> ('k, 'v) gomap \<Rightarrow> ('k, 'v) gomap" where
  "gcopy dst [] = dst"
| "gcopy dst ((k, v) # src) = gcopy (gset k v dst) src"

text \<open>\<open>reflect.DeepEqual\<close> on two maps: equal lengths, and every entry of the first is in the second.\<close>

definition geq :: "('k, 'v) gomap \<Rightarrow> ('k, 'v) gomap \<Rightarrow> bool" where
  "geq m1 m2 \<longleftrightarrow> length m1 = length m2 \<and> list_all (\<lambda>(k, v). map_of m2 k = Some v) m1"

text \<open>\<open>reflect.DeepEqual\<close> on two maps that may be \<open>nil\<close>: a \<open>nil\<close> map differs from an empty one.\<close>

fun geq_opt :: "('k, 'v) gomap option \<Rightarrow> ('k, 'v) gomap option \<Rightarrow> bool" where
  "geq_opt None None = True"
| "geq_opt (Some m1) (Some m2) = geq m1 m2"
| "geq_opt _ _ = False"

text \<open>Reading a map that may be \<open>nil\<close>, and its length.\<close>

definition oget :: "('k, 'v) gomap option \<Rightarrow> 'k \<Rightarrow> 'v option" where
  "oget m k = (case m of None \<Rightarrow> None | Some es \<Rightarrow> map_of es k)"

definition olen :: "('k, 'v) gomap option \<Rightarrow> nat" where
  "olen m = (case m of None \<Rightarrow> 0 | Some es \<Rightarrow> length es)"

definition oentries :: "('k, 'v) gomap option \<Rightarrow> ('k, 'v) gomap" where
  "oentries m = (case m of None \<Rightarrow> [] | Some es \<Rightarrow> es)"

section \<open>Errors\<close>

datatype sentinel =
    ErrSourceNotFound | ErrSourceExists
  | ErrMetricNotFound | ErrPresetNotFound | ErrInvalidMetric | ErrInvalidPreset
  | ErrMetricExists | ErrPresetExists
  | ErrConfigNeedsMigration | ErrSinkNeedsMigration
  | ErrUnsupported | ErrCanceled | ErrDeadlineExceeded

datatype goerr =
    Sentinel sentinel
  | ErrText string
  | ErrWrap string goerr
  | ErrJoin "goerr list"

text \<open>\<open>errors.Is\<close> against a sentinel: through \<open>%w\<close> wrapping and through joined errors.\<close>

fun errors_Is :: "goerr \<Rightarrow> sentinel \<Rightarrow> bool" where
  "errors_Is (Sentinel s') s = (s' = s)"
| "errors_Is (ErrText _) s = False"
| "errors_Is (ErrWrap _ e) s = errors_Is e s"
| "errors_Is (ErrJoin es) s = list_ex (\<lambda>e. errors_Is e s) es"

text \<open>
  \<open>errors.Join\<close>: \<open>nil\<close> arguments are dropped and the result is \<open>nil\<close> when nothing is left. A
  single argument that already unwraps to a list is returned as it is.
\<close>

definition errors_Join :: "goerr option list \<Rightarrow> goerr option" where
  "errors_Join errs =
     (case List.map_filter id errs of
        [] \<Rightarrow> None
      | [ErrJoin es] \<Rightarrow> Some (ErrJoin es)
      | es \<Rightarrow> Some (ErrJoin es))"

section \<open>Strings\<close>

definition HasPrefix :: "string \<Rightarrow> string \<Rightarrow> bool" where
  "HasPrefix s p \<longleftrightarrow> take (length p) s = p"

definition CutPrefix :: "string \<Rightarrow> string \<Rightarrow> string option" where
  "CutPrefix s p = (if HasPrefix s p then Some (drop (length p) s) else None)"

definition TrimPrefix :: "string \<Rightarrow> string \<Rightarrow> string" where
  "TrimPrefix s p = (if HasPrefix s p then drop (length p) s else s)"

text \<open>\<open>strings.ToLower\<close> on ASCII text.\<close>

definition lower_char :: "char \<Rightarrow> char" where
  "lower_char c = (let n = of_char c :: nat in if 65 \<le> n \<and> n \<le> 90 then char_of (n + 32) else c)"

definition ToLower :: "string \<Rightarrow> string" where
  "ToLower s = map lower_char s"

text \<open>\<open>strings.Index\<close>, with \<open>None\<close> for its \<open>-1\<close>.\<close>

fun str_index :: "string \<Rightarrow> string \<Rightarrow> nat option" where
  "str_index sub [] = (if sub = [] then Some 0 else None)"
| "str_index sub (c # cs) =
     (if HasPrefix (c # cs) sub then Some 0 else map_option Suc (str_index sub cs))"

text \<open>\<open>strings.Cut\<close>: the text before and after the first separator, if there is one.\<close>

definition Cut :: "string \<Rightarrow> string \<Rightarrow> string \<times> string \<times> bool" where
  "Cut s sep =
     (case str_index sep s of
        None \<Rightarrow> (s, [], False)
      | Some i \<Rightarrow> (take i s, drop (i + length sep) s, True))"

lemma str_index_le: "str_index sub s = Some i \<Longrightarrow> i + length sub \<le> length s"
  by (induction sub s arbitrary: i rule: str_index.induct)
     (auto simp: HasPrefix_def split: if_splits dest: arg_cong [where f = length])

text \<open>\<open>strings.Split\<close> for a separator that is not empty (every call in the code has one).\<close>

function Split :: "string \<Rightarrow> string \<Rightarrow> string list" where
  "Split s sep =
     (if sep = [] then [s]
      else case str_index sep s of
             None \<Rightarrow> [s]
           | Some i \<Rightarrow> take i s # Split (drop (i + length sep) s) sep)"
  by pat_completeness auto
termination
proof (relation "measure (length \<circ> fst)")
  fix s sep :: string and i
  assume "sep \<noteq> []" "str_index sep s = Some i"
  then show "((drop (i + length sep) s, sep), s, sep) \<in> measure (length \<circ> fst)"
    using str_index_le [of sep s i] by (cases sep) auto
qed simp

declare Split.simps [simp del]

text \<open>\<open>strings.Join\<close>.\<close>

fun Join :: "string list \<Rightarrow> string \<Rightarrow> string" where
  "Join [] sep = []"
| "Join [x] sep = x"
| "Join (x # y # xs) sep = x @ sep @ Join (y # xs) sep"

text \<open>The white space of \<open>strings.TrimSpace\<close>, in UTF-8.\<close>

definition space_bytes :: "string list" where
  "space_bytes = map (map char_of)
     ([[9], [10], [11], [12], [13], [32], [194, 133], [194, 160], [225, 154, 128 :: nat]]
      @ map (\<lambda>b. [226, 128, b]) ([128 ..< 139] @ [168, 169, 175])
      @ [[226, 129, 159], [227, 128, 128]])"

lemma space_bytes_not_Nil: "p \<in> set space_bytes \<Longrightarrow> p \<noteq> []"
  by (auto simp: space_bytes_def)

text \<open>\<open>strings.TrimSpace\<close>; \<open>trim_front\<close> removes the given byte sequences at the front.\<close>

function trim_front :: "string list \<Rightarrow> string \<Rightarrow> string" where
  "trim_front ps s =
     (case find (\<lambda>p. p \<noteq> [] \<and> HasPrefix s p) ps of
        None \<Rightarrow> s
      | Some p \<Rightarrow> if s = [] then s else trim_front ps (drop (length p) s))"
  by pat_completeness auto
termination
  by (relation "measure (length \<circ> snd)") (auto simp: find_Some_iff)

declare trim_front.simps [simp del]

definition TrimSpace :: "string \<Rightarrow> string" where
  "TrimSpace s = rev (trim_front (map rev space_bytes) (rev (trim_front space_bytes s)))"

text \<open>\<open>strings.ToUpper\<close> on ASCII text.\<close>

definition upper_char :: "char \<Rightarrow> char" where
  "upper_char c = (let n = of_char c :: nat in if 97 \<le> n \<and> n \<le> 122 then char_of (n - 32) else c)"

definition ToUpper :: "string \<Rightarrow> string" where
  "ToUpper s = map upper_char s"

text \<open>\<open>cmp.Or\<close> on strings: the first argument that is not empty.\<close>

definition cmp_Or :: "string \<Rightarrow> string \<Rightarrow> string" where
  "cmp_Or a b = (if a \<noteq> [] then a else b)"

text \<open>The decimal digits of a natural number and of an integer, as \<open>%d\<close> prints them.\<close>

fun show_nat :: "nat \<Rightarrow> string" where
  "show_nat n =
     (if n < 10 then [char_of (48 + n)] else show_nat (n div 10) @ [char_of (48 + n mod 10)])"

declare show_nat.simps [simp del]

definition show_int :: "int \<Rightarrow> string" where
  "show_int i = (if i < 0 then ''-'' @ show_nat (nat (- i)) else show_nat (nat i))"

text \<open>The bytewise order of Go strings.\<close>

fun str_less :: "string \<Rightarrow> string \<Rightarrow> bool" where
  "str_less xs [] = False"
| "str_less [] (y # ys) = True"
| "str_less (x # xs) (y # ys) =
     ((of_char x :: nat) < of_char y \<or> x = y \<and> str_less xs ys)"

text \<open>\<open>slices.Sorted\<close>, \<open>sort.Strings\<close>, and sorting by a string key.\<close>

fun insert_by :: "('a \<Rightarrow> string) \<Rightarrow> 'a \<Rightarrow> 'a list \<Rightarrow> 'a list" where
  "insert_by key x [] = [x]"
| "insert_by key x (y # ys) = (if str_less (key y) (key x) then y # insert_by key x ys else x # y # ys)"

definition sort_by :: "('a \<Rightarrow> string) \<Rightarrow> 'a list \<Rightarrow> 'a list" where
  "sort_by key xs = foldr (insert_by key) xs []"

abbreviation sort_strs :: "string list \<Rightarrow> string list" where
  "sort_strs \<equiv> sort_by (\<lambda>s. s)"

section \<open>Integers\<close>

text \<open>Two's complement wrap-around of \<open>int64\<close> (and of \<open>int\<close> on 64-bit platforms).\<close>

definition wrap64 :: "int \<Rightarrow> int" where
  "wrap64 x = (x + 2 ^ 63) mod 2 ^ 64 - 2 ^ 63"

definition fits64 :: "int \<Rightarrow> bool" where
  "fits64 x \<longleftrightarrow> - (2 ^ 63) \<le> x \<and> x < 2 ^ 63"

text \<open>Go's \<open>/\<close> and \<open>%\<close> truncate towards zero.\<close>

definition go_div :: "int \<Rightarrow> int \<Rightarrow> int" where
  "go_div a b = sgn a * sgn b * (\<bar>a\<bar> div \<bar>b\<bar>)"

definition go_mod :: "int \<Rightarrow> int \<Rightarrow> int" where
  "go_mod a b = a - b * go_div a b"

text \<open>Durations are nanoseconds.\<close>

definition Second :: int where "Second = 1000000000"
definition Minute :: int where "Minute = 60 * Second"
definition Hour :: int where "Hour = 60 * Minute"

text \<open>\<open>time.Duration(v) * time.Second\<close>.\<close>

definition seconds :: "int \<Rightarrow> int" where
  "seconds v = wrap64 (v * Second)"

section \<open>Facts on maps\<close>

lemma map_of_gset [gomap_simps]: "map_of (gset k v m) = (map_of m)(k \<mapsto> v)"
  by (simp add: update_conv')

lemma map_of_gdel [gomap_simps]: "map_of (gdel k m) = (map_of m)(k := None)"
  by (simp add: delete_conv')

lemma gset_same: "map_of m k = Some v \<Longrightarrow> gset k v m = m"
  by (induction m) auto

lemma gwf_gset [simp]: "gwf m \<Longrightarrow> gwf (gset k v m)"
  by (simp add: distinct_update)

lemma gwf_gdel [simp]: "gwf m \<Longrightarrow> gwf (gdel k m)"
  by (simp add: distinct_delete)

lemma gwf_gcopy [simp]: "gwf dst \<Longrightarrow> gwf (gcopy dst src)"
  by (induction dst src rule: gcopy.induct) auto

lemma map_of_gcopy [gomap_simps]: "gwf src \<Longrightarrow> map_of (gcopy dst src) = map_of dst ++ map_of src"
proof (induction dst src rule: gcopy.induct)
  case (2 dst k v src)
  then show ?case
    by (auto simp: map_of_gset fun_eq_iff map_add_def map_of_eq_None_iff split: option.splits)
qed simp

lemma dom_gkeys: "dom (map_of m) = set (gkeys m)"
  by (simp add: dom_map_of_conv_image_fst)

lemma length_gwf: "gwf m \<Longrightarrow> length m = card (dom (map_of m))"
  by (metis dom_gkeys distinct_card length_map)

lemma geq_iff:
  assumes "gwf m1" "gwf m2"
  shows "geq m1 m2 \<longleftrightarrow> map_of m1 = map_of m2"
proof
  assume eq: "geq m1 m2"
  have sub: "map_of m1 \<subseteq>\<^sub>m map_of m2"
    using eq assms by (auto simp: geq_def list_all_iff map_le_def dest!: map_of_SomeD)
  then have "dom (map_of m1) \<subseteq> dom (map_of m2)"
    by (rule map_le_implies_dom_le)
  moreover have "card (dom (map_of m1)) = card (dom (map_of m2))"
    using eq assms by (simp add: geq_def length_gwf [symmetric])
  ultimately have "dom (map_of m1) = dom (map_of m2)"
    by (simp add: card_subset_eq finite_dom_map_of)
  with sub show "map_of m1 = map_of m2"
    by (metis map_le_antisym map_le_def)
next
  assume eq: "map_of m1 = map_of m2"
  then have "length m1 = length m2"
    using assms by (simp add: length_gwf)
  moreover have "map_of m2 k = Some v" if "(k, v) \<in> set m1" for k v
    using that assms(1) eq by (metis map_of_is_SomeI)
  ultimately show "geq m1 m2"
    by (auto simp: geq_def list_all_iff)
qed

lemma geq_opt_iff:
  assumes "gwf (oentries m1)" "gwf (oentries m2)"
  shows "geq_opt m1 m2 \<longleftrightarrow> (m1 = None \<longleftrightarrow> m2 = None) \<and> oget m1 = oget m2"
  using assms by (cases m1; cases m2) (auto simp: geq_iff oentries_def oget_def fun_eq_iff)

section \<open>Facts on errors\<close>

lemma errors_Join_None_iff [err_simps]:
  "errors_Join errs = None \<longleftrightarrow> (\<forall>e\<in>set errs. e = None)"
proof -
  have "List.map_filter id errs = [] \<longleftrightarrow> (\<forall>e\<in>set errs. e = None)"
    by (induction errs) (auto simp: List.map_filter_simps split: option.splits)
  then show ?thesis
    by (auto simp: errors_Join_def split: list.splits goerr.splits)
qed

lemma errors_Join_Is [err_simps]:
  assumes "errors_Join errs = Some e"
  shows "errors_Is e s \<longleftrightarrow> (\<exists>x. Some x \<in> set errs \<and> errors_Is x s)"
proof -
  have set: "set (List.map_filter id errs) = {x. Some x \<in> set errs}"
    by (induction errs) (auto simp: List.map_filter_simps split: option.splits)
  have "errors_Is e s \<longleftrightarrow> (\<exists>x\<in>set (List.map_filter id errs). errors_Is x s)"
    using assms
    by (auto simp: errors_Join_def list_ex_iff split: list.splits goerr.splits)
  then show ?thesis by (simp add: set)
qed

section \<open>Facts on strings\<close>

lemma HasPrefix_append [simp]: "HasPrefix (p @ s) p"
  by (simp add: HasPrefix_def)

lemma HasPrefix_iff: "HasPrefix s p \<longleftrightarrow> (\<exists>t. s = p @ t)"
  by (metis HasPrefix_append HasPrefix_def append_take_drop_id)

lemma Split_not_Nil [simp]: "Split s sep \<noteq> []"
  by (subst Split.simps) (simp split: option.split)

text \<open>
  \<open>a\<close> can stand before the separator in a joined string: the first separator of \<open>a @ sep\<close> is
  the one at its end.
\<close>

definition sep_free :: "string \<Rightarrow> string \<Rightarrow> bool" where
  "sep_free sep a \<longleftrightarrow> str_index sep (a @ sep) = Some (length a)"

lemma str_index_append:
  "sep \<noteq> [] \<Longrightarrow> str_index sep (a @ sep) = Some (length a) \<Longrightarrow>
   str_index sep (a @ sep @ t) = Some (length a)"
proof (induction a)
  case Nil
  then show ?case by (cases sep) (auto simp: HasPrefix_def)
next
  case (Cons c a)
  have np: "\<not> HasPrefix (c # a @ sep) sep" and ih: "str_index sep (a @ sep) = Some (length a)"
    using Cons.prems by (auto split: if_splits)
  have "\<not> HasPrefix (c # a @ sep @ t) sep"
  proof
    assume "HasPrefix (c # a @ sep @ t) sep"
    then have "take (length sep) ((c # a @ sep) @ t) = sep"
      by (simp add: HasPrefix_def)
    then have "take (length sep) (c # a @ sep) = sep"
      by (simp only: take_append) simp
    with np show False by (simp add: HasPrefix_def)
  qed
  with Cons.IH [OF Cons.prems(1) ih] show ?case by simp
qed

lemma Split_step:
  assumes "sep \<noteq> []" "sep_free sep a"
  shows "Split (a @ sep @ t) sep = a # Split t sep"
  using assms by (subst Split.simps) (simp add: sep_free_def str_index_append)

lemma Split_last:
  "str_index sep a = None \<Longrightarrow> Split a sep = [a]"
  by (subst Split.simps) simp

lemma of_char_inj: "(of_char x :: nat) = of_char y \<Longrightarrow> x = y"
  by (metis char_of_char)

lemma str_less_irrefl [simp]: "\<not> str_less a a"
  by (induction a) auto

lemma str_less_trans: "str_less a b \<Longrightarrow> str_less b c \<Longrightarrow> str_less a c"
proof (induction a b arbitrary: c rule: str_less.induct)
  case (3 x xs y ys)
  then show ?case by (cases c) (auto intro: less_trans)
next
  case (2 y ys)
  then show ?case by (cases c) auto
qed simp

lemma str_less_linear: "str_less a b \<or> a = b \<or> str_less b a"
proof (induction a b rule: str_less.induct)
  case (1 xs)
  then show ?case by (cases xs) auto
next
  case (3 x xs y ys)
  then show ?case using of_char_inj linorder_neqE_nat by fastforce
qed simp

lemma mset_insert_by [simp]: "mset (insert_by key x ys) = add_mset x (mset ys)"
  by (induction ys) auto

lemma mset_sort_by [simp]: "mset (sort_by key xs) = mset xs"
  unfolding sort_by_def by (induction xs) auto

lemma set_sort_by [simp]: "set (sort_by key xs) = set xs"
  by (metis mset_sort_by set_mset_mset)

lemma length_sort_by [simp]: "length (sort_by key xs) = length xs"
  by (metis mset_sort_by size_mset)

lemma distinct_sort_by [simp]: "distinct (sort_by key xs) = distinct xs"
  by (metis mset_sort_by mset_eq_imp_distinct_iff)

lemma sorted_insert_by:
  assumes "sorted_wrt (\<lambda>a b. \<not> str_less (key b) (key a)) ys"
  shows "sorted_wrt (\<lambda>a b. \<not> str_less (key b) (key a)) (insert_by key x ys)"
proof -
  have set: "set (insert_by key x ys) = insert x (set ys)" for ys by (induction ys) auto
  have "\<not> str_less (key z) (key x)" if "\<not> str_less (key y) (key x)" "\<not> str_less (key z) (key y)" for y z
    using that str_less_linear [of "key x" "key y"] str_less_linear [of "key y" "key z"] str_less_trans str_less_irrefl by metis
  moreover have "\<not> str_less (key x) (key y)" if "str_less (key y) (key x)" for y
    using that str_less_trans str_less_irrefl by blast
  ultimately show ?thesis using assms by (induction ys) (auto simp: set)
qed

lemma sorted_sort_by [simp]: "sorted_wrt (\<lambda>a b. \<not> str_less (key b) (key a)) (sort_by key xs)"
  unfolding sort_by_def by (induction xs) (auto intro: sorted_insert_by)

text \<open>Two sorted lists of the same strings are the same list.\<close>

lemma sorted_strs_unique:
  assumes "sorted_wrt (\<lambda>a b. \<not> str_less b a) xs" "sorted_wrt (\<lambda>a b. \<not> str_less b a) ys" "mset xs = mset ys"
  shows "xs = ys"
  using assms
proof (induction xs arbitrary: ys)
  case (Cons x xs)
  then obtain y ys' where ys: "ys = y # ys'" by (cases ys) auto
  have "x \<in> set ys" "y \<in> set (x # xs)" using Cons.prems(3) ys by (metis list.set_intros(1) mset_eq_setD)+
  then have "\<not> str_less x y \<and> \<not> str_less y x" using Cons.prems(1,2) ys str_less_irrefl by (auto simp: list.set)
  then have "x = y" using str_less_linear by blast
  with Cons ys show ?case by simp
qed simp

lemma sort_strs_cong: "mset xs = mset ys \<Longrightarrow> sort_strs xs = sort_strs ys"
  by (rule sorted_strs_unique) simp_all

section \<open>Facts on integers\<close>

lemma wrap64_fits [simp]: "fits64 x \<Longrightarrow> wrap64 x = x"
  by (simp add: fits64_def wrap64_def)

lemma fits64_wrap64 [simp]: "fits64 (wrap64 x)"
  by (simp add: fits64_def wrap64_def)

lemma go_div_nonneg [simp]: "0 \<le> a \<Longrightarrow> 0 < b \<Longrightarrow> go_div a b = a div b"
  by (cases "a = 0") (auto simp: go_div_def)

lemma go_mod_nonneg [simp]: "0 \<le> a \<Longrightarrow> 0 < b \<Longrightarrow> go_mod a b = a mod b"
  by (simp add: go_mod_def minus_mult_div_eq_mod)

end
