(* ===== verification/Metric_Types.thy ===== *)
theory Metric_Types
  imports Go_Prelude
begin

text \<open>
  The data of \<open>internal/metrics\<close>: metric and preset definitions, measurements and the envelope
  that carries them, with the operations of \<open>types.go\<close>, \<open>default.go\<close> and \<open>cmdopts.go\<close>.
  A \<open>map[string]any\<close> row is a \<open>measurement\<close> over the dynamic values \<open>goval\<close>.
\<close>

section \<open>Data\<close>

text \<open>Values of type \<open>any\<close> as the database driver delivers them.\<close>

datatype gofloat = Fin real | NaN | PInf | NInf

datatype goval =
    VNil
  | VInt int
  | VInt32 int
  | VInt64 int
  | VFloat32 gofloat
  | VFloat64 gofloat
  | VBool bool
  | VString string
  | VOther string

type_synonym intervals = "(string, int) gomap option"
type_synonym sqls = "(int, string) gomap"
type_synonym measurement = "(string, goval) gomap"
type_synonym measurements = "measurement list"
type_synonym tags = "(string, string) gomap option"

record metric =
  SQLs :: sqls
  InitSQL :: string
  NodeStatus :: string
  Gauges :: "string list"
  IsInstanceLevel :: bool
  StorageName :: string
  metricDescription :: string

record preset =
  presetDescription :: string
  presetMetrics :: intervals

record metrics =
  MetricDefs :: "(string, metric) gomap"
  PresetDefs :: "(string, preset) gomap"

record envelope =
  DBName :: string
  MetricName :: string
  SourceKind :: string
  CustomTags :: tags
  Data :: measurements

definition EpochColumnName :: string where "EpochColumnName = ''epoch_ns''"
definition TagPrefix :: string where "TagPrefix = ''tag_''"

section \<open>Operations on definitions\<close>

definition PrimaryOnly :: "metric \<Rightarrow> bool" where
  "PrimaryOnly m \<longleftrightarrow> NodeStatus m = ''primary''"

definition StandbyOnly :: "metric \<Rightarrow> bool" where
  "StandbyOnly m \<longleftrightarrow> NodeStatus m = ''standby''"

text \<open>One round of the loop that looks for the closest version below the server's.\<close>

definition closest_step :: "int \<Rightarrow> int \<Rightarrow> int \<Rightarrow> int" where
  "closest_step version v closestVersion =
     (if v < version \<and> (closestVersion = 0 \<or> v > closestVersion) then v else closestVersion)"

definition GetSQL :: "metric \<Rightarrow> int \<Rightarrow> string" where
  "GetSQL m version =
     (case gget (SQLs m) version of
        Some val \<Rightarrow> val
      | None \<Rightarrow>
          (case gget (SQLs m) (fold (closest_step version) (gkeys (SQLs m)) 0) of
             Some val \<Rightarrow> val
           | None \<Rightarrow> []))"

text \<open>The inner loop of \<open>FilterByNames\<close>: all metrics of a preset that have a definition.\<close>

fun include_metrics ::
  "(string, metric) gomap \<Rightarrow> string list \<Rightarrow> (string, metric) gomap \<Rightarrow> (string, metric) gomap" where
  "include_metrics defs [] result = result"
| "include_metrics defs (metricName # rest) result =
     (case gget defs metricName of
        Some metric \<Rightarrow> include_metrics defs rest (gset metricName metric result)
      | None \<Rightarrow> include_metrics defs rest result)"

fun filter_names :: "metrics \<Rightarrow> string list \<Rightarrow> metrics \<Rightarrow> goerr + metrics" where
  "filter_names m [] result = Inr result"
| "filter_names m (name # names) result =
     (case gget (PresetDefs m) name of
        Some preset \<Rightarrow>
          filter_names m names
            (result\<lparr>PresetDefs := gset name preset (PresetDefs result),
                    MetricDefs := include_metrics (MetricDefs m)
                      (gkeys (oentries (presetMetrics preset))) (MetricDefs result)\<rparr>)
      | None \<Rightarrow>
          (case gget (MetricDefs m) name of
             Some metric \<Rightarrow>
               filter_names m names (result\<lparr>MetricDefs := gset name metric (MetricDefs result)\<rparr>)
           | None \<Rightarrow> Inl (ErrText (''metric or preset '' @ name @ '' not found''))))"

definition FilterByNames :: "metrics \<Rightarrow> string list \<Rightarrow> goerr + metrics" where
  "FilterByNames m names =
     (let result = \<lparr>MetricDefs = [], PresetDefs = []\<rparr>
      in if names = []
         then Inr (result\<lparr>MetricDefs := gcopy (MetricDefs result) (MetricDefs m),
                          PresetDefs := gcopy (PresetDefs result) (PresetDefs m)\<rparr>)
         else filter_names m names result)"

section \<open>Operations on measurements\<close>

text \<open>Non-finite floats become \<open>nil\<close>.\<close>

fun sanitizeValue :: "goval \<Rightarrow> goval" where
  "sanitizeValue (VFloat64 f) = (case f of Fin _ \<Rightarrow> VFloat64 f | _ \<Rightarrow> VNil)"
| "sanitizeValue (VFloat32 f) = (case f of Fin _ \<Rightarrow> VFloat32 f | _ \<Rightarrow> VNil)"
| "sanitizeValue v = v"

text \<open>
  \<open>ScanRow\<close>: the driver's row is the list of its field names with their values, or the error of
  \<open>rows.Values()\<close>. Later columns overwrite earlier ones of the same name.
\<close>

fun scan_values :: "(string \<times> goval) list \<Rightarrow> measurement \<Rightarrow> measurement" where
  "scan_values [] m = m"
| "scan_values ((name, v) # rest) m = scan_values rest (gset name (sanitizeValue v) m)"

definition ScanRow :: "measurement \<Rightarrow> goerr + (string \<times> goval) list \<Rightarrow> measurement \<times> goerr option" where
  "ScanRow m values =
     (case values of
        Inl err \<Rightarrow> (m, Some err)
      | Inr vs \<Rightarrow> (scan_values vs m, None))"

definition NewMeasurement :: "int \<Rightarrow> measurement" where
  "NewMeasurement epoch = gset EpochColumnName (VInt64 epoch) []"

definition RowToMeasurement ::
  "int \<Rightarrow> goerr + (string \<times> goval) list \<Rightarrow> measurement \<times> goerr option" where
  "RowToMeasurement now row = ScanRow (NewMeasurement now) row"

text \<open>\<open>GetEpoch\<close> stores the current time in a row that has no \<open>int64\<close> epoch, so it returns the row too.\<close>

definition Measurement_GetEpoch :: "int \<Rightarrow> measurement \<Rightarrow> int \<times> measurement" where
  "Measurement_GetEpoch now m =
     (case gget m EpochColumnName of
        Some (VInt64 epoch) \<Rightarrow> (epoch, m)
      | _ \<Rightarrow> (now, gset EpochColumnName (VInt64 now) m))"

definition GetEpoch :: "int \<Rightarrow> measurements \<Rightarrow> int \<times> measurements" where
  "GetEpoch now ms =
     (case ms of
        [] \<Rightarrow> (now, [])
      | m # rest \<Rightarrow> (let (epoch, m') = Measurement_GetEpoch now m in (epoch, m' # rest)))"

definition IsEpochSet :: "measurements \<Rightarrow> bool" where
  "IsEpochSet ms = (case ms of [] \<Rightarrow> False | m # _ \<Rightarrow> ghas m EpochColumnName)"

definition Touch :: "int \<Rightarrow> measurements \<Rightarrow> measurements" where
  "Touch ns ms = map (gset EpochColumnName (VInt64 ns)) ms"

text \<open>\<open>fmt.Sprintf("%v", v)\<close>; the shortest decimal form of a float is left to \<open>fmt_float\<close>.\<close>

fun sprint_v :: "(gofloat \<Rightarrow> string) \<Rightarrow> goval \<Rightarrow> string" where
  "sprint_v fmt_float VNil = ''<nil>''"
| "sprint_v fmt_float (VInt i) = show_int i"
| "sprint_v fmt_float (VInt32 i) = show_int i"
| "sprint_v fmt_float (VInt64 i) = show_int i"
| "sprint_v fmt_float (VFloat32 f) = fmt_float f"
| "sprint_v fmt_float (VFloat64 f) = fmt_float f"
| "sprint_v fmt_float (VBool b) = (if b then ''true'' else ''false'')"
| "sprint_v fmt_float (VString s) = s"
| "sprint_v fmt_float (VOther s) = s"

section \<open>Defaults and options\<close>

definition GetDefaultBuiltInMetrics :: "string list" where
  "GetDefaultBuiltInMetrics =
     [''sproc_changes'', ''table_changes'', ''index_changes'', ''privilege_changes'',
      ''object_changes'', ''configuration_changes'']"

record metrics_opts =
  optMetrics :: string
  DirectOSStats :: bool
  InstanceLevelCacheMaxSeconds :: int
  EmergencyPauseTriggerfile :: string

definition CacheAge :: "metrics_opts \<Rightarrow> int" where
  "CacheAge c =
     (let s = (if InstanceLevelCacheMaxSeconds c < 0 then 0 else InstanceLevelCacheMaxSeconds c)
      in seconds s)"

section \<open>Choosing the SQL for a server version\<close>

text \<open>
  The loop keeps the greatest version below the server's among those already seen; \<open>0\<close> stands
  for none, which is why versions have to be positive.
\<close>

lemma closest_fold:
  assumes "\<forall>v\<in>set vs. 0 < v" "0 \<le> c"
  shows "fold (closest_step version) vs c \<in> {v \<in> set vs. v < version} \<union> {c} \<and>
    c \<le> fold (closest_step version) vs c \<and>
    (\<forall>v\<in>set vs. v < version \<longrightarrow> v \<le> fold (closest_step version) vs c)"
  using assms
proof (induction vs arbitrary: c)
  case (Cons v vs)
  have "0 \<le> closest_step version v c" "c \<le> closest_step version v c"
    and "v < version \<longrightarrow> v \<le> closest_step version v c"
    and "closest_step version v c = c \<or> closest_step version v c = v \<and> v < version"
    using Cons.prems by (auto simp: closest_step_def)
  with Cons.IH [of "closest_step version v c"] Cons.prems show ?case
    by fastforce
qed simp

text \<open>
  C27: the SQL chosen for a server version is the one of the greatest defined version that does
  not exceed it, and the empty string when every defined version is newer, whatever order the
  map of versions is visited in.
\<close>

theorem GetSQL_closest:
  assumes "\<forall>v\<in>set (gkeys (SQLs m)). 0 < v"
  shows "GetSQL m version =
    (let le = {v \<in> set (gkeys (SQLs m)). v \<le> version}
     in if le = {} then [] else the (gget (SQLs m) (Max le)))"
proof (cases "gget (SQLs m) version")
  case (Some sql)
  then have "version \<in> set (gkeys (SQLs m))"
    by (metis domI dom_gkeys)
  then have "Max {v \<in> set (gkeys (SQLs m)). v \<le> version} = version"
    by (intro Max_eqI) auto
  with Some \<open>version \<in> _\<close> show ?thesis
    by (auto simp: GetSQL_def Let_def)
next
  case None
  let ?K = "set (gkeys (SQLs m))"
  have none: "version \<notin> ?K"
    using None by (metis domIff dom_gkeys)
  have le: "{v \<in> ?K. v \<le> version} = {v \<in> ?K. v < version}"
    using none by (auto simp: order.strict_iff_order)
  have fold: "fold (closest_step version) (gkeys (SQLs m)) 0 =
      (if {v \<in> ?K. v \<le> version} = {} then 0 else Max {v \<in> ?K. v \<le> version})"
  proof (cases "{v \<in> ?K. v \<le> version} = {}")
    case True
    with le show ?thesis
      using closest_fold [of "gkeys (SQLs m)" 0 version] assms by auto
  next
    case False
    then obtain u where "u \<in> ?K" "u < version" "0 < u" using le assms by auto
    note u = this and f = closest_fold [OF assms order_refl, of version]
    from f u(1,2) have "u \<le> fold (closest_step version) (gkeys (SQLs m)) 0" by blast
    with f u(3) have "fold (closest_step version) (gkeys (SQLs m)) 0 \<in> {v \<in> ?K. v < version}"
      by auto
    with f have "fold (closest_step version) (gkeys (SQLs m)) 0 = Max {v \<in> ?K. v < version}"
      by (intro Max_eqI [symmetric]) auto
    with False show ?thesis unfolding le by (simp only: if_False)
  qed
  have zero: "gget (SQLs m) 0 = None"
    using assms by (metis domIff dom_gkeys less_irrefl)
  show ?thesis
  proof (cases "{v \<in> ?K. v \<le> version} = {}")
    case True
    with None fold zero show ?thesis by (simp add: GetSQL_def Let_def)
  next
    case False
    then have "Max {v \<in> ?K. v \<le> version} \<in> ?K"
      using Max_in [of "{v \<in> ?K. v \<le> version}"] by simp
    then obtain sql where "gget (SQLs m) (Max {v \<in> ?K. v \<le> version}) = Some sql"
      by (metis (no_types, lifting) domD dom_gkeys)
    with None fold False show ?thesis by (auto simp: GetSQL_def Let_def)
  qed
qed

definition sample_metric :: metric where
  "sample_metric = \<lparr>SQLs = [(14, ''b''), (11, ''a''), (17, ''c'')], InitSQL = [], NodeStatus = [],
     Gauges = [], IsInstanceLevel = False, StorageName = [], metricDescription = []\<rparr>"

theorem GetSQL_closest_witness:
  "GetSQL sample_metric 16 = ''b'' \<and> GetSQL sample_metric 10 = [] \<and>
   the (gget (SQLs sample_metric) (Max {v \<in> set (gkeys (SQLs sample_metric)). v \<le> 16})) = ''b''"
proof -
  have pos: "\<forall>v\<in>set (gkeys (SQLs sample_metric)). 0 < v"
    by (simp add: sample_metric_def)
  have at16: "GetSQL sample_metric 16 = ''b''" and at10: "GetSQL sample_metric 10 = []"
    by (simp_all add: GetSQL_def sample_metric_def closest_step_def)
  have "14 \<in> {v \<in> set (gkeys (SQLs sample_metric)). v \<le> 16}"
    by (simp add: sample_metric_def)
  then have "({v \<in> set (gkeys (SQLs sample_metric)). v \<le> 16} = {}) = False"
    by blast
  then show ?thesis
    using pos at16 at10 GetSQL_closest [OF pos, of 16] by (simp only: Let_def if_False)
qed

section \<open>Filtering definitions by name\<close>

lemma map_of_include_metrics [gomap_simps]:
  "map_of (include_metrics defs ns result) =
     (\<lambda>n. if n \<in> set ns \<and> ghas defs n then map_of defs n else map_of result n)"
  by (induction defs ns result rule: include_metrics.induct)
     (auto simp: fun_eq_iff map_of_gset split: option.splits)

text \<open>The metric names that a list of requested names selects.\<close>

definition selected :: "metrics \<Rightarrow> string list \<Rightarrow> string \<Rightarrow> bool" where
  "selected m names n \<longleftrightarrow>
     (n \<in> set names \<and> \<not> ghas (PresetDefs m) n) \<or>
     (\<exists>p\<in>set names. \<exists>preset. gget (PresetDefs m) p = Some preset \<and>
        n \<in> set (gkeys (oentries (presetMetrics preset))))"

definition known :: "metrics \<Rightarrow> string \<Rightarrow> bool" where
  "known m n \<longleftrightarrow> ghas (PresetDefs m) n \<or> ghas (MetricDefs m) n"

lemma selected_Nil [simp]: "\<not> selected m [] n"
  by (simp add: selected_def)

lemma selected_Cons:
  "selected m (name # names) n \<longleftrightarrow>
     (case gget (PresetDefs m) name of
        Some preset \<Rightarrow> n \<in> set (gkeys (oentries (presetMetrics preset)))
      | None \<Rightarrow> n = name) \<or> selected m names n"
  by (auto simp: selected_def split: option.splits)

lemma filter_names_error:
  "(\<exists>e. filter_names m names result = Inl e) \<longleftrightarrow> (\<exists>n\<in>set names. \<not> known m n)"
  by (induction m names result rule: filter_names.induct)
     (auto simp: known_def split: option.splits)

lemma filter_names_presets:
  "filter_names m names result = Inr r \<Longrightarrow>
   map_of (PresetDefs r) = (\<lambda>p. if p \<in> set names \<and> ghas (PresetDefs m) p
                             then map_of (PresetDefs m) p else map_of (PresetDefs result) p)"
  by (induction m names result rule: filter_names.induct)
     (auto simp: fun_eq_iff map_of_gset split: option.splits)

lemma filter_names_metrics:
  "filter_names m names result = Inr r \<Longrightarrow>
   map_of (MetricDefs r) = (\<lambda>n. if selected m names n \<and> ghas (MetricDefs m) n
                             then map_of (MetricDefs m) n else map_of (MetricDefs result) n)"
proof (induction m names result rule: filter_names.induct)
  case (2 m name names result)
  show ?case
  proof (cases "gget (PresetDefs m) name")
    case None
    with 2 show ?thesis
      by (auto simp: fun_eq_iff selected_Cons map_of_gset split: option.splits)
  next
    case (Some preset)
    with "2.prems" "2.IH"(2) [OF Some] show ?thesis
      by (simp add: fun_eq_iff selected_Cons map_of_include_metrics)
  qed
qed (simp add: fun_eq_iff)

text \<open>
  C28: \<open>FilterByNames\<close> fails exactly when a requested name is neither a preset nor a metric.
  Otherwise it returns the requested presets, and of the metric definitions exactly those that
  were requested by name or belong to a requested preset, each with its original definition;
  an empty list of names returns everything.
\<close>

theorem FilterByNames_spec:
  assumes "gwf (MetricDefs m)" "gwf (PresetDefs m)"
  shows "case FilterByNames m names of
      Inl _ \<Rightarrow> (\<exists>n\<in>set names. \<not> known m n)
    | Inr r \<Rightarrow> (\<forall>n\<in>set names. known m n) \<and>
        map_of (PresetDefs r) =
          (\<lambda>p. if names = [] \<or> p \<in> set names then map_of (PresetDefs m) p else None) \<and>
        map_of (MetricDefs r) =
          (\<lambda>n. if names = [] \<or> selected m names n then map_of (MetricDefs m) n else None)"
proof (cases "names = []")
  case True
  with assms show ?thesis
    by (simp add: FilterByNames_def Let_def map_of_gcopy fun_eq_iff)
next
  case False
  then have eq: "FilterByNames m names = filter_names m names \<lparr>MetricDefs = [], PresetDefs = []\<rparr>"
    by (simp add: FilterByNames_def)
  show ?thesis
  proof (cases "FilterByNames m names")
    case (Inl e)
    with eq have "filter_names m names \<lparr>MetricDefs = [], PresetDefs = []\<rparr> = Inl e" by simp
    then have "\<exists>n\<in>set names. \<not> known m n"
      using filter_names_error [of m names] by blast
    with Inl show ?thesis by simp
  next
    case (Inr r)
    with eq have run: "filter_names m names \<lparr>MetricDefs = [], PresetDefs = []\<rparr> = Inr r" by simp
    then have "\<forall>n\<in>set names. known m n"
      using filter_names_error [of m names "\<lparr>MetricDefs = [], PresetDefs = []\<rparr>"] by simp
    with False Inr filter_names_presets [OF run] filter_names_metrics [OF run] show ?thesis
      by (auto simp: fun_eq_iff)
  qed
qed

definition sample_metrics :: metrics where
  "sample_metrics = \<lparr>MetricDefs = [(''wal'', sample_metric), (''cpu_load'', sample_metric)],
     PresetDefs = [(''basic'', \<lparr>presetDescription = [], presetMetrics = Some [(''wal'', 60), (''gone'', 60)]\<rparr>)]\<rparr>"

theorem FilterByNames_spec_witness:
  "gwf (MetricDefs sample_metrics) \<and> gwf (PresetDefs sample_metrics) \<and>
   (\<exists>r. FilterByNames sample_metrics [''basic''] = Inr r \<and>
      map_of (MetricDefs r) =
        (\<lambda>n. if [''basic''] = [] \<or> selected sample_metrics [''basic''] n
             then map_of (MetricDefs sample_metrics) n else None) \<and>
      gget (MetricDefs r) ''wal'' = Some sample_metric \<and> gget (MetricDefs r) ''cpu_load'' = None)"
proof -
  have wf: "gwf (MetricDefs sample_metrics)" "gwf (PresetDefs sample_metrics)"
    by (simp_all add: sample_metrics_def)
  obtain r where r: "FilterByNames sample_metrics [''basic''] = Inr r"
    and r': "gget (MetricDefs r) ''wal'' = Some sample_metric" "gget (MetricDefs r) ''cpu_load'' = None"
    by (simp add: FilterByNames_def sample_metrics_def oentries_def)
  show ?thesis
    using FilterByNames_spec [OF wf, of "[''basic'']"] wf r r' by auto
qed

section \<open>Measurements are safe to encode\<close>

fun json_safe :: "goval \<Rightarrow> bool" where
  "json_safe (VFloat64 f) = (case f of Fin _ \<Rightarrow> True | _ \<Rightarrow> False)"
| "json_safe (VFloat32 f) = (case f of Fin _ \<Rightarrow> True | _ \<Rightarrow> False)"
| "json_safe _ = True"

lemma json_safe_sanitize [simp]: "json_safe (sanitizeValue v)"
  by (cases v) (auto split: gofloat.splits)

lemma scan_values_ran:
  "v \<in> ran (map_of (scan_values vs m)) \<Longrightarrow> v \<in> ran (map_of m) \<or> json_safe v"
proof (induction vs m rule: scan_values.induct)
  case (2 name w rest m)
  then have "v \<in> ran (map_of (gset name (sanitizeValue w) m)) \<or> json_safe v" by simp
  then show ?case by (auto simp: map_of_gset ran_def split: if_splits)
qed simp

text \<open>
  The last column of a name determines its value; the reserved epoch column keeps the time the
  row was read at unless the query returns that column itself.
\<close>

lemma scan_values_lookup:
  "map_of (scan_values vs m) k =
     (case map_of (rev vs) k of Some v \<Rightarrow> Some (sanitizeValue v) | None \<Rightarrow> map_of m k)"
  by (induction vs m rule: scan_values.induct)
     (auto simp: map_of_gset map_add_def split: option.splits)

text \<open>
  a row read from the database always has an epoch, holds for every column the sanitized
  value of the last column of that name, and contains no NaN or infinity, so that it can be
  encoded as JSON.
\<close>

theorem RowToMeasurement_safe:
  "\<exists>m. RowToMeasurement now (Inr row) = (m, None) \<and>
     ghas m EpochColumnName \<and>
     (\<forall>k. gget m k =
        (case map_of (rev row) k of
           Some v \<Rightarrow> Some (sanitizeValue v)
         | None \<Rightarrow> (if k = EpochColumnName then Some (VInt64 now) else None))) \<and>
     list_all json_safe (map snd m)"
proof -
  let ?m = "scan_values row (NewMeasurement now)"
  have wf: "gwf (scan_values vs m)" if "gwf m" for vs m
    using that by (induction vs m rule: scan_values.induct) auto
  have "gwf ?m" by (rule wf) (simp add: NewMeasurement_def)
  have "json_safe v" if "(k, v) \<in> set ?m" for k v
  proof -
    have "v \<in> ran (map_of ?m)"
      using that \<open>gwf ?m\<close> by (metis map_of_is_SomeI ranI)
    then show ?thesis
      using scan_values_ran [of v row "NewMeasurement now"]
      by (auto simp: NewMeasurement_def ran_def split: if_splits)
  qed
  then have "list_all json_safe (map snd ?m)" by (auto simp: list_all_iff)
  moreover have "map_of ?m k =
        (case map_of (rev row) k of
           Some v \<Rightarrow> Some (sanitizeValue v)
         | None \<Rightarrow> (if k = EpochColumnName then Some (VInt64 now) else None))" for k
    by (auto simp: scan_values_lookup NewMeasurement_def split: option.splits)
  ultimately show ?thesis
    by (auto simp: RowToMeasurement_def ScanRow_def split: option.splits)
qed

end
