(* ===== verification/Metric_Cache.thy ===== *)
theory Metric_Cache
  imports Metric_Types
begin

text \<open>
  The instance-level metric cache (\<open>internal/reaper/cache.go\<close>), which shares the rows of one
  database with the other databases of the same server.

  Rows are Go maps, shared by reference and written in place: a worker adds its own database name
  to the rows it sends. So this theory keeps rows in an explicit store. A \<open>Measurements\<close> slice is
  a list of addresses, \<open>DeepCopy\<close> allocates, and \<open>Put\<close>, \<open>Get\<close> and \<open>AddSysinfoToMeasurements\<close> read
  and write the store. The locks of the cache make each operation atomic.
\<close>

section \<open>The store of rows\<close>

record store =
  cell :: "nat \<Rightarrow> measurement"
  fresh :: nat

type_synonym refs = "nat list"

definition rows :: "store \<Rightarrow> refs \<Rightarrow> measurements" where
  "rows st rs = map (cell st) rs"

definition write_cell :: "nat \<Rightarrow> (measurement \<Rightarrow> measurement) \<Rightarrow> store \<Rightarrow> store" where
  "write_cell a f st = st\<lparr>cell := (cell st)(a := f (cell st a))\<rparr>"

text \<open>\<open>newData[i] = maps.Clone(dr)\<close> for every row.\<close>

fun DeepCopy :: "store \<Rightarrow> refs \<Rightarrow> store \<times> refs" where
  "DeepCopy st [] = (st, [])"
| "DeepCopy st (a # rest) =
     (let b = fresh st;
          st = st\<lparr>cell := (cell st)(b := cell st a), fresh := Suc b\<rparr>;
          (st, copies) = DeepCopy st rest
      in (st, b # copies))"

definition refs_IsEpochSet :: "store \<Rightarrow> refs \<Rightarrow> bool" where
  "refs_IsEpochSet st rs = IsEpochSet (rows st rs)"

fun refs_Touch :: "int \<Rightarrow> refs \<Rightarrow> store \<Rightarrow> store" where
  "refs_Touch ns [] st = st"
| "refs_Touch ns (a # rest) st =
     refs_Touch ns rest (write_cell a (gset EpochColumnName (VInt64 ns)) st)"

text \<open>\<open>Measurements.GetEpoch\<close> writes the time into a first row that has no \<open>int64\<close> epoch.\<close>

definition refs_GetEpoch :: "int \<Rightarrow> refs \<Rightarrow> store \<Rightarrow> store \<times> int" where
  "refs_GetEpoch now rs st =
     (case rs of
        [] \<Rightarrow> (st, now)
      | a # _ \<Rightarrow>
          (let (epoch, m) = Measurement_GetEpoch now (cell st a)
           in (write_cell a (\<lambda>_. m) st, epoch)))"

section \<open>The cache\<close>

type_synonym icache = "(string, refs) gomap"

definition NewInstanceMetricCache :: icache where
  "NewInstanceMetricCache = []"

text \<open>\<open>Get\<close>: \<open>now\<close> and \<open>now'\<close> are the two readings of the clock; an empty result stands for \<open>nil\<close>.\<close>

definition Get :: "icache \<Rightarrow> string \<Rightarrow> int \<Rightarrow> int \<Rightarrow> int \<Rightarrow> store \<Rightarrow> store \<times> refs" where
  "Get imc key age now now' st =
     (if key = [] then (st, [])
      else
        (let (st, epoch) =
           refs_GetEpoch now (case gget imc key of None \<Rightarrow> [] | Some rs \<Rightarrow> rs) st
         in if now' - epoch > age then (st, [])
            else case gget imc key of
                   None \<Rightarrow> (st, [])
                 | Some rs \<Rightarrow> DeepCopy st rs))"

definition Put :: "string \<Rightarrow> refs \<Rightarrow> int \<Rightarrow> icache \<Rightarrow> store \<Rightarrow> icache \<times> store" where
  "Put key data now imc st =
     (if data = [] \<or> key = [] then (imc, st)
      else
        (let (st, m) = DeepCopy st data;
             st = (if \<not> refs_IsEpochSet st m then refs_Touch now m st else st)
         in (gset key m imc, st)))"

section \<open>Adding the name and the identifier of the database\<close>

definition sysinfo_row :: "string \<Rightarrow> string \<Rightarrow> string \<Rightarrow> string \<Rightarrow> measurement \<Rightarrow> measurement" where
  "sysinfo_row nameField idField realDbname systemIdentifier dr =
     (let dr = (if nameField \<noteq> [] \<and> realDbname \<noteq> [] then gset nameField (VString realDbname) dr else dr)
      in if idField \<noteq> [] \<and> systemIdentifier \<noteq> [] then gset idField (VString systemIdentifier) dr else dr)"

fun AddSysinfoToMeasurements ::
  "string \<Rightarrow> string \<Rightarrow> string \<Rightarrow> string \<Rightarrow> refs \<Rightarrow> store \<Rightarrow> store" where
  "AddSysinfoToMeasurements nf idf dbn sid [] st = st"
| "AddSysinfoToMeasurements nf idf dbn sid (a # rest) st =
     AddSysinfoToMeasurements nf idf dbn sid rest (write_cell a (sysinfo_row nf idf dbn sid) st)"

section \<open>What the operations leave alone\<close>

lemma write_cell_simps [simp]:
  "fresh (write_cell a f st) = fresh st"
  "b \<noteq> a \<Longrightarrow> cell (write_cell a f st) b = cell st b"
  "cell (write_cell a f st) a = f (cell st a)"
  by (simp_all add: write_cell_def)

lemma AddSysinfo_frame [simp]:
  "fresh (AddSysinfoToMeasurements nf idf dbn sid rs st) = fresh st"
  "a \<notin> set rs \<Longrightarrow> cell (AddSysinfoToMeasurements nf idf dbn sid rs st) a = cell st a"
  by (induction rs arbitrary: st) auto

lemma Touch_frame [simp]:
  "fresh (refs_Touch ns rs st) = fresh st"
  "a \<notin> set rs \<Longrightarrow> cell (refs_Touch ns rs st) a = cell st a"
  by (induction rs arbitrary: st) auto

text \<open>\<open>DeepCopy\<close> allocates a block of new addresses and changes nothing below it.\<close>

lemma DeepCopy_block:
  "DeepCopy st rs = (st', copies) \<Longrightarrow>
     copies = [fresh st ..< fresh st + length rs] \<and> fresh st' = fresh st + length rs \<and>
     (\<forall>a < fresh st. cell st' a = cell st a)"
proof (induction rs arbitrary: st st' copies)
  case (Cons a rs)
  let ?st = "st\<lparr>cell := (cell st)(fresh st := cell st a), fresh := Suc (fresh st)\<rparr>"
  obtain st1 c1 where rec: "DeepCopy ?st rs = (st1, c1)" by fastforce
  with Cons.prems have eq: "st' = st1" "copies = fresh st # c1" by auto
  show ?case
    using Cons.IH [OF rec] eq by (auto simp: upt_conv_Cons simp del: upt_Suc)
qed simp

lemma DeepCopy_contents:
  "DeepCopy st rs = (st', copies) \<Longrightarrow> (\<forall>a\<in>set rs. a < fresh st) \<Longrightarrow> rows st' copies = rows st rs"
proof (induction rs arbitrary: st st' copies)
  case (Cons a rs)
  let ?st = "st\<lparr>cell := (cell st)(fresh st := cell st a), fresh := Suc (fresh st)\<rparr>"
  obtain st1 c1 where rec: "DeepCopy ?st rs = (st1, c1)" by fastforce
  with Cons.prems have eq: "st' = st1" "copies = fresh st # c1" by auto
  have "rows st1 c1 = rows ?st rs"
    using Cons.prems by (intro Cons.IH [OF rec]) auto
  also have "\<dots> = rows st rs"
    using Cons.prems by (auto simp: rows_def)
  finally have "rows st1 c1 = rows st rs" .
  moreover have "cell st1 (fresh st) = cell st a"
    using DeepCopy_block [OF rec] by simp
  ultimately show ?case
    using eq by (simp add: rows_def)
qed (simp add: rows_def)

section \<open>Sharing without interference\<close>

text \<open>A cached entry: addresses in use, and a first row whose epoch is the number \<open>epoch\<close>.\<close>

definition entry_ok :: "store \<Rightarrow> refs \<Rightarrow> int \<Rightarrow> bool" where
  "entry_ok st m epoch \<longleftrightarrow> m \<noteq> [] \<and> (\<forall>a\<in>set m. a < fresh st) \<and>
     gget (cell st (hd m)) EpochColumnName = Some (VInt64 epoch)"

lemma GetEpoch_entry:
  assumes "entry_ok st m epoch"
  shows "refs_GetEpoch now m st = (st, epoch)"
proof -
  obtain a rest where "m = a # rest"
    using assms by (cases m) (auto simp: entry_ok_def)
  then show ?thesis
    using assms by (simp add: refs_GetEpoch_def Measurement_GetEpoch_def entry_ok_def write_cell_def)
qed

lemma Get_entry:
  assumes "gget imc key = Some m" "key \<noteq> []" "entry_ok st m epoch"
  shows "Get imc key age now now' st = (if now' - epoch > age then (st, []) else DeepCopy st m)"
  using assms by (simp add: Get_def GetEpoch_entry)

text \<open>Reading an entry and writing to the copy leaves the entry as it was.\<close>

lemma Get_then_write:
  assumes "gget imc key = Some m" "key \<noteq> []" "entry_ok st m epoch" "now' - epoch \<le> age"
    and "Get imc key age now now' st = (st', copy)"
    and "st'' = AddSysinfoToMeasurements nf idf dbn sid copy st'"
  shows "rows st' copy = rows st m" "entry_ok st'' m epoch" "rows st'' m = rows st m"
proof -
  have dc: "DeepCopy st m = (st', copy)"
    using assms Get_entry [OF assms(1-3), of age now now'] by simp
  note block = DeepCopy_block [OF dc]
  show "rows st' copy = rows st m"
    using assms(3) by (intro DeepCopy_contents [OF dc]) (simp add: entry_ok_def)
  have same: "cell st'' a = cell st a" if "a \<in> set m" for a
    using that assms(3,6) block by (auto simp: entry_ok_def)
  then show "rows st'' m = rows st m"
    by (simp add: rows_def)
  show "entry_ok st'' m epoch"
    using assms(3,6) block same by (auto simp: entry_ok_def)
qed

lemma Put_entry:
  assumes "data \<noteq> []" "key \<noteq> []" "\<forall>a\<in>set data. a < fresh st"
    and "gget (cell st (hd data)) EpochColumnName = Some (VInt64 epoch)"
    and "Put key data now imc st = (imc', st')"
  shows "\<exists>m. gget imc' key = Some m \<and> entry_ok st' m epoch \<and> rows st' m = rows st data \<and>
    set m \<inter> set data = {}"
proof -
  obtain st1 m where dc: "DeepCopy st data = (st1, m)" by fastforce
  note block = DeepCopy_block [OF dc] and contents = DeepCopy_contents [OF dc assms(3)]
  obtain d ds where data: "data = d # ds" using assms(1) by (cases data) auto
  have "length m = Suc (length ds)" using block data by (simp del: upt_Suc)
  then obtain b bs where m: "m = b # bs" by (cases m) auto
  have hd: "cell st1 (hd m) = cell st (hd data)"
    using contents data m by (simp add: rows_def)
  then have "refs_IsEpochSet st1 m"
    using assms(4) data m by (simp add: refs_IsEpochSet_def IsEpochSet_def rows_def)
  then have eq: "imc' = gset key m imc" "st' = st1"
    using assms(1,2,5) dc by (simp_all add: Put_def)
  have "set m \<inter> set data = {}"
    using block assms(3) by auto
  moreover have "entry_ok st1 m epoch"
    using block hd assms(4) m by (auto simp: entry_ok_def)
  ultimately show ?thesis
    using eq contents by (auto simp: map_of_gset)
qed

text \<open>
  what was put into the cache is what every reader gets, as long as it is fresh. The writer
  goes on to add its own database name to the rows it sends, and a reader adds its own name to
  the rows it got; neither is seen by the cache or by another reader.
\<close>

theorem cache_isolated:
  assumes "data \<noteq> []" "key \<noteq> []" "\<forall>a\<in>set data. a < fresh st"
    and "gget (cell st (hd data)) EpochColumnName = Some (VInt64 epoch)"
    and "Put key data now imc st = (imc', st1)"
    and "st2 = AddSysinfoToMeasurements nf idf dbn sid data st1"
    and "Get imc' key age t3 t3' st2 = (st3, r3)" "t3' - epoch \<le> age"
    and "st4 = AddSysinfoToMeasurements nf' idf' dbn' sid' r3 st3"
    and "Get imc' key age t5 t5' st4 = (st5, r5)" "t5' - epoch \<le> age"
  shows "rows st3 r3 = rows st data \<and> rows st5 r5 = rows st data"
proof -
  obtain m where m: "gget imc' key = Some m" "entry_ok st1 m epoch" "rows st1 m = rows st data"
      "set m \<inter> set data = {}"
    using Put_entry [OF assms(1-5)] by blast
  have same: "cell st2 a = cell st1 a" if "a \<in> set m" for a
    using that m(4) unfolding assms(6) by (intro AddSysinfo_frame(2)) blast
  have "rows st2 m = rows st1 m"
    using same by (simp add: rows_def)
  then have e2: "entry_ok st2 m epoch" "rows st2 m = rows st data"
    using m same assms(6) by (auto simp: entry_ok_def)
  note g3 = Get_then_write [OF m(1) assms(2) e2(1) assms(8,7,9)]
  note g5 = Get_then_write [OF m(1) assms(2) g3(2) assms(11,10) refl]
  show ?thesis
    using g3 g5 e2 by simp
qed

text \<open>
  An entry older than the allowed age is not served, and neither is a key that was never put.
\<close>

lemma Get_missing [simp]: "gget imc key = None \<Longrightarrow> Get imc key age now now' st = (st, [])"
  by (simp add: Get_def refs_GetEpoch_def)

lemma Get_stale:
  "gget imc key = Some m \<Longrightarrow> entry_ok st m epoch \<Longrightarrow> now' - epoch > age \<Longrightarrow>
     Get imc key age now now' st = (st, [])"
  by (cases "key = []") (simp_all add: Get_def GetEpoch_entry)

definition sample_store :: store where
  "sample_store = \<lparr>cell = (\<lambda>_. [(EpochColumnName, VInt64 100), (''x'', VInt64 7)]), fresh = 2\<rparr>"

theorem cache_isolated_witness:
  "let (imc', st1) = Put ''c1:wal'' [0, 1] 100 [] sample_store;
       st2 = AddSysinfoToMeasurements ''real_dbname'' ''sys_id'' ''app'' ''77'' [0, 1] st1;
       (st3, r3) = Get imc' ''c1:wal'' 50 120 120 st2;
       st4 = AddSysinfoToMeasurements ''real_dbname'' ''sys_id'' ''shop'' ''77'' r3 st3;
       (st5, r5) = Get imc' ''c1:wal'' 50 130 130 st4
   in rows st3 r3 = rows sample_store [0, 1] \<and> rows st5 r5 = rows sample_store [0, 1] \<and> length r5 = 2"
proof -
  obtain imc' st1 where put: "Put ''c1:wal'' [0, 1] 100 [] sample_store = (imc', st1)" by fastforce
  define st2 where "st2 = AddSysinfoToMeasurements ''real_dbname'' ''sys_id'' ''app'' ''77'' [0, 1] st1"
  obtain st3 r3 where get3: "Get imc' ''c1:wal'' 50 120 120 st2 = (st3, r3)" by fastforce
  define st4 where "st4 = AddSysinfoToMeasurements ''real_dbname'' ''sys_id'' ''shop'' ''77'' r3 st3"
  obtain st5 r5 where get5: "Get imc' ''c1:wal'' 50 130 130 st4 = (st5, r5)" by fastforce
  have "rows st3 r3 = rows sample_store [0, 1] \<and> rows st5 r5 = rows sample_store [0, 1]"
    by (rule cache_isolated [OF _ _ _ _ put st2_def get3 _ st4_def get5, where epoch = 100])
       (simp_all add: sample_store_def EpochColumnName_def)
  moreover from this have "length r5 = 2"
    by (metis length_map length_Cons list.size(3) numeral_2_eq_2 rows_def)
  ultimately show ?thesis
    unfolding put Let_def case_prod_conv st2_def [symmetric] get3 st4_def [symmetric] get5 by simp
qed

section \<open>The cache on values\<close>

text \<open>
  Clients see the cache by value: \<open>vPut\<close> and \<open>vGet\<close> store and return rows, without addresses.
  The operations on the store implement them.
\<close>

type_synonym vcache = "(string, measurements) gomap"

definition vPut :: "string \<Rightarrow> measurements \<Rightarrow> int \<Rightarrow> vcache \<Rightarrow> vcache" where
  "vPut key data now c =
     (if data = [] \<or> key = [] then c
      else gset key (if IsEpochSet data then data else Touch now data) c)"

definition vGet :: "vcache \<Rightarrow> string \<Rightarrow> int \<Rightarrow> int \<Rightarrow> int \<Rightarrow> vcache \<times> measurements" where
  "vGet c key age now now' =
     (if key = [] then (c, [])
      else case gget c key of
             None \<Rightarrow> (c, [])
           | Some ms \<Rightarrow>
               (let (epoch, ms) = GetEpoch now ms; c = gset key ms c
                in if now' - epoch > age then (c, []) else (c, ms)))"

definition abs_cache :: "icache \<Rightarrow> store \<Rightarrow> vcache" where
  "abs_cache imc st = map (\<lambda>(k, rs). (k, rows st rs)) imc"

text \<open>The rows of the cache are allocated, and no two entries share one.\<close>

definition cache_inv :: "icache \<Rightarrow> store \<Rightarrow> bool" where
  "cache_inv imc st \<longleftrightarrow> gwf imc \<and> distinct (concat (map snd imc)) \<and>
     (\<forall>rs\<in>set (map snd imc). rs \<noteq> [] \<and> (\<forall>a\<in>set rs. a < fresh st))"

lemma abs_cache_get [simp]: "gget (abs_cache imc st) key = map_option (rows st) (gget imc key)"
  by (induction imc) (auto simp: abs_cache_def)

lemma abs_cache_gset: "abs_cache (gset key rs imc) st = gset key (rows st rs) (abs_cache imc st)"
  by (induction imc) (auto simp: abs_cache_def)

lemma abs_cache_cong:
  "(\<And>k rs a. (k, rs) \<in> set imc \<Longrightarrow> a \<in> set rs \<Longrightarrow> cell st' a = cell st a) \<Longrightarrow>
     abs_cache imc st' = abs_cache imc st"
  by (auto simp: abs_cache_def rows_def)

lemma rows_Touch:
  "distinct rs \<Longrightarrow> rows (refs_Touch ns rs st) rs = Touch ns (rows st rs)"
proof (induction rs arbitrary: st)
  case (Cons a rs)
  have "cell (write_cell a (gset EpochColumnName (VInt64 ns)) st) b = cell st b" if "b \<in> set rs" for b
    using that Cons.prems by (intro write_cell_simps(2)) auto
  then have "rows (write_cell a (gset EpochColumnName (VInt64 ns)) st) rs = rows st rs"
    by (simp add: rows_def)
  with Cons show ?case by (simp add: rows_def Touch_def)
qed (simp add: rows_def Touch_def)

lemma old_below_fresh:
  "cache_inv imc st \<Longrightarrow> (k, rs) \<in> set imc \<Longrightarrow> a \<in> set rs \<Longrightarrow> a < fresh st"
  by (force simp: cache_inv_def)

lemma set_gset_snd: "set (map snd (gset k v m)) \<subseteq> insert v (set (map snd m))"
  by (induction m) auto

lemma concat_gset:
  "distinct (concat (map snd m)) \<Longrightarrow> distinct v \<Longrightarrow> set v \<inter> set (concat (map snd m)) = {} \<Longrightarrow>
     distinct (concat (map snd (gset k v m))) \<and>
     set (concat (map snd (gset k v m))) \<subseteq> set v \<union> set (concat (map snd m))"
proof (induction m)
  case (Cons e m)
  obtain k' v' where e: "e = (k', v')" by fastforce
  show ?case
  proof (cases "k' = k")
    case False
    then have "distinct (concat (map snd (gset k v m)))"
        "set (concat (map snd (gset k v m))) \<subseteq> set v \<union> set (concat (map snd m))"
      using Cons e by auto
    moreover have "set v' \<inter> (set v \<union> set (concat (map snd m))) = {}" "distinct v'"
      using Cons.prems e by auto
    ultimately show ?thesis
      using False e by (auto simp: disjoint_iff)
  qed (use Cons.prems e in auto)
qed simp

lemma cache_inv_gset:
  assumes "cache_inv imc st" "fresh st \<le> fresh st'"
    and "rs \<noteq> []" "distinct rs" "\<forall>a\<in>set rs. fresh st \<le> a \<and> a < fresh st'"
  shows "cache_inv (gset key rs imc) st'"
proof -
  have "set rs \<inter> set (concat (map snd imc)) = {}"
    using assms(1,5) old_below_fresh by fastforce
  then have "distinct (concat (map snd (gset key rs imc)))"
    using concat_gset [of imc rs key] assms(1,4) by (simp add: cache_inv_def)
  moreover have "rs' \<noteq> [] \<and> (\<forall>a\<in>set rs'. a < fresh st')" if "rs' \<in> set (map snd (gset key rs imc))" for rs'
  proof (cases "rs' = rs")
    case False
    then have "rs' \<in> set (map snd imc)"
      using that set_gset_snd [of key rs imc] by blast
    then have "rs' \<noteq> []" "\<forall>a\<in>set rs'. a < fresh st"
      using assms(1) unfolding cache_inv_def by blast+
    with assms(2) show ?thesis by auto
  qed (use assms in auto)
  ultimately show ?thesis
    using assms(1) by (auto simp: cache_inv_def)
qed

lemma Put_refines:
  assumes "cache_inv imc st" "\<forall>a\<in>set data. a < fresh st" "Put key data now imc st = (imc', st')"
  shows "abs_cache imc' st' = vPut key (rows st data) now (abs_cache imc st)" "cache_inv imc' st'"
proof -
  have "abs_cache imc' st' = vPut key (rows st data) now (abs_cache imc st) \<and> cache_inv imc' st'"
  proof (cases "data = [] \<or> key = []")
    case True
    then have "(imc', st') = (imc, st)" and "vPut key (rows st data) now (abs_cache imc st) = abs_cache imc st"
      using assms(3) by (auto simp add: Put_def vPut_def rows_def)
    with assms(1) show ?thesis by simp
  next
    case False
    obtain st1 m where dc: "DeepCopy st data = (st1, m)" by fastforce
    note block = DeepCopy_block [OF dc] and contents = DeepCopy_contents [OF dc assms(2)]
    define st2 where "st2 = (if \<not> refs_IsEpochSet st1 m then refs_Touch now m st1 else st1)"
    have eq: "imc' = gset key m imc" "st' = st2"
      using assms(3) dc False by (auto simp: Put_def st2_def Let_def)
    have rows2: "rows st2 m = (if IsEpochSet (rows st data) then rows st data else Touch now (rows st data))"
      using contents block by (simp add: st2_def refs_IsEpochSet_def rows_Touch)
    have "cell st2 a = cell st a" if "(k, rs) \<in> set imc" "a \<in> set rs" for k rs a
    proof -
      have "a < fresh st" using old_below_fresh assms(1) that by blast
      with block show ?thesis by (auto simp: st2_def)
    qed
    then have "abs_cache imc st2 = abs_cache imc st"
      by (rule abs_cache_cong)
    moreover have "fresh st2 = fresh st1"
      by (simp add: st2_def)
    moreover have "m \<noteq> []"
      using block False by auto
    ultimately have "cache_inv (gset key m imc) st2"
      using block by (intro cache_inv_gset [OF assms(1)]) auto
    with \<open>abs_cache imc st2 = abs_cache imc st\<close> False eq rows2 show ?thesis
      by (simp add: abs_cache_gset vPut_def rows_def)
  qed
  then show "abs_cache imc' st' = vPut key (rows st data) now (abs_cache imc st)" "cache_inv imc' st'"
    by simp_all
qed

lemma entry_apart:
  assumes "cache_inv imc st" "gget imc key = Some rs" "(k, rs') \<in> set imc" "k \<noteq> key"
  shows "set rs \<inter> set rs' = {}"
proof (cases "rs = rs'")
  case True
  have "[] \<notin> set (map snd imc)"
    using assms(1) by (auto simp: cache_inv_def)
  then have "distinct (map snd imc)"
    using assms(1) by (metis cache_inv_def distinct_concat_iff removeAll_id)
  then have "inj_on snd (set imc)"
    by (simp add: distinct_map)
  moreover have "(key, rs) \<in> set imc"
    using assms(2) by (rule map_of_SomeD)
  ultimately have "(key, rs) = (k, rs')"
    using True assms(3) by (intro inj_onD [of snd]) auto
  with assms(4) show ?thesis by simp
next
  case False
  have "rs \<in> set (map snd imc)" "rs' \<in> set (map snd imc)"
    using assms(2,3) by (force dest: map_of_SomeD)+
  with False assms(1) show ?thesis
    by (meson cache_inv_def distinct_concat_iff)
qed

lemma gset_map:
  assumes "gwf m" "gget m key = Some v" "\<And>k x. (k, x) \<in> set m \<Longrightarrow> k \<noteq> key \<Longrightarrow> g x = f x"
  shows "map (\<lambda>(k, x). (k, g x)) m = gset key (g v) (map (\<lambda>(k, x). (k, f x)) m)"
  using assms
proof (induction m)
  case (Cons e m)
  obtain k x where e: "e = (k, x)" by fastforce
  have others: "g y = f y" if "(j, y) \<in> set m" "j \<noteq> key" for j y
    using Cons.prems(3) [of j y] that by simp
  show ?case
  proof (cases "k = key")
    case True
    then have "j \<noteq> key" if "(j, y) \<in> set m" for j y
      using Cons.prems(1) e that by force
    with True e Cons.prems(2) others show ?thesis by fastforce
  next
    case False
    then show ?thesis
      using Cons.IH Cons.prems(1,2) e others Cons.prems(3) [of k x] by simp
  qed
qed simp

text \<open>The first row of an entry may get the time as its epoch; every other entry stays as it is.\<close>

lemma GetEpoch_refines:
  assumes "cache_inv imc st" "gget imc key = Some rs" "refs_GetEpoch now rs st = (st', epoch)"
  shows "GetEpoch now (rows st rs) = (epoch, rows st' rs)"
    and "abs_cache imc st' = gset key (rows st' rs) (abs_cache imc st)" "fresh st' = fresh st"
proof -
  have mem: "(key, rs) \<in> set imc" using assms(2) by (rule map_of_SomeD)
  obtain a rest where rs: "rs = a # rest"
    using assms(1) mem by (cases rs) (auto simp: cache_inv_def)
  have dist: "distinct rs"
    using assms(1) mem by (auto simp: cache_inv_def distinct_concat_iff)
  obtain m where m: "Measurement_GetEpoch now (cell st a) = (epoch, m)" "st' = write_cell a (\<lambda>_. m) st"
    using assms(3) rs by (auto simp: refs_GetEpoch_def Let_def split: prod.splits)
  show "fresh st' = fresh st" using m by simp
  have same: "cell st' b = cell st b" if "b \<noteq> a" for b
    using that m by simp
  have "map (cell st') rest = map (cell st) rest"
    using dist rs by (intro map_cong refl same) auto
  then show "GetEpoch now (rows st rs) = (epoch, rows st' rs)"
    using rs m by (simp add: GetEpoch_def rows_def)
  have others: "rows st' rs' = rows st rs'" if "(k, rs') \<in> set imc" "k \<noteq> key" for k rs'
    using entry_apart [OF assms(1,2) that] rs unfolding rows_def by (intro map_cong refl same) auto
  have "gwf imc" using assms(1) by (simp add: cache_inv_def)
  then show "abs_cache imc st' = gset key (rows st' rs) (abs_cache imc st)"
    unfolding abs_cache_def using assms(2) others by (intro gset_map) auto
qed

lemma Get_refines:
  assumes "cache_inv imc st" "Get imc key age now now' st = (st', r)"
  shows "vGet (abs_cache imc st) key age now now' = (abs_cache imc st', rows st' r)" "cache_inv imc st'"
proof -
  have "vGet (abs_cache imc st) key age now now' = (abs_cache imc st', rows st' r) \<and> cache_inv imc st'"
  proof (cases "key = [] \<or> gget imc key = None")
    case True
    then have "Get imc key age now now' st = (st, [])"
      by (cases "key = []") (simp_all add: Get_def refs_GetEpoch_def)
    with True assms show ?thesis
      by (cases "key = []") (simp_all add: vGet_def rows_def)
  next
    case False
    then obtain rs where rs: "gget imc key = Some rs" "key \<noteq> []" by auto
    obtain st1 epoch where ep: "refs_GetEpoch now rs st = (st1, epoch)" by fastforce
    note ge = GetEpoch_refines [OF assms(1) rs(1) ep]
    have inv1: "cache_inv imc st1"
      using assms(1) ge(3) by (simp add: cache_inv_def)
    show ?thesis
    proof (cases "now' - epoch > age")
      case True
      then have "st' = st1" "r = []"
        using assms(2) rs ep by (auto simp: Get_def)
      with True rs ge inv1 show ?thesis
        by (simp add: vGet_def rows_def)
    next
      case False
      then have dc: "DeepCopy st1 rs = (st', r)"
        using assms(2) rs ep by (simp add: Get_def)
      note block = DeepCopy_block [OF dc]
      have low: "\<forall>a\<in>set rs. a < fresh st1"
        using old_below_fresh [OF inv1] rs(1) by (auto dest: map_of_SomeD)
      have "abs_cache imc st' = abs_cache imc st1"
        using block old_below_fresh [OF inv1] by (intro abs_cache_cong) blast
      moreover have "cache_inv imc st'"
        using inv1 block by (force simp: cache_inv_def)
      ultimately show ?thesis
        using False rs ge DeepCopy_contents [OF dc low] by (simp add: vGet_def)
    qed
  qed
  then show "vGet (abs_cache imc st) key age now now' = (abs_cache imc st', rows st' r)" "cache_inv imc st'"
    by simp_all
qed



end
