(* ===== verification/Source_Types.thy ===== *)
theory Source_Types
  imports Metric_Types
begin

text \<open>
  The data of \<open>internal/sources/types.go\<close>: the configuration of one source, its kind, and the
  operations \<open>IsValid\<close>, \<open>Validate\<close> and \<open>Equal\<close>, with the options of \<open>cmdopts.go\<close>.
  \<open>Kind\<close> is an open string type in the code and stays one here.
\<close>

section \<open>Data\<close>

definition SourcePostgres :: string where "SourcePostgres = ''postgres''"
definition SourcePostgresDiscovery :: string where
  "SourcePostgresDiscovery = ''postgres-continuous-discovery''"
definition SourcePgBouncer :: string where "SourcePgBouncer = ''pgbouncer''"
definition SourcePgPool :: string where "SourcePgPool = ''pgpool''"
definition SourcePatroniDiscovery :: string where "SourcePatroniDiscovery = ''patroni''"
definition SourcePrometheus :: string where "SourcePrometheus = ''prometheus''"

definition Kinds :: "string list" where
  "Kinds = [SourcePostgres, SourcePostgresDiscovery, SourcePgBouncer, SourcePgPool,
            SourcePatroniDiscovery, SourcePrometheus]"

definition IsValid :: "string \<Rightarrow> bool" where
  "IsValid k \<longleftrightarrow> k \<in> set Kinds"

lemmas kind_defs = SourcePostgres_def SourcePostgresDiscovery_def SourcePgBouncer_def
  SourcePgPool_def SourcePatroniDiscovery_def SourcePrometheus_def

record source =
  Name :: string
  Group :: string
  ConnStr :: string
  Metrics :: intervals
  MetricsStandby :: intervals
  Kind :: string
  IncludePattern :: string
  ExcludePattern :: string
  PresetMetrics :: string
  PresetMetricsStandby :: string
  IsEnabled :: bool
  sCustomTags :: tags
  OnlyIfMaster :: bool

record source_opts =
  Sources :: string
  Refresh :: int
  Groups :: "string list"
  MinDbSizeMB :: int
  MaxParallelConnectionsPerDb :: int
  TryCreateListedExtsIfMissing :: string
  CreateHelpers :: bool

section \<open>Operations\<close>

text \<open>The body of the \<open>switch\<close> in \<open>Validate\<close>: the kind a source ought to have.\<close>

definition normalize_kind :: "source \<Rightarrow> source" where
  "normalize_kind src =
     (if Kind src = [] then src\<lparr>Kind := SourcePostgres\<rparr>
      else if Kind src = ''patroni-continuous-discovery'' \<or> Kind src = ''patroni-namespace-discovery''
      then src\<lparr>Kind := SourcePatroniDiscovery\<rparr>
      else src)"

text \<open>
  The loop of \<open>Validate\<close>. The loop variable of \<open>for _, src := range srcs\<close> is a copy of the
  element, so the assignments of the \<open>switch\<close> (the second component of the result collects the
  copies it leaves behind) never reach the slice that is returned.
\<close>

fun validate_loop :: "string list \<Rightarrow> source list \<Rightarrow> goerr + source list" where
  "validate_loop names [] = Inr []"
| "validate_loop names (src # rest) =
     (if Name src \<in> set names
      then Inl (ErrText (''duplicate source with name '' @ Name src @ '' found''))
      else case validate_loop (Name src # names) rest of
             Inl e \<Rightarrow> Inl e
           | Inr copies \<Rightarrow> Inr (normalize_kind src # copies))"

definition Validate :: "source list \<Rightarrow> goerr + source list" where
  "Validate srcs =
     (case validate_loop [] srcs of
        Inl e \<Rightarrow> Inl e
      | Inr copies \<Rightarrow> Inr srcs)"

definition Source_Equal :: "source \<Rightarrow> source \<Rightarrow> bool" where
  "Source_Equal s s2 =
     (let eq = (if PresetMetrics s \<noteq> [] \<or> PresetMetrics s2 \<noteq> []
                then PresetMetrics s = PresetMetrics s2
                else geq_opt (Metrics s) (Metrics s2));
          eq' = (if PresetMetricsStandby s \<noteq> [] \<or> PresetMetricsStandby s2 \<noteq> []
                 then eq \<and> PresetMetricsStandby s = PresetMetricsStandby s2
                 else eq \<and> geq_opt (MetricsStandby s) (MetricsStandby s2))
      in eq' \<and>
         Name s = Name s2 \<and>
         Group s = Group s2 \<and>
         ConnStr s = ConnStr s2 \<and>
         Kind s = Kind s2 \<and>
         IsEnabled s = IsEnabled s2 \<and>
         IncludePattern s = IncludePattern s2 \<and>
         ExcludePattern s = ExcludePattern s2 \<and>
         OnlyIfMaster s = OnlyIfMaster s2 \<and>
         geq_opt (sCustomTags s) (sCustomTags s2))"

section \<open>Validation\<close>

lemma validate_loop_Inr:
  "(\<exists>copies. validate_loop names srcs = Inr copies) \<longleftrightarrow>
     distinct (map Name srcs) \<and> set (map Name srcs) \<inter> set names = {}"
  by (induction names srcs rule: validate_loop.induct) (auto split: sum.splits)

text \<open>
  \<open>Validate\<close> accepts a list of sources exactly when no two of them have the same name, and
  then returns the very same list.
\<close>

theorem Validate_iff_distinct:
  "case Validate srcs of
     Inr r \<Rightarrow> distinct (map Name srcs) \<and> r = srcs
   | Inl e \<Rightarrow> \<not> distinct (map Name srcs)"
  using validate_loop_Inr [of "[]" srcs] by (auto simp: Validate_def split: sum.splits)

text \<open>
  the kinds that \<open>Validate\<close> means to fill in or to replace are lost. A source without a kind
  passes validation and still has no kind afterwards, although the loop computed
  \<open>postgres\<close> for it; the deprecated Patroni kinds survive the same way.
\<close>

theorem Validate_drops_kind:
  assumes "distinct (map Name srcs)" "src \<in> set srcs"
    and "Kind src \<in> {[], ''patroni-continuous-discovery'', ''patroni-namespace-discovery''}"
  shows "\<exists>copies. validate_loop [] srcs = Inr copies \<and> normalize_kind src \<in> set copies \<and>
    Validate srcs = Inr srcs \<and> \<not> IsValid (Kind src) \<and> IsValid (Kind (normalize_kind src))"
proof -
  obtain copies where c: "validate_loop [] srcs = Inr copies"
    using validate_loop_Inr [of "[]" srcs] assms(1) by auto
  have copies: "validate_loop names xs = Inr cs \<Longrightarrow> cs = map normalize_kind xs" for names xs cs
    by (induction names xs arbitrary: cs rule: validate_loop.induct) (auto split: if_splits sum.splits)
  have "normalize_kind src \<in> set copies"
    using copies [OF c] assms(2) by simp
  moreover have "\<not> IsValid (Kind src)" "IsValid (Kind (normalize_kind src))"
    using assms(3) by (auto simp: IsValid_def Kinds_def kind_defs normalize_kind_def)
  ultimately show ?thesis
    using c by (auto simp: Validate_def)
qed

section \<open>Equality of configurations\<close>

definition wf_source :: "source \<Rightarrow> bool" where
  "wf_source s \<longleftrightarrow> gwf (oentries (Metrics s)) \<and> gwf (oentries (MetricsStandby s)) \<and>
     gwf (oentries (sCustomTags s))"

text \<open>The part of a source that \<open>Source_Equal\<close> compares: a preset hides the custom intervals.\<close>

definition eq_view where
  "eq_view s =
     (Name s, Group s, ConnStr s, Kind s, IsEnabled s, IncludePattern s, ExcludePattern s,
      OnlyIfMaster s,
      (sCustomTags s = None, oget (sCustomTags s)),
      (PresetMetrics s, if PresetMetrics s = [] then Some (Metrics s = None, oget (Metrics s)) else None),
      (PresetMetricsStandby s,
       if PresetMetricsStandby s = [] then Some (MetricsStandby s = None, oget (MetricsStandby s)) else None))"

lemma Source_Equal_iff:
  assumes "wf_source s" "wf_source s2"
  shows "Source_Equal s s2 \<longleftrightarrow> eq_view s = eq_view s2"
proof -
  have m: "geq_opt (Metrics s) (Metrics s2) \<longleftrightarrow>
      (Metrics s = None \<longleftrightarrow> Metrics s2 = None) \<and> oget (Metrics s) = oget (Metrics s2)"
    and ms: "geq_opt (MetricsStandby s) (MetricsStandby s2) \<longleftrightarrow>
      (MetricsStandby s = None \<longleftrightarrow> MetricsStandby s2 = None) \<and> oget (MetricsStandby s) = oget (MetricsStandby s2)"
    and t: "geq_opt (sCustomTags s) (sCustomTags s2) \<longleftrightarrow>
      (sCustomTags s = None \<longleftrightarrow> sCustomTags s2 = None) \<and> oget (sCustomTags s) = oget (sCustomTags s2)"
    using assms by (auto simp: wf_source_def intro!: geq_opt_iff)
  show ?thesis
    unfolding Source_Equal_def eq_view_def Let_def m ms t by auto
qed

text \<open>
  \<open>Equal\<close> is an equivalence relation on sources. Changing the custom intervals of a source
  that uses a preset, which is what loading the metric definitions does, does not change what
  it is equal to.
\<close>

theorem Source_Equal_equivalence:
  assumes "wf_source a" "wf_source b" "wf_source c"
  shows "Source_Equal a a \<and>
    (Source_Equal a b \<longrightarrow> Source_Equal b a) \<and>
    (Source_Equal a b \<longrightarrow> Source_Equal b c \<longrightarrow> Source_Equal a c)"
  using assms by (simp add: Source_Equal_iff)

lemma Source_Equal_preset_main:
  "PresetMetrics s \<noteq> [] \<Longrightarrow> Source_Equal (s\<lparr>Metrics := i\<rparr>) s2 = Source_Equal s s2"
  by (simp add: Source_Equal_def)

lemma Source_Equal_preset_standby:
  "PresetMetricsStandby s \<noteq> [] \<Longrightarrow> Source_Equal (s\<lparr>MetricsStandby := i\<rparr>) s2 = Source_Equal s s2"
  by (simp add: Source_Equal_def)

section \<open>Witnesses\<close>

definition sample_source :: source where
  "sample_source = \<lparr>Name = ''db1'', Group = ''default'', ConnStr = ''postgresql://h/db1'',
     Metrics = Some [(''wal'', 60), (''cpu_load'', 30)], MetricsStandby = None, Kind = SourcePostgres,
     IncludePattern = [], ExcludePattern = [], PresetMetrics = [], PresetMetricsStandby = [],
     IsEnabled = True, sCustomTags = None, OnlyIfMaster = False\<rparr>"

theorem Validate_drops_kind_witness:
  "\<exists>copies. validate_loop [] [sample_source, sample_source\<lparr>Name := ''x'', Kind := []\<rparr>] = Inr copies \<and>
     normalize_kind (sample_source\<lparr>Name := ''x'', Kind := []\<rparr>) \<in> set copies \<and>
     Validate [sample_source, sample_source\<lparr>Name := ''x'', Kind := []\<rparr>] =
       Inr [sample_source, sample_source\<lparr>Name := ''x'', Kind := []\<rparr>] \<and>
     \<not> IsValid (Kind (sample_source\<lparr>Name := ''x'', Kind := []\<rparr>))"
  using Validate_drops_kind [of "[sample_source, sample_source\<lparr>Name := ''x'', Kind := []\<rparr>]"
      "sample_source\<lparr>Name := ''x'', Kind := []\<rparr>"]
  by (auto simp: sample_source_def)

theorem Source_Equal_equivalence_witness:
  "wf_source sample_source \<and>
   Source_Equal sample_source (sample_source\<lparr>Metrics := Some [(''cpu_load'', 30), (''wal'', 60)]\<rparr>) \<and>
   Source_Equal (sample_source\<lparr>Metrics := Some [(''cpu_load'', 30), (''wal'', 60)]\<rparr>) sample_source"
proof -
  let ?b = "sample_source\<lparr>Metrics := Some [(''cpu_load'', 30), (''wal'', 60)]\<rparr>"
  have wf: "wf_source sample_source" "wf_source ?b"
    by (simp_all add: wf_source_def sample_source_def oentries_def)
  have "Source_Equal sample_source ?b"
    by (simp add: Source_Equal_def sample_source_def geq_def)
  then show ?thesis
    using wf Source_Equal_equivalence [OF wf(1) wf(2) wf(1)] by blast
qed

end
