(* ===== verification/Db_Conn.thy ===== *)
theory Db_Conn
  imports Go_Prelude
begin

text \<open>
  The package \<open>internal/db\<close>: waiting for a database at start-up (\<open>bootstrap.go\<close>), the check whether
  a storage needs migration, the conversion of parameters to JSON, the test whether pgwatch runs on
  the host of a server (\<open>conn.go\<close>), and the deadlines of fetches (\<open>deadlines.go\<close>).

  The driver is a parameter: \<open>ping i\<close> is the outcome of the \<open>i\<close>-th call of \<open>Ping\<close>, and the answer of
  a query is a value of type \<open>goerr + 'a\<close>.
\<close>

section \<open>Start-up\<close>

text \<open>
  \<open>retry.Do\<close> with the back-off of \<open>Init\<close>: \<open>left\<close> retries remain after the call numbered \<open>i\<close>. The
  result is the outcome of the last call of \<open>Ping\<close>, and how many calls were made.
\<close>

fun retry_ping :: "(nat \<Rightarrow> goerr option) \<Rightarrow> nat \<Rightarrow> nat \<Rightarrow> goerr option \<times> nat" where
  "retry_ping ping i left =
     (case ping i of
        None \<Rightarrow> (None, Suc i)
      | Some err \<Rightarrow> (case left of 0 \<Rightarrow> (Some err, Suc i) | Suc l \<Rightarrow> retry_ping ping (Suc i) l))"

declare retry_ping.simps [simp del]

definition Init_retries :: nat where "Init_retries = 3"

text \<open>\<open>Init\<close>: the initialisation runs when a call of \<open>Ping\<close> succeeded.\<close>

definition Init :: "(nat \<Rightarrow> goerr option) \<Rightarrow> ('s \<Rightarrow> 's \<times> goerr option) \<Rightarrow> 's \<Rightarrow> 's \<times> goerr option" where
  "Init ping init s =
     (case fst (retry_ping ping 0 Init_retries) of Some err \<Rightarrow> (s, Some err) | None \<Rightarrow> init s)"

text \<open>\<open>NeedsMigration\<close>: \<open>None\<close> for a storage that is not a \<open>Migrator\<close>.\<close>

definition NeedsMigration :: "(goerr + bool) option \<Rightarrow> goerr \<Rightarrow> goerr option" where
  "NeedsMigration storage needsMigrationErr =
     (case storage of
        None \<Rightarrow> None
      | Some (Inl err) \<Rightarrow> Some err
      | Some (Inr needs) \<Rightarrow> if needs then Some needsMigrationErr else None)"

section \<open>The host of a server\<close>

record host_env =
  he_isUnixSocket :: "goerr + bool"
  he_dataDirectory :: "goerr + string"
  he_systemIdentifier :: "goerr + 64 word"
  he_controlFile :: "string \<Rightarrow> goerr + 64 word"

text \<open>\<open>IsClientOnSameHost\<close>; \<open>he_controlFile\<close> opens and reads the file \<open>global/pg_control\<close> of a data directory.\<close>

definition IsClientOnSameHost :: "host_env \<Rightarrow> bool \<times> goerr option" where
  "IsClientOnSameHost env =
     (case he_isUnixSocket env of
        Inl err \<Rightarrow> (False, Some err)
      | Inr True \<Rightarrow> (True, None)
      | Inr False \<Rightarrow>
          (case he_dataDirectory env of
             Inl err \<Rightarrow> (False, Some err)
           | Inr dataDirectory \<Rightarrow>
               (case he_systemIdentifier env of
                  Inl err \<Rightarrow> (False, Some err)
                | Inr systemIdentifier \<Rightarrow>
                    (case he_controlFile env dataDirectory of
                       Inl err \<Rightarrow> (False, Some err)
                     | Inr fileSystemIdentifier \<Rightarrow> (fileSystemIdentifier = systemIdentifier, None)))))"

text \<open>A string is a connection string if the driver can parse it.\<close>

definition IsPgConnStr :: "(string \<Rightarrow> goerr option) \<Rightarrow> string \<Rightarrow> bool" where
  "IsPgConnStr parse arg \<longleftrightarrow> parse arg = None"

text \<open>
  \<open>Ping\<close> of \<open>bootstrap.go\<close> connects and closes the connection it got; the second result is the list of closed connections.
\<close>

definition db_Ping :: "(string \<Rightarrow> 'c option \<times> goerr option) \<Rightarrow> string \<Rightarrow> goerr option \<times> 'c list" where
  "db_Ping connect connStr =
     (let (c, err) = connect connStr in (err, case c of None \<Rightarrow> [] | Some conn \<Rightarrow> [conn]))"

definition DoesSchemaExist :: "(string \<Rightarrow> goerr + bool) \<Rightarrow> string \<Rightarrow> bool \<times> goerr option" where
  "DoesSchemaExist query schema = (case query schema of Inl err \<Rightarrow> (False, Some err) | Inr ex \<Rightarrow> (ex, None))"

section \<open>Deadlines\<close>

definition MinFetchTimeout :: int where "MinFetchTimeout = 30 * Second"

definition ChangeDetectionTimeout :: int where "ChangeDetectionTimeout = 60 * Second"

definition RuntimeInfoTimeout :: int where "RuntimeInfoTimeout = 30 * Second"

definition ResolverTimeout :: int where "ResolverTimeout = 15 * Second"

definition PingTimeoutMargin :: int where "PingTimeoutMargin = 5 * Second"

definition deadlineCause :: "string \<Rightarrow> goerr" where
  "deadlineCause opn = ErrText (opn @ '' deadline'')"

text \<open>The deadline of the child context, counted from now, and the cause it carries.\<close>

definition WithFetchTimeout :: "string \<Rightarrow> int \<Rightarrow> int \<times> goerr" where
  "WithFetchTimeout opn interval = (max interval MinFetchTimeout, deadlineCause opn)"

definition WithOpTimeout :: "string \<Rightarrow> int \<Rightarrow> int \<times> goerr" where
  "WithOpTimeout opn d = (d, deadlineCause opn)"

section \<open>Theorems\<close>

lemma retry_ping_up:
  "\<lbrakk>ping (i + k) = None; \<forall>j<k. ping (i + j) \<noteq> None; k \<le> left\<rbrakk> \<Longrightarrow> retry_ping ping i left = (None, Suc (i + k))"
proof (induction k arbitrary: i left)
  case 0
  then show ?case by (subst retry_ping.simps) simp
next
  case (Suc k)
  from Suc.prems(3) obtain l where l: "left = Suc l" "k \<le> l" by (cases left) auto
  from Suc.prems(2) obtain e where e: "ping i = Some e" by fastforce
  have "\<forall>j<k. ping (Suc i + j) \<noteq> None" using Suc.prems(2) by auto
  then have "retry_ping ping (Suc i) l = (None, Suc (Suc i + k))"
    using Suc.IH [of "Suc i" l] Suc.prems(1) l(2) by simp
  with l e show ?case by (subst retry_ping.simps) simp
qed

lemma retry_ping_down:
  "\<forall>j\<le>left. ping (i + j) \<noteq> None \<Longrightarrow> retry_ping ping i left = (ping (i + left), Suc (i + left))"
proof (induction left arbitrary: i)
  case 0
  then show ?case by (subst retry_ping.simps) (auto split: option.splits)
next
  case (Suc l)
  then obtain e where e: "ping i = Some e" by fastforce
  have "\<forall>j\<le>l. ping (Suc i + j) \<noteq> None" using Suc.prems by (metis Suc_le_mono add_Suc_shift)
  from Suc.IH [OF this] e show ?case by (subst retry_ping.simps) simp
qed

text \<open>
  starting up waits for a database that comes up within the first four attempts, and no
  longer: \<open>Init\<close> runs the initialisation exactly when one of the first four pings succeeds, after as many
  pings as it takes, and otherwise fails with the error of the fourth ping and changes nothing.
\<close>

theorem Init_waits:
  "(if \<exists>k\<le>3. ping k = None
    then Init ping init s = init s \<and>
      (\<exists>k\<le>3. ping k = None \<and> (\<forall>j<k. ping j \<noteq> None) \<and> snd (retry_ping ping 0 Init_retries) = Suc k)
    else Init ping init s = (s, ping 3) \<and> ping 3 \<noteq> None \<and> snd (retry_ping ping 0 Init_retries) = 4)"
proof (cases "\<exists>k\<le>3. ping k = None")
  case True
  define k where "k = (LEAST k. ping k = None)"
  from True obtain m where m: "m \<le> 3" "ping m = None" by blast
  have k: "ping k = None" unfolding k_def using m(2) by (rule LeastI)
  have "k \<le> m" unfolding k_def using m(2) by (rule Least_le)
  with m(1) have le: "k \<le> 3" by simp
  have low: "\<forall>j<k. ping j \<noteq> None" unfolding k_def using not_less_Least by blast
  have "retry_ping ping 0 Init_retries = (None, Suc k)"
    using retry_ping_up [of ping 0 k Init_retries] k le low by (simp add: Init_retries_def)
  then have "Init ping init s = init s" "snd (retry_ping ping 0 Init_retries) = Suc k"
    by (simp_all add: Init_def)
  with True k le low show ?thesis by auto
next
  case False
  then have down: "\<forall>j\<le>3. ping (0 + j) \<noteq> None" by simp
  have "retry_ping ping 0 Init_retries = (ping 3, 4)"
    using retry_ping_down [OF down] by (simp add: Init_retries_def)
  moreover have "ping 3 \<noteq> None" using down by simp
  ultimately have "Init ping init s = (s, ping 3)" "ping 3 \<noteq> None"
    "snd (retry_ping ping 0 Init_retries) = 4"
    by (auto simp: Init_def)
  with False show ?thesis by (simp only: if_False simp_thms)
qed

theorem Init_waits_witness:
  "Init (\<lambda>k. if k < 2 then Some (ErrText ''down'') else None) (\<lambda>s. (s + 1, None)) (0 :: nat) = (1, None)"
proof -
  let ?ping = "\<lambda>k :: nat. if k < 2 then Some (ErrText ''down'') else None"
  have "\<exists>k\<le>3. ?ping k = None" by (rule exI [of _ 2]) simp
  with Init_waits [of ?ping "\<lambda>s. (s + 1, None)" "0 :: nat"]
  have "Init ?ping (\<lambda>s. (s + 1, None)) (0 :: nat) = (0 + 1, None)" by (simp only: if_True)
  then show ?thesis by simp
qed

end
