(* ===== verification/Source_Conn.thy ===== *)
theory Source_Conn
  imports Source_Types Db_Conn
begin

text \<open>
  Connections to monitored sources (\<open>internal/sources/conn.go\<close>): \<open>DbConn\<close> with its connection
  pool and runtime information, \<open>PromConn\<close>, and the lookups on lists of connections.

  What the pgx library does is a parameter: \<open>pool_env\<close> holds the results of parsing a connection
  string, of creating a pool, and of a ping or a statement on a pool in a given state. A pool is
  open or closed; a creation that fails leaves a typed \<open>nil\<close> in the interface field, which is
  not \<open>nil\<close> when compared.
\<close>

section \<open>Data\<close>

record connconfig =
  Host :: string
  Port :: int
  User :: string
  Password :: string
  Database :: string
  ConnectTimeout :: int
  MaxConns :: int
  SimpleProtocol :: bool
  ShouldPing :: bool

datatype pool = OpenPool | ClosedPool | NilPool

record pool_env =
  pgx_ParseConfig :: "string \<Rightarrow> goerr + connconfig"
  pgx_NewPool :: "connconfig \<Rightarrow> goerr option"
  pool_Ping :: "pool \<Rightarrow> goerr option"
  pool_Exec :: "pool \<Rightarrow> string \<Rightarrow> goerr option"

record dbconn =
  dbSource :: source
  Conn :: "pool option"
  ConnConfig :: "connconfig option"
  IsInRecovery :: bool
  VersionStr :: string
  Version :: int
  RealDbname :: string
  SystemIdentifier :: string
  IsSuperuser :: bool
  Extensions :: "(string, int) gomap"
  ExecEnv :: string
  ApproxDbSize :: int
  ChangeState :: "(string, (string, string) gomap) gomap"
  lastCheckedNs :: int

text \<open>\<open>promConnConfig\<close>: the URL without credentials, the user and password, and the TLS settings.\<close>

record promcfg =
  pcURL :: string
  pcUserinfo :: "(string \<times> string) option"
  pcSkipVerify :: bool
  pcRootCAs :: bool

record promconn =
  promSource :: source
  promConfig :: "promcfg option"
  HTTPClient :: bool

text \<open>
  What the URL parser, the file system and the HTTP client answer: \<open>http_Parse\<close> gives the URL
  without credentials and TLS parameters, the credentials, and the values of \<open>tlsrootcert\<close> and
  \<open>tlsskipverify\<close>; \<open>http_Get\<close> gives the status code of a GET request with basic authentication.
\<close>

record http_env =
  http_Parse :: "string \<Rightarrow> goerr + string \<times> (string \<times> string) option \<times> string \<times> string"
  http_ReadFile :: "string \<Rightarrow> goerr option"
  http_Get :: "string \<Rightarrow> (string \<times> string) option \<Rightarrow> goerr + int"

datatype sconn = Db dbconn | Prom promconn

section \<open>Construction and access\<close>

definition NewDbConn :: "source \<Rightarrow> dbconn" where
  "NewDbConn s = \<lparr>dbSource = s, Conn = None, ConnConfig = None, IsInRecovery = False,
     VersionStr = [], Version = 0, RealDbname = [], SystemIdentifier = [], IsSuperuser = False,
     Extensions = [], ExecEnv = [], ApproxDbSize = 0, ChangeState = [], lastCheckedNs = 0\<rparr>"

definition NewPromConn :: "source \<Rightarrow> promconn" where
  "NewPromConn s = \<lparr>promSource = s, promConfig = None, HTTPClient = False\<rparr>"

definition NewSourceConn :: "source \<Rightarrow> sconn" where
  "NewSourceConn s = (if Kind s = SourcePrometheus then Prom (NewPromConn s) else Db (NewDbConn s))"

fun GetSource :: "sconn \<Rightarrow> source" where
  "GetSource (Db md) = dbSource md"
| "GetSource (Prom pc) = promSource pc"

definition IsPostgresSource :: "dbconn \<Rightarrow> bool" where
  "IsPostgresSource md \<longleftrightarrow>
     Kind (dbSource md) \<in> {SourcePostgres, SourcePatroniDiscovery, SourcePostgresDiscovery}"

definition ActiveMetrics :: "dbconn \<Rightarrow> intervals" where
  "ActiveMetrics md =
     (if IsInRecovery md \<and> olen (MetricsStandby (dbSource md)) > 0
      then MetricsStandby (dbSource md) else Metrics (dbSource md))"

definition zero_or :: "int option \<Rightarrow> int" where
  "zero_or v = (case v of None \<Rightarrow> 0 | Some i \<Rightarrow> i)"

definition GetMetricInterval :: "dbconn \<Rightarrow> string \<Rightarrow> int" where
  "GetMetricInterval md name =
     (if IsInRecovery md \<and> olen (MetricsStandby (dbSource md)) > 0
      then seconds (zero_or (oget (MetricsStandby (dbSource md)) name))
      else seconds (zero_or (oget (Metrics (dbSource md)) name)))"

definition SetMetricIntervals :: "intervals \<Rightarrow> intervals \<Rightarrow> dbconn \<Rightarrow> dbconn" where
  "SetMetricIntervals main standby md =
     (let s = dbSource md;
          s = (if main \<noteq> None then s\<lparr>Metrics := main\<rparr> else s);
          s = (if standby \<noteq> None then s\<lparr>MetricsStandby := standby\<rparr> else s)
      in md\<lparr>dbSource := s\<rparr>)"

definition Prom_GetMetricInterval :: "promconn \<Rightarrow> string \<Rightarrow> int" where
  "Prom_GetMetricInterval pc name = seconds (zero_or (oget (Metrics (promSource pc)) name))"

definition Prom_SetMetricIntervals :: "intervals \<Rightarrow> promconn \<Rightarrow> promconn" where
  "Prom_SetMetricIntervals main pc =
     (if main \<noteq> None then pc\<lparr>promSource := (promSource pc)\<lparr>Metrics := main\<rparr>\<rparr> else pc)"

fun conn_SetMetricIntervals :: "intervals \<Rightarrow> intervals \<Rightarrow> sconn \<Rightarrow> sconn" where
  "conn_SetMetricIntervals main standby (Db md) = Db (SetMetricIntervals main standby md)"
| "conn_SetMetricIntervals main standby (Prom pc) = Prom (Prom_SetMetricIntervals main pc)"

section \<open>The connection pool\<close>

text \<open>\<open>Close\<close> closes the pool and keeps the pointer to it.\<close>

definition Close :: "dbconn \<Rightarrow> dbconn" where
  "Close md = (case Conn md of None \<Rightarrow> md | Some _ \<Rightarrow> md\<lparr>Conn := Some ClosedPool\<rparr>)"

fun conn_Close :: "sconn \<Rightarrow> sconn" where
  "conn_Close (Db md) = Db (Close md)"
| "conn_Close (Prom pc) = Prom pc"

definition Ping :: "pool_env \<Rightarrow> dbconn \<Rightarrow> goerr option" where
  "Ping env md =
     (case Conn md of
        None \<Rightarrow> Some (ErrText ''nil pointer'')
      | Some p \<Rightarrow>
          (if Kind (dbSource md) = SourcePgBouncer
           then pool_Exec env p ''SHOW VERSION'' else pool_Ping env p))"

definition ParseConfig :: "pool_env \<Rightarrow> dbconn \<Rightarrow> dbconn \<times> goerr option" where
  "ParseConfig env md =
     (case ConnConfig md of
        Some _ \<Rightarrow> (md, None)
      | None \<Rightarrow>
          (case pgx_ParseConfig env (ConnStr (dbSource md)) of
             Inl e \<Rightarrow> (md, Some e)
           | Inr cfg \<Rightarrow> (md\<lparr>ConnConfig := Some cfg\<rparr>, None)))"

text \<open>The settings \<open>Connect\<close> makes on the parsed configuration before it creates the pool.\<close>

definition pool_config :: "source_opts \<Rightarrow> source \<Rightarrow> connconfig \<Rightarrow> connconfig" where
  "pool_config opts s cfg =
     (let cfg = (if Kind s = SourcePgBouncer then cfg\<lparr>SimpleProtocol := True, ShouldPing := False\<rparr> else cfg)
      in if MaxParallelConnectionsPerDb opts > 0
         then cfg\<lparr>MaxConns := MaxParallelConnectionsPerDb opts\<rparr> else cfg)"

definition Connect :: "pool_env \<Rightarrow> source_opts \<Rightarrow> dbconn \<Rightarrow> dbconn \<times> goerr option" where
  "Connect env opts md =
     (if Conn md = None
      then (case ParseConfig env md of
              (md, Some e) \<Rightarrow> (md, Some e)
            | (md, None) \<Rightarrow>
                (let cfg = pool_config opts (dbSource md) (the (ConnConfig md));
                     md = md\<lparr>ConnConfig := Some cfg\<rparr>
                 in (case pgx_NewPool env cfg of
                       Some e \<Rightarrow> (md\<lparr>Conn := Some NilPool\<rparr>, Some e)
                     | None \<Rightarrow>
                         (let md = md\<lparr>Conn := Some OpenPool\<rparr> in (md, Ping env md)))))
      else (md, Ping env md))"

text \<open>\<open>SetDatabaseName\<close> clears the connection string so that the parsed configuration is used.\<close>

definition SetDatabaseName :: "pool_env \<Rightarrow> string \<Rightarrow> dbconn \<Rightarrow> dbconn" where
  "SetDatabaseName env name md =
     (case ParseConfig env md of
        (md, Some _) \<Rightarrow> md
      | (md, None) \<Rightarrow>
          md\<lparr>dbSource := (dbSource md)\<lparr>ConnStr := []\<rparr>,
             ConnConfig := map_option (\<lambda>cfg. cfg\<lparr>Database := name\<rparr>) (ConnConfig md)\<rparr>)"

definition GetDatabaseName :: "pool_env \<Rightarrow> dbconn \<Rightarrow> string" where
  "GetDatabaseName env md =
     (case ParseConfig env md of
        (_, Some _) \<Rightarrow> []
      | (md, None) \<Rightarrow> (case ConnConfig md of Some cfg \<Rightarrow> Database cfg | None \<Rightarrow> []))"

text \<open>\<open>GetDatabaseName\<close> of a source that has no connection yet (\<open>sources/types.go\<close>).\<close>

definition Source_GetDatabaseName :: "pool_env \<Rightarrow> source \<Rightarrow> string" where
  "Source_GetDatabaseName env s =
     (case pgx_ParseConfig env (ConnStr s) of Inl _ \<Rightarrow> [] | Inr cfg \<Rightarrow> Database cfg)"

lemma GetDatabaseName_new: "GetDatabaseName env (NewDbConn s) = Source_GetDatabaseName env s"
  by (simp add: GetDatabaseName_def Source_GetDatabaseName_def ParseConfig_def NewDbConn_def split: sum.splits)

definition conn_IsClientOnSameHost :: "host_env \<Rightarrow> bool" where
  "conn_IsClientOnSameHost env = (case IsClientOnSameHost env of (ok, err) \<Rightarrow> ok \<and> err = None)"

text \<open>The query answers with the row \<open>true\<close>, no row, or an error; both of the latter leave the result \<open>false\<close>.\<close>

definition FunctionExists :: "(string \<Rightarrow> goerr + bool) \<Rightarrow> string \<Rightarrow> bool" where
  "FunctionExists query functionName = (case query functionName of Inl _ \<Rightarrow> False | Inr row \<Rightarrow> row)"

definition GetClusterIdentifier :: "pool_env \<Rightarrow> dbconn \<Rightarrow> string" where
  "GetClusterIdentifier env md =
     (case ParseConfig env md of
        (_, Some _) \<Rightarrow> []
      | (md, None) \<Rightarrow>
          (case ConnConfig md of
             Some cfg \<Rightarrow> SystemIdentifier md @ '':'' @ Host cfg @ '':'' @ show_int (Port cfg)
           | None \<Rightarrow> []))"

section \<open>Prometheus connections\<close>

definition Prom_ParseConfig :: "http_env \<Rightarrow> promconn \<Rightarrow> promconn \<times> goerr option" where
  "Prom_ParseConfig env pc =
     (case promConfig pc of
        Some _ \<Rightarrow> (pc, None)
      | None \<Rightarrow>
          (case http_Parse env (ConnStr (promSource pc)) of
             Inl e \<Rightarrow> (pc, Some (ErrWrap ''parsing prometheus source URL'' e))
           | Inr (u, userinfo, tlsRootCert, tlsSkipVerify) \<Rightarrow>
               (let cfg = \<lparr>pcURL = u, pcUserinfo = userinfo, pcSkipVerify = (tlsSkipVerify = ''true''),
                           pcRootCAs = (tlsRootCert \<noteq> [])\<rparr>
                in if tlsRootCert \<noteq> []
                   then (case http_ReadFile env tlsRootCert of
                           Some e \<Rightarrow> (pc, Some (ErrWrap (''reading tlsrootcert '' @ tlsRootCert) e))
                         | None \<Rightarrow> (pc\<lparr>promConfig := Some cfg\<rparr>, None))
                   else (pc\<lparr>promConfig := Some cfg\<rparr>, None))))"

definition Prom_Scrape :: "http_env \<Rightarrow> promconn \<Rightarrow> goerr + int" where
  "Prom_Scrape env pc =
     (case (HTTPClient pc, promConfig pc) of
        (True, Some cfg) \<Rightarrow> http_Get env (pcURL cfg) (pcUserinfo cfg)
      | _ \<Rightarrow> Inl (ErrText ''prometheus source not connected: call Connect first''))"

definition Prom_Ping :: "http_env \<Rightarrow> promconn \<Rightarrow> goerr option" where
  "Prom_Ping env pc =
     (case (HTTPClient pc, promConfig pc) of
        (True, Some cfg) \<Rightarrow>
          (case http_Get env (pcURL cfg) (pcUserinfo cfg) of
             Inl e \<Rightarrow> Some e
           | Inr status \<Rightarrow>
               (if status \<ge> 300 then Some (ErrText ''prometheus ping: unexpected status'') else None))
      | _ \<Rightarrow> Some (ErrText ''prometheus source not connected: call Connect first''))"

definition Prom_Connect :: "http_env \<Rightarrow> promconn \<Rightarrow> promconn \<times> goerr option" where
  "Prom_Connect env pc =
     (if HTTPClient pc then (pc, Prom_Ping env pc)
      else case Prom_ParseConfig env pc of
             (pc, Some e) \<Rightarrow> (pc, Some e)
           | (pc, None) \<Rightarrow> (let pc = pc\<lparr>HTTPClient := True\<rparr> in (pc, Prom_Ping env pc)))"

fun conn_Connect :: "pool_env \<Rightarrow> http_env \<Rightarrow> source_opts \<Rightarrow> sconn \<Rightarrow> sconn \<times> goerr option" where
  "conn_Connect env henv opts (Db md) = (let (md, e) = Connect env opts md in (Db md, e))"
| "conn_Connect env henv opts (Prom pc) = (let (pc, e) = Prom_Connect henv pc in (Prom pc, e))"

section \<open>Versions\<close>

definition is_digit :: "char \<Rightarrow> bool" where
  "is_digit c \<longleftrightarrow> 48 \<le> (of_char c :: nat) \<and> (of_char c :: nat) \<le> 57"

text \<open>\<open>strconv.Atoi\<close> on a string of digits: empty gives \<open>0\<close>, out of range the largest \<open>int\<close>.\<close>

definition digits_val :: "string \<Rightarrow> nat" where
  "digits_val ds = foldl (\<lambda>n c. 10 * n + (of_char c - 48)) 0 ds"

definition Atoi :: "string \<Rightarrow> int" where
  "Atoi ds = min (int (digits_val ds)) (2 ^ 63 - 1)"

text \<open>The greedy \<open>.?\<close> of the pattern: it skips one (UTF-8 encoded) character unless a newline follows.\<close>

definition skip_any :: "string \<Rightarrow> string" where
  "skip_any s =
     (case s of
        [] \<Rightarrow> []
      | c # cs \<Rightarrow>
          (let b = (of_char c :: nat)
           in if b = 10 then s
              else if b < 192 then cs
              else if b < 224 then drop 1 cs
              else if b < 240 then drop 2 cs
              else drop 3 cs))"

text \<open>
  \<open>VersionToInt\<close>: the first match of \<open>(\d+).?(\d*).?(\d*)\<close>. All three groups are greedy and the
  pattern after the first group matches every string, so the match never backtracks.
\<close>

definition VersionToInt :: "string \<Rightarrow> int" where
  "VersionToInt version =
     (let s = dropWhile (\<lambda>c. \<not> is_digit c) version;
          d1 = takeWhile is_digit s; r1 = skip_any (dropWhile is_digit s);
          d2 = takeWhile is_digit r1; r2 = skip_any (dropWhile is_digit r1);
          d3 = takeWhile is_digit r2
      in if s = [] then 0
         else wrap64 (wrap64 (wrap64 (Atoi d1 * 10000) + wrap64 (Atoi d2 * 100)) + Atoi d3))"

section \<open>Runtime information\<close>

text \<open>The answers of the monitored server to the queries of \<open>FetchRuntimeInfo\<close>.\<close>

record server_info =
  q_control :: "goerr + (int \<times> string \<times> bool \<times> string \<times> string \<times> bool)"
  q_platform :: "goerr + string"
  q_size :: "goerr + int"
  q_extensions :: "goerr + (string \<times> string) list"
  q_version :: "goerr + string"

definition FetchControlInfo :: "server_info \<Rightarrow> dbconn \<Rightarrow> dbconn \<times> goerr option" where
  "FetchControlInfo q md =
     (case q_control q of
        Inl e \<Rightarrow> (md, Some e)
      | Inr (ver, verstr, rec, dbname, sysid, super) \<Rightarrow>
          (md\<lparr>Version := ver, VersionStr := verstr, IsInRecovery := rec, RealDbname := dbname,
              SystemIdentifier := sysid, IsSuperuser := super\<rparr>, None))"

fun fetch_ext_rows :: "(string \<times> string) list \<Rightarrow> dbconn \<Rightarrow> dbconn \<times> goerr option" where
  "fetch_ext_rows [] md = (md, None)"
| "fetch_ext_rows ((ext, ver) # rows) md =
     (if VersionToInt ver = 0
      then (md, Some (ErrText (''unexpected extension '' @ ext @ '' version input: '' @ ver)))
      else fetch_ext_rows rows (md\<lparr>Extensions := gset ext (VersionToInt ver) (Extensions md)\<rparr>))"

definition FetchExtensions :: "server_info \<Rightarrow> dbconn \<Rightarrow> dbconn \<times> goerr option" where
  "FetchExtensions q md =
     (case q_extensions q of Inl e \<Rightarrow> (md, Some e) | Inr rows \<Rightarrow> fetch_ext_rows rows md)"

definition FetchVersion :: "server_info \<Rightarrow> dbconn \<Rightarrow> dbconn \<times> goerr option" where
  "FetchVersion q md =
     (case q_version q of
        Inl e \<Rightarrow> (md, Some e)
      | Inr v \<Rightarrow> (md\<lparr>VersionStr := v, Version := VersionToInt v\<rparr>, None))"

definition DiscoverPlatform :: "server_info \<Rightarrow> dbconn \<Rightarrow> dbconn \<times> goerr option" where
  "DiscoverPlatform q md =
     (if ExecEnv md \<noteq> [] then (md, None)
      else case q_platform q of
             Inl e \<Rightarrow> (md, Some e)
           | Inr envname \<Rightarrow> (md\<lparr>ExecEnv := envname\<rparr>, None))"

definition FetchApproxSize :: "server_info \<Rightarrow> dbconn \<Rightarrow> dbconn \<times> goerr option" where
  "FetchApproxSize q md =
     (case q_size q of Inl e \<Rightarrow> (md, Some e) | Inr n \<Rightarrow> (md\<lparr>ApproxDbSize := n\<rparr>, None))"

text \<open>The four queries for PostgreSQL run one after another whether or not one fails.\<close>

definition FetchRuntimeInfo ::
  "server_info \<Rightarrow> int \<Rightarrow> bool \<Rightarrow> goerr option \<Rightarrow> dbconn \<Rightarrow> dbconn \<times> goerr option" where
  "FetchRuntimeInfo q now forceRefetch ctxErr md =
     (if \<not> forceRefetch \<and> now - lastCheckedNs md < 5 * Minute then (md, None)
      else if ctxErr \<noteq> None then (md, ctxErr)
      else
        (let (md, err) =
           (if Kind (dbSource md) \<in> {SourcePgBouncer, SourcePgPool} then FetchVersion q md
            else (let (md, e1) = FetchControlInfo q md;
                      (md, e2) = DiscoverPlatform q md;
                      (md, e3) = FetchApproxSize q md;
                      (md, e4) = FetchExtensions q md
                  in (md, errors_Join [e1, e2, e3, e4])))
         in if err = None then (md\<lparr>lastCheckedNs := now\<rparr>, None) else (md, err)))"

section \<open>Metric intervals\<close>

text \<open>Both ways to read an interval agree: the interval of a metric is its entry in the active map.\<close>

lemma GetMetricInterval_ActiveMetrics:
  "GetMetricInterval md name = seconds (zero_or (oget (ActiveMetrics md) name))"
  by (simp add: GetMetricInterval_def ActiveMetrics_def)

lemma SetMetricIntervals_simps [simp]:
  "Metrics (dbSource (SetMetricIntervals main standby md)) =
     (if main = None then Metrics (dbSource md) else main)"
  "MetricsStandby (dbSource (SetMetricIntervals main standby md)) =
     (if standby = None then MetricsStandby (dbSource md) else standby)"
  "Name (dbSource (SetMetricIntervals main standby md)) = Name (dbSource md)"
  "Conn (SetMetricIntervals main standby md) = Conn md"
  "IsInRecovery (SetMetricIntervals main standby md) = IsInRecovery md"
  by (auto simp: SetMetricIntervals_def Let_def)

lemma conn_SetMetricIntervals_Name [simp]:
  "Name (GetSource (conn_SetMetricIntervals main standby c)) = Name (GetSource c)"
  by (cases c) (auto simp: Prom_SetMetricIntervals_def)

section \<open>Pools\<close>

lemma Close_source [simp]: "dbSource (Close md) = dbSource md"
  by (simp add: Close_def split: option.splits)

lemma Close_IsInRecovery [simp]: "IsInRecovery (Close md) = IsInRecovery md"
  by (simp add: Close_def split: option.splits)

lemma GetSource_conn_Close [simp]: "GetSource (conn_Close c) = GetSource c"
  by (cases c) auto

lemma Close_Close [simp]: "Close (Close md) = Close md"
  by (simp add: Close_def split: option.splits)

text \<open>
  What pgxpool documents for a pool that has been closed: it rejects every later acquisition, so
  that neither a ping nor a statement succeeds.
\<close>

definition rejects_closed :: "pool_env \<Rightarrow> bool" where
  "rejects_closed env \<longleftrightarrow> pool_Ping env ClosedPool \<noteq> None \<and>
     pool_Exec env ClosedPool ''SHOW VERSION'' \<noteq> None"

text \<open>A connection whose pool was closed is never opened again by \<open>Connect\<close>.\<close>

lemma Connect_closed:
  assumes "rejects_closed env" "Conn md = Some ClosedPool"
  shows "\<exists>e. Connect env opts md = (md, Some e)"
  using assms by (auto simp: Connect_def Ping_def rejects_closed_def split: if_splits)

lemma Connect_source [simp]: "dbSource (fst (Connect env opts md)) = dbSource md"
  by (auto simp: Connect_def ParseConfig_def Let_def split: option.splits sum.splits)

lemma Prom_Connect_source [simp]: "promSource (fst (Prom_Connect env pc)) = promSource pc"
  by (auto simp: Prom_Connect_def Prom_ParseConfig_def Let_def split: option.splits sum.splits)

lemma conn_Connect_source [simp]: "GetSource (fst (conn_Connect env henv opts c)) = GetSource c"
  by (cases c) (simp_all add: split_beta)

lemma fetch_ext_rows_source [simp]: "dbSource (fst (fetch_ext_rows rows md)) = dbSource md"
  by (induction rows md rule: fetch_ext_rows.induct) auto

lemma fetch_source [simp]:
  "dbSource (fst (FetchControlInfo q md)) = dbSource md"
  "dbSource (fst (FetchExtensions q md)) = dbSource md"
  "dbSource (fst (FetchVersion q md)) = dbSource md"
  "dbSource (fst (DiscoverPlatform q md)) = dbSource md"
  "dbSource (fst (FetchApproxSize q md)) = dbSource md"
  by (simp_all add: FetchControlInfo_def FetchExtensions_def FetchVersion_def DiscoverPlatform_def
        FetchApproxSize_def split: sum.split prod.split)

lemma FetchRuntimeInfo_source [simp]:
  "dbSource (fst (FetchRuntimeInfo q now force ctxErr md)) = dbSource md"
  by (simp add: FetchRuntimeInfo_def Let_def split_beta)

section \<open>Versions\<close>

lemma is_digit_char_of: "n < 10 \<Longrightarrow> is_digit (char_of (48 + n :: nat))"
  by (simp add: is_digit_def)

lemma show_nat_digits: "list_all is_digit (show_nat n) \<and> show_nat n \<noteq> []"
proof (induction n rule: show_nat.induct)
  case (1 n)
  then show ?case
    by (subst (1 2) show_nat.simps) (auto simp: is_digit_char_of list_all_iff)
qed

lemma digits_val_snoc [simp]: "digits_val (ds @ [c]) = 10 * digits_val ds + (of_char c - 48)"
  by (simp add: digits_val_def)

lemma digits_val_show_nat [simp]: "digits_val (show_nat n) = n"
proof (induction n rule: show_nat.induct)
  case (1 n)
  have of_char: "of_char (char_of (48 + k :: nat)) = 48 + k" if "k < 10" for k :: nat
    using that by simp
  show ?case
  proof (cases "n < 10")
    case True
    then show ?thesis
      using of_char [of n] by (subst show_nat.simps) (simp add: digits_val_def)
  next
    case False
    then show ?thesis
      using 1 of_char [of "n mod 10"] by (subst show_nat.simps) simp
  qed
qed

lemma takeWhile_show_nat [simp]:
  "\<not> is_digit c \<Longrightarrow> takeWhile is_digit (show_nat n @ c # t) = show_nat n"
  "\<not> is_digit c \<Longrightarrow> dropWhile is_digit (show_nat n @ c # t) = c # t"
  "takeWhile is_digit (show_nat n) = show_nat n"
  "dropWhile is_digit (show_nat n) = []"
  using show_nat_digits [of n]
  by (auto simp: list_all_iff takeWhile_append2 dropWhile_append2 takeWhile_eq_all_conv dropWhile_eq_Nil_conv)

lemma dropWhile_to_show_nat:
  assumes "list_all (\<lambda>c. \<not> is_digit c) pre"
  shows "dropWhile (\<lambda>c. \<not> is_digit c) (pre @ show_nat n @ t) = show_nat n @ t"
proof -
  obtain c cs where "show_nat n = c # cs" "is_digit c"
    using show_nat_digits [of n] by (cases "show_nat n") auto
  with assms show ?thesis by (simp add: list_all_iff dropWhile_append2)
qed

text \<open>
  \<open>VersionToInt\<close> reads a dotted version with any text before it, as in \<open>PgBouncer 1.12.0\<close>, as
  two decimal digits per component; a version without a second or third component counts as if
  it had zeros there.
\<close>

theorem VersionToInt_dotted:
  assumes "list_all (\<lambda>c. \<not> is_digit c) pre" "a < 10 ^ 9" "b < 10 ^ 9" "c < 10 ^ 9"
  shows "VersionToInt (pre @ show_nat a @ ''.'' @ show_nat b @ ''.'' @ show_nat c) =
           int (a * 10000 + b * 100 + c) \<and>
         VersionToInt (pre @ show_nat a @ ''.'' @ show_nat b) = int (a * 10000 + b * 100) \<and>
         VersionToInt (pre @ show_nat a) = int (a * 10000)"
proof -
  have dot: "\<not> is_digit (CHR ''.'')" by (simp add: is_digit_def)
  have at: "Atoi (show_nat n) = int n" if "n < 10 ^ 9" for n
    using that by (simp add: Atoi_def)
  have wr: "wrap64 (int n) = int n" if "n < 10 ^ 15" for n
    using that by (simp add: fits64_def)
  have ne: "show_nat a @ t \<noteq> []" for t
    using show_nat_digits [of a] by simp
  have skip: "skip_any (CHR ''.'' # t) = t" "skip_any [] = []" for t
    by (simp_all add: skip_any_def)
  have w0: "wrap64 0 = 0" using wr [of 0] by simp
  have at0: "Atoi [] = 0" by (simp add: Atoi_def digits_val_def)
  have pw: "wrap64 (int a * 10000) = int (a * 10000)" "wrap64 (int b * 100) = int (b * 100)"
    "wrap64 (int (a * 10000) + int (b * 100)) = int (a * 10000 + b * 100)"
    "wrap64 (int (a * 10000 + b * 100) + int c) = int (a * 10000 + b * 100 + c)"
    using assms wr [of "a * 10000"] wr [of "b * 100"] wr [of "a * 10000 + b * 100"]
      wr [of "a * 10000 + b * 100 + c"]
    by simp_all
  note drop = dropWhile_to_show_nat [OF assms(1), of a]
  have "VersionToInt (pre @ show_nat a @ ''.'' @ show_nat b @ ''.'' @ show_nat c) =
      int (a * 10000 + b * 100 + c)"
    using assms by (simp add: VersionToInt_def drop ne dot skip at pw del: of_nat_add of_nat_mult)
  moreover have "VersionToInt (pre @ show_nat a @ ''.'' @ show_nat b) = int (a * 10000 + b * 100)"
    using assms
    by (simp add: VersionToInt_def drop ne dot skip at at0 pw wr del: of_nat_add of_nat_mult)
  moreover have "VersionToInt (pre @ show_nat a) = int (a * 10000)"
    using assms drop [of "[]"] ne [of "[]"]
    by (simp add: VersionToInt_def dot skip at at0 w0 pw wr del: of_nat_add of_nat_mult)
  ultimately show ?thesis by blast
qed

theorem VersionToInt_dotted_witness:
  "list_all (\<lambda>c. \<not> is_digit c) ''PgBouncer '' \<and>
   VersionToInt (''PgBouncer '' @ show_nat 1 @ ''.'' @ show_nat 12 @ ''.'' @ show_nat 3) = 11203 \<and>
   ''PgBouncer '' @ show_nat 1 @ ''.'' @ show_nat 12 @ ''.'' @ show_nat 3 = ''PgBouncer 1.12.3''"
proof -
  have pre: "list_all (\<lambda>c. \<not> is_digit c) ''PgBouncer ''"
    by (simp add: is_digit_def)
  have "''PgBouncer '' @ show_nat 1 @ ''.'' @ show_nat 12 @ ''.'' @ show_nat 3 = ''PgBouncer 1.12.3''"
    by code_simp
  then show ?thesis
    using pre VersionToInt_dotted [OF pre, of 1 12 3] by simp
qed

end
