(* ===== verification/Source_Resolver.thy ===== *)
theory Source_Resolver
  imports Source_Conn
begin

text \<open>
  Discovery of the databases behind a source (\<open>internal/sources/resolver.go\<close>): the Patroni and
  PostgreSQL resolvers with their last-known-good caches.

  The outside world is the record \<open>world\<close>: what \<open>url.Parse\<close> makes of a URI, what etcd answers for
  a host configuration, how a JSON text reads, and what the discovery query returns for a
  connection string and the include and exclude patterns. \<open>ResolveDatabases\<close> resolves the
  sources concurrently; the critical sections of different sources touch different cache
  entries, and the model runs them one after another in the order of the results.
\<close>

section \<open>Data\<close>

record member =
  Scope :: string
  memberName :: string
  ConnURL :: string
  Role :: string

record hostconfig =
  DcsType :: string
  DcsEndpoints :: "string list"
  Path :: string
  Username :: string
  hcPassword :: string
  CAFile :: string
  CertFile :: string
  KeyFile :: string

record url =
  urlScheme :: string
  urlPath :: string
  urlUsername :: string
  urlPassword :: string
  urlQuery :: "string \<Rightarrow> string"

text \<open>\<open>postgresDiscoveryKey\<close>: name, connection string, include and exclude pattern.\<close>

type_synonym discovery_key = "string \<times> string \<times> string \<times> string"

record resolver =
  lastFoundClusterMembers :: "(string, member list) gomap"
  lastFoundDatabases :: "(discovery_key, dbconn list) gomap"

record world =
  url_Parse :: "string \<Rightarrow> goerr + url"
  etcd_Get :: "hostconfig \<Rightarrow> goerr + (string \<times> string) list"
  tls_config :: "hostconfig \<Rightarrow> goerr option"
  json_Unmarshal :: "string \<Rightarrow> goerr + (string, goval) gomap"
  json_float :: "gofloat \<Rightarrow> string"
  pg_databases :: "string \<Rightarrow> string \<Rightarrow> string \<Rightarrow> goerr + string list"
  wpool :: pool_env

definition NewResolver :: resolver where
  "NewResolver = \<lparr>lastFoundClusterMembers = [], lastFoundDatabases = []\<rparr>"

definition IsPrimary :: "member \<Rightarrow> bool" where
  "IsPrimary m \<longleftrightarrow> Role m = ''primary'' \<or> Role m = ''master''"

definition postgresDiscoveryKeyOf :: "source \<Rightarrow> discovery_key" where
  "postgresDiscoveryKeyOf s = (Name s, ConnStr s, IncludePattern s, ExcludePattern s)"

section \<open>Host configuration\<close>

definition UsesTLS :: "hostconfig \<Rightarrow> bool" where
  "UsesTLS hc \<longleftrightarrow> CAFile hc \<noteq> [] \<or> CertFile hc \<noteq> [] \<or> KeyFile hc \<noteq> []"

definition IsScopeSpecified :: "hostconfig \<Rightarrow> bool" where
  "IsScopeSpecified hc \<longleftrightarrow> count_list (Path hc) (CHR ''/'') \<ge> 2"

text \<open>The part before and after the last \<open>@\<close>, as \<open>strings.LastIndex\<close> splits the host part.\<close>

definition cut_userinfo :: "string \<Rightarrow> string \<times> string" where
  "cut_userinfo h =
     (if CHR ''@'' \<in> set h
      then (rev (tl (dropWhile (\<lambda>c. c \<noteq> CHR ''@'') (rev h))), rev (takeWhile (\<lambda>c. c \<noteq> CHR ''@'') (rev h)))
      else ([], h))"

text \<open>The second half of \<open>NewHostConfig\<close>: from the parsed URL and the list of hosts.\<close>

definition host_config_of :: "url \<Rightarrow> string list \<Rightarrow> goerr + hostconfig" where
  "host_config_of u hosts =
     (let hc = \<lparr>DcsType = [], DcsEndpoints = [], Path = urlPath u,
                Username = urlUsername u, hcPassword = urlPassword u,
                CAFile = urlQuery u ''ca_file'', CertFile = urlQuery u ''cert_file'',
                KeyFile = urlQuery u ''key_file''\<rparr>
      in if (CertFile hc = []) \<noteq> (KeyFile hc = [])
         then Inl (ErrText ''cert_file and key_file must be set together'')
         else if urlScheme u = ''etcd''
         then Inr (hc\<lparr>DcsType := ''etcd'',
                DcsEndpoints := map (\<lambda>h. (if UsesTLS hc then ''https://'' else ''http://'') @ h) hosts\<rparr>)
         else if urlScheme u = ''zookeeper''
         then Inr (hc\<lparr>DcsType := ''zookeeper'', DcsEndpoints := hosts\<rparr>)
         else if urlScheme u = ''consul''
         then Inr (hc\<lparr>DcsType := ''consul'', DcsEndpoints := hosts\<rparr>)
         else Inl (ErrText (''unsupported DCS type: '' @ urlScheme u)))"

text \<open>
  \<open>NewHostConfig\<close> takes the hosts out of the URI by hand, since a list of hosts is no valid URL,
  and parses the rest with the first host only.
\<close>

definition NewHostConfig :: "world \<Rightarrow> string \<Rightarrow> goerr + hostconfig" where
  "NewHostConfig w URI =
     (let (scheme, remainder, ok) = Cut URI ''://'';
          inHost = (\<lambda>c. c \<noteq> CHR ''/'' \<and> c \<noteq> CHR ''?'');
          pathAndQuery = dropWhile inHost remainder;
          (userInfo, hostPart) = cut_userinfo (takeWhile inHost remainder);
          hosts = Split hostPart '','';
          cleanURI = scheme @ ''://'' @ (if userInfo \<noteq> [] then userInfo @ ''@'' else []) @
                     hd hosts @ pathAndQuery
      in if \<not> ok then Inl (ErrText ''invalid URI: missing scheme'')
         else case url_Parse w cleanURI of
                Inl e \<Rightarrow> Inl e
              | Inr u \<Rightarrow> host_config_of u hosts)"

section \<open>Cluster members\<close>

definition getConsulClusterMembers :: "source \<Rightarrow> goerr + member list" where
  "getConsulClusterMembers s = Inl (Sentinel ErrUnsupported)"

definition getZookeeperClusterMembers :: "source \<Rightarrow> hostconfig \<Rightarrow> goerr + member list" where
  "getZookeeperClusterMembers s hc = Inl (Sentinel ErrUnsupported)"

definition jsonTextToStringMap :: "world \<Rightarrow> string \<Rightarrow> goerr + (string, string) gomap" where
  "jsonTextToStringMap w jsonText =
     (if jsonText = [] then Inr []
      else case json_Unmarshal w jsonText of
             Inl e \<Rightarrow> Inl e
           | Inr iMap \<Rightarrow> Inr (map (\<lambda>(k, v). (k, sprint_v (json_float w) v)) iMap))"

definition str_or_empty :: "string option \<Rightarrow> string" where
  "str_or_empty v = (case v of None \<Rightarrow> [] | Some s \<Rightarrow> s)"

text \<open>The loop over the keys of etcd: keys that do not name a member and values that do not parse are skipped.\<close>

fun etcd_members :: "world \<Rightarrow> (string \<times> string) list \<Rightarrow> member list" where
  "etcd_members w [] = []"
| "etcd_members w ((key, value) # kvs) =
     (let parts = Split (TrimPrefix key ''/'') ''/''
      in if length parts < 4 \<or> parts ! 2 \<noteq> ''members'' then etcd_members w kvs
         else case jsonTextToStringMap w value of
                Inl _ \<Rightarrow> etcd_members w kvs
              | Inr nodeData \<Rightarrow>
                  \<lparr>Scope = parts ! 1, memberName = parts ! 3,
                   ConnURL = str_or_empty (gget nodeData ''conn_url''),
                   Role = str_or_empty (gget nodeData ''role'')\<rparr> # etcd_members w kvs)"

definition getEtcdClusterMembers ::
  "world \<Rightarrow> resolver \<Rightarrow> source \<Rightarrow> hostconfig \<Rightarrow> resolver \<times> (goerr + member list)" where
  "getEtcdClusterMembers w r s hc =
     (if DcsEndpoints hc = []
      then (r, Inl (ErrText ''missing ETCD connect info''))
      else case tls_config w hc of
             Some e \<Rightarrow> (r, Inl e)
           | None \<Rightarrow>
               (case etcd_Get w hc of
                  Inl e \<Rightarrow> (r, Inl e)
                | Inr kvs \<Rightarrow>
                    (let ret = etcd_members w kvs
                     in (r\<lparr>lastFoundClusterMembers := gset (Name s) ret (lastFoundClusterMembers r)\<rparr>,
                         Inr ret))))"

section \<open>Databases\<close>

text \<open>\<open>resolveDatabasesFromPostgres\<close>: one connection per database, named after source and database.\<close>

definition resolved_conn :: "world \<Rightarrow> source \<Rightarrow> string \<Rightarrow> dbconn" where
  "resolved_conn w s dbname =
     SetDatabaseName (wpool w) dbname (NewDbConn (s\<lparr>Name := Name s @ ''_'' @ dbname\<rparr>))"

definition resolveDatabasesFromPostgres :: "world \<Rightarrow> source \<Rightarrow> goerr + dbconn list" where
  "resolveDatabasesFromPostgres w s =
     (case pg_databases w (ConnStr s) (IncludePattern s) (ExcludePattern s) of
        Inl e \<Rightarrow> Inl e
      | Inr dbs \<Rightarrow> Inr (map (resolved_conn w s) dbs))"

definition ResolveDatabasesFromPostgres ::
  "world \<Rightarrow> resolver \<Rightarrow> source \<Rightarrow> resolver \<times> (goerr + dbconn list)" where
  "ResolveDatabasesFromPostgres w r s =
     (let key = postgresDiscoveryKeyOf s
      in case resolveDatabasesFromPostgres w s of
           Inr dbs \<Rightarrow> (r\<lparr>lastFoundDatabases := gset key dbs (lastFoundDatabases r)\<rparr>, Inr dbs)
         | Inl e \<Rightarrow>
             (case gget (lastFoundDatabases r) key of
                Some cached \<Rightarrow> if cached \<noteq> [] then (r, Inr cached) else (r, Inl e)
              | None \<Rightarrow> (r, Inl e)))"

text \<open>The source a Patroni member is resolved as.\<close>

definition member_source :: "hostconfig \<Rightarrow> source \<Rightarrow> member \<Rightarrow> source" where
  "member_source hc source m =
     source\<lparr>ConnStr := ConnURL m,
            Name := Name source @ (if IsScopeSpecified hc then [] else ''_'' @ Scope m) @ ''_'' @ memberName m\<rparr>"

fun resolve_members ::
  "world \<Rightarrow> hostconfig \<Rightarrow> source \<Rightarrow> member list \<Rightarrow> resolver \<Rightarrow> dbconn list \<Rightarrow> resolver \<times> dbconn list" where
  "resolve_members w hc source [] r mds = (r, mds)"
| "resolve_members w hc source (m # ms) r mds =
     (if OnlyIfMaster source \<and> \<not> IsPrimary m then resolve_members w hc source ms r mds
      else case ResolveDatabasesFromPostgres w r (member_source hc source m) of
             (r, Inr dbs) \<Rightarrow> resolve_members w hc source ms r (mds @ dbs)
           | (r, Inl _) \<Rightarrow> resolve_members w hc source ms r mds)"

definition ResolveDatabasesFromPatroni ::
  "world \<Rightarrow> resolver \<Rightarrow> source \<Rightarrow> resolver \<times> dbconn list \<times> goerr option" where
  "ResolveDatabasesFromPatroni w r source =
     (case NewHostConfig w (ConnStr source) of
        Inl e \<Rightarrow> (r, [], Some e)
      | Inr hc \<Rightarrow>
         if DcsType hc \<notin> {''etcd'', ''zookeeper'', ''consul''} then (r, [], Some (ErrText ''unknown DCS''))
         else
          (let (r, res) =
             (if DcsType hc = ''etcd'' then getEtcdClusterMembers w r source hc
              else if DcsType hc = ''zookeeper'' then (r, getZookeeperClusterMembers source hc)
              else (r, getConsulClusterMembers source))
           in case res of
                Inl err \<Rightarrow>
                  (if errors_Is err ErrUnsupported then (r, [], Some err)
                   else case gget (lastFoundClusterMembers r) (Name source) of
                          None \<Rightarrow> (r, [], Some err)
                        | Some ms \<Rightarrow>
                            (let (r, mds) = resolve_members w hc source ms r [] in (r, mds, None)))
              | Inr ms \<Rightarrow>
                  (let r = r\<lparr>lastFoundClusterMembers := gset (Name source) ms (lastFoundClusterMembers r)\<rparr>;
                       (r, mds) = resolve_members w hc source ms r []
                   in (r, mds, None))))"

definition ResolveDatabase :: "world \<Rightarrow> resolver \<Rightarrow> source \<Rightarrow> resolver \<times> sconn list \<times> goerr option" where
  "ResolveDatabase w r s =
     (if Kind s = SourcePatroniDiscovery
      then (let (r, mds, e) = ResolveDatabasesFromPatroni w r s in (r, map Db mds, e))
      else if Kind s = SourcePostgresDiscovery
      then (case ResolveDatabasesFromPostgres w r s of
              (r, Inl e) \<Rightarrow> (r, [], Some e)
            | (r, Inr mds) \<Rightarrow> (r, map Db mds, None))
      else if Kind s = SourcePrometheus then (r, [Prom (NewPromConn s)], None)
      else (r, [Db (NewDbConn s)], None))"

text \<open>\<open>ResolveDatabases\<close> returns what could be resolved, the names handed to \<open>onError\<close>, and the joined error.\<close>

fun resolve_all ::
  "world \<Rightarrow> source list \<Rightarrow> resolver \<Rightarrow> sconn list \<Rightarrow> string list \<Rightarrow> goerr option
     \<Rightarrow> resolver \<times> sconn list \<times> string list \<times> goerr option" where
  "resolve_all w [] r resolved failed err = (r, resolved, failed, err)"
| "resolve_all w (s # srcs) r resolved failed err =
     (case ResolveDatabase w r s of
        (r, dbs, None) \<Rightarrow> resolve_all w srcs r (resolved @ dbs) failed err
      | (r, dbs, Some e) \<Rightarrow>
          resolve_all w srcs r (resolved @ dbs) (failed @ [Name s]) (errors_Join [err, Some e]))"

definition ResolveDatabases ::
  "world \<Rightarrow> resolver \<Rightarrow> source list \<Rightarrow> resolver \<times> sconn list \<times> string list \<times> goerr option" where
  "ResolveDatabases w r srcs = resolve_all w srcs r [] [] None"

section \<open>Resolved connections\<close>

lemma resolved_conn_source:
  assumes "pgx_ParseConfig (wpool w) (ConnStr s) = Inr cfg"
  shows "dbSource (resolved_conn w s d) = s\<lparr>Name := Name s @ ''_'' @ d, ConnStr := []\<rparr>"
    and "ConnConfig (resolved_conn w s d) = Some (cfg\<lparr>Database := d\<rparr>)"
    and "Conn (resolved_conn w s d) = None"
  using assms by (simp_all add: resolved_conn_def SetDatabaseName_def ParseConfig_def NewDbConn_def)

lemma resolved_conn_Name [simp]: "Name (dbSource (resolved_conn w s d)) = Name s @ ''_'' @ d"
  by (cases "pgx_ParseConfig (wpool w) (ConnStr s)")
     (simp_all add: resolved_conn_def SetDatabaseName_def ParseConfig_def NewDbConn_def)

text \<open>
  A resolved connection no longer carries its connection string, so two resolutions of the same
  database from different servers have equal sources.
\<close>

lemma resolved_conn_Equal:
  assumes "pgx_ParseConfig (wpool w) c1 = Inr cfg1" "pgx_ParseConfig (wpool w) c2 = Inr cfg2"
    and "wf_source s"
  shows "Source_Equal (dbSource (resolved_conn w (s\<lparr>ConnStr := c1\<rparr>) d))
                      (dbSource (resolved_conn w (s\<lparr>ConnStr := c2\<rparr>) d))"
proof -
  have "dbSource (resolved_conn w (s\<lparr>ConnStr := c1\<rparr>) d) = dbSource (resolved_conn w (s\<lparr>ConnStr := c2\<rparr>) d)"
    using resolved_conn_source(1) [of w "s\<lparr>ConnStr := c1\<rparr>"] resolved_conn_source(1) [of w "s\<lparr>ConnStr := c2\<rparr>"]
      assms by simp
  moreover have "wf_source (dbSource (resolved_conn w (s\<lparr>ConnStr := c2\<rparr>) d))"
    using resolved_conn_source(1) [of w "s\<lparr>ConnStr := c2\<rparr>"] assms by (simp add: wf_source_def)
  ultimately show ?thesis by (simp add: Source_Equal_iff)
qed

section \<open>The last-known-good cache\<close>

text \<open>A sequence of discoveries, each in the world it meets.\<close>

fun discover_calls :: "resolver \<Rightarrow> (world \<times> source) list \<Rightarrow> (goerr + dbconn list) list" where
  "discover_calls r [] = []"
| "discover_calls r ((w, s) # calls) =
     (let (r, res) = ResolveDatabasesFromPostgres w r s in res # discover_calls r calls)"

lemma length_discover_calls [simp]: "length (discover_calls r calls) = length calls"
  by (induction r calls rule: discover_calls.induct) (auto split: prod.splits)

lemma ResolveDatabasesFromPostgres_cache:
  "gget (lastFoundDatabases (fst (ResolveDatabasesFromPostgres w r s))) k =
     (case resolveDatabasesFromPostgres w s of
        Inr dbs \<Rightarrow> if k = postgresDiscoveryKeyOf s then Some dbs else gget (lastFoundDatabases r) k
      | Inl _ \<Rightarrow> gget (lastFoundDatabases r) k)"
  by (auto simp: ResolveDatabasesFromPostgres_def Let_def map_of_gset split: sum.splits option.splits)

lemma ResolveDatabasesFromPostgres_result:
  "snd (ResolveDatabasesFromPostgres w r s) = Inr dbs \<longleftrightarrow>
     resolveDatabasesFromPostgres w s = Inr dbs \<or>
     (\<exists>e. resolveDatabasesFromPostgres w s = Inl e) \<and> dbs \<noteq> [] \<and>
       gget (lastFoundDatabases r) (postgresDiscoveryKeyOf s) = Some dbs"
  by (auto simp: ResolveDatabasesFromPostgres_def Let_def split: sum.splits option.splits)

lemma outage_keeps:
  assumes "gget (lastFoundDatabases r) k = Some dbs" "dbs \<noteq> []"
    and "\<forall>(w, s)\<in>set calls. postgresDiscoveryKeyOf s = k \<longrightarrow> (\<exists>e. resolveDatabasesFromPostgres w s = Inl e)"
    and "i < length calls" "postgresDiscoveryKeyOf (snd (calls ! i)) = k"
  shows "discover_calls r calls ! i = Inr dbs"
  using assms
proof (induction r calls arbitrary: i rule: discover_calls.induct)
  case (2 r w s calls)
  obtain r' res where call: "ResolveDatabasesFromPostgres w r s = (r', res)" by fastforce
  have r': "gget (lastFoundDatabases r') k = Some dbs"
    using ResolveDatabasesFromPostgres_cache [of w r s k] 2 call by (auto split: sum.splits)
  show ?case
  proof (cases i)
    case 0
    then have "res = Inr dbs"
      using ResolveDatabasesFromPostgres_result [of w r s dbs] 2 call by auto
    then show ?thesis using 0 call by simp
  next
    case (Suc j)
    then have "discover_calls r' calls ! j = Inr dbs"
      using 2 call r' by auto
    then show ?thesis using Suc call by simp
  qed
qed simp

text \<open>
  C20: once the databases of a source have been discovered, a discovery that fails any number of
  times afterwards keeps returning them without an error, whatever happens to other sources in
  between. An outage of discovery does not tear down the monitoring of known databases.
\<close>

theorem discovery_outage_keeps_databases:
  assumes "resolveDatabasesFromPostgres w s = Inr dbs" "dbs \<noteq> []"
    and "\<forall>(w', s')\<in>set calls. postgresDiscoveryKeyOf s' = postgresDiscoveryKeyOf s \<longrightarrow>
           (\<exists>e. resolveDatabasesFromPostgres w' s' = Inl e)"
    and "i < length calls" "postgresDiscoveryKeyOf (snd (calls ! i)) = postgresDiscoveryKeyOf s"
  shows "discover_calls r ((w, s) # calls) ! Suc i = Inr dbs"
proof -
  obtain r' res where call: "ResolveDatabasesFromPostgres w r s = (r', res)" by fastforce
  have "gget (lastFoundDatabases r') (postgresDiscoveryKeyOf s) = Some dbs"
    using ResolveDatabasesFromPostgres_cache [of w r s "postgresDiscoveryKeyOf s"] assms(1) call by simp
  then have "discover_calls r' calls ! i = Inr dbs"
    using assms by (intro outage_keeps) auto
  then show ?thesis using call by simp
qed

lemma cache_origin:
  assumes "\<forall>k dbs. gget (lastFoundDatabases r) k = Some dbs \<longrightarrow> Q k dbs"
    and "i < length calls" "discover_calls r calls ! i = Inr dbs"
  shows "Q (postgresDiscoveryKeyOf (snd (calls ! i))) dbs \<or>
    (\<exists>j\<le>i. postgresDiscoveryKeyOf (snd (calls ! j)) = postgresDiscoveryKeyOf (snd (calls ! i)) \<and>
       resolveDatabasesFromPostgres (fst (calls ! j)) (snd (calls ! j)) = Inr dbs)"
  using assms
proof (induction r calls arbitrary: i Q rule: discover_calls.induct)
  case (2 r w s calls)
  obtain r' res where call: "ResolveDatabasesFromPostgres w r s = (r', res)" by fastforce
  show ?case
  proof (cases i)
    case 0
    then have "snd (ResolveDatabasesFromPostgres w r s) = Inr dbs"
      using "2.prems"(3) call by simp
    then consider "resolveDatabasesFromPostgres w s = Inr dbs"
      | "gget (lastFoundDatabases r) (postgresDiscoveryKeyOf s) = Some dbs"
      using ResolveDatabasesFromPostgres_result [of w r s dbs] by blast
    then show ?thesis
    proof cases
      case 1
      then show ?thesis using 0 by auto
    next
      case cached: 2
      show ?thesis using 0 "2.prems"(1) [rule_format, OF cached] by simp
    qed
  next
    case (Suc j)
    let ?Q = "\<lambda>k d. Q k d \<or> k = postgresDiscoveryKeyOf s \<and> resolveDatabasesFromPostgres w s = Inr d"
    have r': "\<forall>k d. gget (lastFoundDatabases r') k = Some d \<longrightarrow> ?Q k d"
      using 2(2) call ResolveDatabasesFromPostgres_cache [of w r s]
      by (auto split: sum.splits if_splits)
    have "discover_calls r' calls ! j = Inr dbs" "j < length calls"
      using Suc 2 call by auto
    from "2.IH" [OF call [symmetric] refl r' this(2,1)] show ?thesis
    proof (elim disjE)
      assume "\<exists>ja\<le>j. postgresDiscoveryKeyOf (snd (calls ! ja)) = postgresDiscoveryKeyOf (snd (calls ! j)) \<and>
         resolveDatabasesFromPostgres (fst (calls ! ja)) (snd (calls ! ja)) = Inr dbs"
      then obtain ja where "ja \<le> j" "postgresDiscoveryKeyOf (snd (calls ! ja)) = postgresDiscoveryKeyOf (snd (calls ! j))"
        "resolveDatabasesFromPostgres (fst (calls ! ja)) (snd (calls ! ja)) = Inr dbs" by blast
      then show ?thesis using Suc by (intro disjI2 exI [of _ "Suc ja"]) auto
    next
      assume "postgresDiscoveryKeyOf (snd (calls ! j)) = postgresDiscoveryKeyOf s \<and>
        resolveDatabasesFromPostgres w s = Inr dbs"
      then show ?thesis using Suc by (intro disjI2 exI [of _ 0]) auto
    qed (use Suc in simp)
  qed
qed simp

text \<open>
  the cache never crosses identities. Whatever list of databases a discovery returns, it is
  the result of a successful discovery, that one or an earlier one, of a source with the same
  name, connection string and patterns.
\<close>

theorem discovery_serves_own_identity:
  assumes "i < length calls" "discover_calls NewResolver calls ! i = Inr dbs"
  shows "\<exists>j\<le>i. postgresDiscoveryKeyOf (snd (calls ! j)) = postgresDiscoveryKeyOf (snd (calls ! i)) \<and>
    resolveDatabasesFromPostgres (fst (calls ! j)) (snd (calls ! j)) = Inr dbs"
  using cache_origin [of NewResolver "\<lambda>_ _. False" i calls dbs] assms by (simp add: NewResolver_def)

section \<open>Patroni\<close>

lemma resolve_members_primaries:
  "OnlyIfMaster source \<Longrightarrow>
   resolve_members w hc source ms r mds = resolve_members w hc source (filter IsPrimary ms) r mds"
  by (induction w hc source ms r mds rule: resolve_members.induct)
     (auto split: prod.splits sum.splits)

lemma resolve_members_unsupported:
  assumes "NewHostConfig w (ConnStr source) = Inr hc" "DcsType hc \<in> {''zookeeper'', ''consul''}"
  shows "ResolveDatabasesFromPatroni w r source = (r, [], Some (Sentinel ErrUnsupported))"
  using assms
  by (auto simp: ResolveDatabasesFromPatroni_def getZookeeperClusterMembers_def getConsulClusterMembers_def)

text \<open>
  a host configuration that is accepted names a supported store and at least one endpoint,
  has a client certificate exactly when it has a key, and for etcd uses \<open>https\<close> endpoints exactly
  when a TLS parameter is set.
\<close>

theorem NewHostConfig_accepted:
  assumes "NewHostConfig w URI = Inr hc"
  shows "DcsType hc \<in> {''etcd'', ''zookeeper'', ''consul''} \<and> DcsEndpoints hc \<noteq> [] \<and>
    (CertFile hc = [] \<longleftrightarrow> KeyFile hc = []) \<and>
    (DcsType hc = ''etcd'' \<longrightarrow>
       list_all (\<lambda>ep. HasPrefix ep (if UsesTLS hc then ''https://'' else ''http://'')) (DcsEndpoints hc))"
proof -
  obtain u host where "host_config_of u (Split host '','') = Inr hc"
    using assms by (auto simp: NewHostConfig_def Let_def split_beta split: sum.splits if_splits)
  then show ?thesis
    by (simp add: host_config_of_def Let_def list_all_iff HasPrefix_def split: if_splits)
       (auto simp: UsesTLS_def)
qed

section \<open>Witnesses\<close>

definition sample_pool_env :: pool_env where
  "sample_pool_env = \<lparr>
     pgx_ParseConfig = (\<lambda>c. if HasPrefix c ''postgresql://''
       then Inr \<lparr>Host = drop 13 c, Port = 5432, User = [], Password = [], Database = [],
                 ConnectTimeout = 0, MaxConns = 4, SimpleProtocol = False, ShouldPing = True\<rparr>
       else Inl (ErrText ''cannot parse'')),
     pgx_NewPool = (\<lambda>_. None),
     pool_Ping = (\<lambda>p. if p = OpenPool then None else Some (ErrText ''closed pool'')),
     pool_Exec = (\<lambda>p _. if p = OpenPool then None else Some (ErrText ''closed pool''))\<rparr>"

definition sample_world :: "(string \<Rightarrow> goerr + string list) \<Rightarrow> world" where
  "sample_world dbs = \<lparr>
     url_Parse = (\<lambda>u. Inr \<lparr>urlScheme = ''etcd'', urlPath = ''/service/batman'', urlUsername = [],
       urlPassword = [], urlQuery = (\<lambda>k. if k = ''ca_file'' then ''ca.pem'' else [])\<rparr>),
     etcd_Get = (\<lambda>_. Inr []), tls_config = (\<lambda>_. None), json_Unmarshal = (\<lambda>_. Inr []),
     json_float = (\<lambda>_. []), pg_databases = (\<lambda>c _ _. dbs c), wpool = sample_pool_env\<rparr>"

abbreviation "up_world \<equiv> sample_world (\<lambda>_. Inr [''app'', ''shop''])"
abbreviation "down_world \<equiv> sample_world (\<lambda>_. Inl (ErrText ''timeout''))"
abbreviation "disco \<equiv> sample_source\<lparr>Kind := SourcePostgresDiscovery\<rparr>"
abbreviation "disco_dbs \<equiv> map (resolved_conn up_world disco) [''app'', ''shop'']"

lemma up_world_resolves: "resolveDatabasesFromPostgres up_world disco = Inr disco_dbs"
  by (simp add: resolveDatabasesFromPostgres_def sample_world_def)

lemma down_world_fails: "resolveDatabasesFromPostgres down_world s = Inl (ErrText ''timeout'')"
  by (simp add: resolveDatabasesFromPostgres_def sample_world_def)

theorem discovery_outage_keeps_databases_witness:
  "discover_calls NewResolver [(up_world, disco), (down_world, disco\<lparr>Name := ''other''\<rparr>), (down_world, disco)] ! Suc 1 =
     Inr disco_dbs"
  by (rule discovery_outage_keeps_databases [OF up_world_resolves])
     (simp_all add: down_world_fails)

theorem discovery_serves_own_identity_witness:
  "discover_calls NewResolver [(up_world, disco), (down_world, disco)] ! 1 = Inr disco_dbs \<and>
   (\<exists>j\<le>1. postgresDiscoveryKeyOf (snd ([(up_world, disco), (down_world, disco)] ! j)) =
        postgresDiscoveryKeyOf (snd ([(up_world, disco), (down_world, disco)] ! 1)) \<and>
      resolveDatabasesFromPostgres (fst ([(up_world, disco), (down_world, disco)] ! j))
        (snd ([(up_world, disco), (down_world, disco)] ! j)) = Inr disco_dbs)"
proof -
  have run: "discover_calls NewResolver [(up_world, disco), (down_world, disco)] ! 1 = Inr disco_dbs"
    by (simp add: ResolveDatabasesFromPostgres_def up_world_resolves down_world_fails Let_def
          NewResolver_def map_of_gset)
  then show ?thesis
    using discovery_serves_own_identity [of 1 "[(up_world, disco), (down_world, disco)]" disco_dbs]
    by simp
qed

theorem NewHostConfig_accepted_witness:
  "\<exists>hc. NewHostConfig up_world ''etcd://a:2379,b:2379/service/batman?ca_file=ca.pem'' = Inr hc \<and>
     DcsEndpoints hc = [''https://a:2379'', ''https://b:2379''] \<and>
     list_all (\<lambda>ep. HasPrefix ep (if UsesTLS hc then ''https://'' else ''http://'')) (DcsEndpoints hc)"
proof -
  obtain hc where hc: "NewHostConfig up_world ''etcd://a:2379,b:2379/service/batman?ca_file=ca.pem'' = Inr hc"
    and ep: "DcsType hc = ''etcd''" "DcsEndpoints hc = [''https://a:2379'', ''https://b:2379'']"
    by (simp add: NewHostConfig_def Cut_def HasPrefix_def cut_userinfo_def host_config_of_def
          UsesTLS_def sample_world_def Split.simps)
  then show ?thesis
    using NewHostConfig_accepted [OF hc] by auto
qed

end
