(* ===== verification/Change_Detection.thy ===== *)
theory Change_Detection
  imports Source_Conn "HOL-Library.Monad_Syntax"
begin

text \<open>
  Change detection (\<open>internal/reaper/database.go\<close>, functions \<open>QueryMeasurements\<close>, \<open>Detect*Changes\<close>
  and \<open>GetObjectChangesMeasurement\<close>; \<open>ChangeDetectionResults\<close> of \<open>metric.go\<close>).

  Each function compares the objects a query returns with the hashes remembered in
  \<open>md.ChangeState\<close>, sends an envelope with the differences and remembers the new hashes. A type
  assertion that fails panics: the functions return \<open>None\<close> then. A row is a Go map that is shared
  between the query result and the list of detected changes, so the loop returns every row of the
  result with a mark that says whether it was detected.
\<close>

section \<open>Queries\<close>

text \<open>
  The answers of the driver: \<open>db_query\<close> is what \<open>Conn.Query\<close> and then \<open>pgx.CollectRows\<close> with
  \<open>RowToMeasurement\<close> return; \<open>db_settings\<close> is what \<open>Query\<close> and the row by row \<open>Scan\<close> of the
  settings return, with \<open>None\<close> for a row that cannot be scanned.
\<close>

record query_env =
  db_query :: "string \<Rightarrow> goerr + goerr + measurements"
  db_settings :: "string \<Rightarrow> goerr + (int \<times> string \<times> string) option list"

function is_blank :: "string \<Rightarrow> bool" where
  "is_blank s =
     (if s = [] then True
      else case find (HasPrefix s) space_bytes of
             None \<Rightarrow> False
           | Some p \<Rightarrow> is_blank (drop (length p) s))"
  by pat_completeness auto
termination
  by (relation "measure length")
     (auto simp: find_Some_iff space_bytes_not_Nil)

declare is_blank.simps [simp del]

definition QueryMeasurements :: "query_env \<Rightarrow> string \<Rightarrow> goerr + measurements" where
  "QueryMeasurements q sql =
     (if is_blank sql then Inl (ErrText ''empty SQL'')
      else case db_query q sql of
             Inr collected \<Rightarrow> collected
           | Inl err \<Rightarrow>
               (if errors_Is err ErrDeadlineExceeded
                then Inl (ErrWrap ''change_detection_query'' err) else Inl err))"

section \<open>Results\<close>

record change_counts =
  Target :: string
  Created :: nat
  Altered :: nat
  Dropped :: nat

definition Total :: "change_counts \<Rightarrow> nat" where
  "Total cdr = Created cdr + Altered cdr + Dropped cdr"

definition counts_String :: "change_counts \<Rightarrow> string" where
  "counts_String cdr = Target cdr @ '': '' @ show_nat (Created cdr) @ ''/'' @
     show_nat (Altered cdr) @ ''/'' @ show_nat (Dropped cdr)"

definition no_changes :: "string \<Rightarrow> change_counts" where
  "no_changes target = \<lparr>Target = target, Created = 0, Altered = 0, Dropped = 0\<rparr>"

type_synonym hashes = "(string, string) gomap"
type_synonym marked = "(bool \<times> measurement) list"

text \<open>What one detection does: the new \<open>ChangeState\<close>, the counts, and the envelope that is sent.\<close>

type_synonym detection = "dbconn \<times> change_counts \<times> envelope option"

text \<open>\<open>dr[k].(string)\<close>.\<close>

definition as_string :: "measurement \<Rightarrow> string \<Rightarrow> string option" where
  "as_string dr k = (case gget dr k of Some (VString s) \<Rightarrow> Some s | _ \<Rightarrow> None)"

text \<open>\<open>dbMetricJoinStr\<close>: three currency signs, in UTF-8.\<close>

definition dbMetricJoinStr :: string where
  "dbMetricJoinStr = map char_of [194, 164, 194, 164, 194, 164 :: nat]"

definition mark_event :: "string \<Rightarrow> measurement \<Rightarrow> measurement" where
  "mark_event e dr = gset ''event'' (VString e) dr"

text \<open>The first lines of every function: create the category of the state when it is missing.\<close>

definition open_state :: "string \<Rightarrow> dbconn \<Rightarrow> dbconn \<times> bool" where
  "open_state cat md =
     (case gget (ChangeState md) cat of
        Some _ \<Rightarrow> (md, False)
      | None \<Rightarrow> (md\<lparr>ChangeState := gset cat [] (ChangeState md)\<rparr>, True))"

definition get_state :: "string \<Rightarrow> dbconn \<Rightarrow> hashes" where
  "get_state cat md = (case gget (ChangeState md) cat of Some h \<Rightarrow> h | None \<Rightarrow> [])"

definition put_state :: "string \<Rightarrow> hashes \<Rightarrow> dbconn \<Rightarrow> dbconn" where
  "put_state cat h md = md\<lparr>ChangeState := gset cat h (ChangeState md)\<rparr>"

text \<open>The last lines of every function: send what was detected, if anything was.\<close>

definition changes_envelope :: "dbconn \<Rightarrow> string \<Rightarrow> measurements \<Rightarrow> envelope option" where
  "changes_envelope md metricName detectedChanges =
     (if detectedChanges = [] then None
      else Some \<lparr>DBName = Name (dbSource md), MetricName = metricName, SourceKind = [],
                 CustomTags = sCustomTags (dbSource md), Data = detectedChanges\<rparr>)"

section \<open>Functions, tables and indexes\<close>

text \<open>The body of the first loop, for one row with the identifier \<open>objIdent\<close> and the hash \<open>h\<close>.\<close>

definition scan_row ::
  "bool \<Rightarrow> string \<Rightarrow> string \<Rightarrow> measurement \<Rightarrow> hashes \<Rightarrow> hashes \<times> (bool \<times> measurement) \<times> nat \<times> nat" where
  "scan_row firstRun objIdent h dr state =
     (case gget state objIdent of
        Some prevHash \<Rightarrow>
          (if prevHash \<noteq> h
           then (gset objIdent h state, (True, mark_event ''alter'' dr), 0, 1)
           else (state, (False, dr), 0, 0))
      | None \<Rightarrow>
          (if \<not> firstRun
           then (gset objIdent h state, (True, mark_event ''create'' dr), 1, 0)
           else (gset objIdent h state, (False, dr), 0, 0)))"

fun scan_rows ::
  "(measurement \<Rightarrow> string option) \<Rightarrow> (measurement \<Rightarrow> string option) \<Rightarrow> bool \<Rightarrow> measurements \<Rightarrow> hashes \<Rightarrow>
   (hashes \<times> marked \<times> nat \<times> nat) option" where
  "scan_rows ident hash firstRun [] state = Some (state, [], 0, 0)"
| "scan_rows ident hash firstRun (dr # rest) state =
     do {
       objIdent \<leftarrow> ident dr;
       h \<leftarrow> hash dr;
       let (state, m, c, a) = scan_row firstRun objIdent h dr state;
       (state, ms, cs, as) \<leftarrow> scan_rows ident hash firstRun rest state;
       Some (state, m # ms, c + cs, a + as)
     }"

definition detected_rows :: "marked \<Rightarrow> measurements" where
  "detected_rows ms = map snd (filter fst ms)"

text \<open>\<open>data.GetEpoch()\<close>, seen through the marks: the first row gets the time when it has no epoch.\<close>

definition marked_GetEpoch :: "int \<Rightarrow> marked \<Rightarrow> int \<times> marked" where
  "marked_GetEpoch now ms =
     (case ms of
        [] \<Rightarrow> (now, [])
      | (b, m) # rest \<Rightarrow> (let (epoch, m') = Measurement_GetEpoch now m in (epoch, (b, m') # rest)))"

text \<open>
  The second loop: objects of the state that the result does not have. \<open>drop_row\<close> builds the
  entry of a dropped object from its identifier; the state is only searched when its size differs
  from the number of rows.
\<close>

definition find_drops ::
  "(int \<Rightarrow> string \<Rightarrow> measurement option) \<Rightarrow> int \<Rightarrow> string list \<Rightarrow> marked \<Rightarrow> hashes \<Rightarrow>
   (hashes \<times> measurements \<times> nat) option" where
  "find_drops drop_row now idents ms state =
     (let gone = filter (\<lambda>k. k \<notin> set idents) (gkeys state);
          (epoch, ms) = (if gone = [] then (now, ms) else marked_GetEpoch now ms)
      in do {
           drops \<leftarrow> those (map (drop_row epoch) gone);
           Some (fold gdel gone state, detected_rows ms @ drops, length gone)
         })"

definition detect_hashes ::
  "string \<Rightarrow> string \<Rightarrow> string \<Rightarrow> (measurement \<Rightarrow> string option) \<Rightarrow> (measurement \<Rightarrow> string option) \<Rightarrow>
   (int \<Rightarrow> string \<Rightarrow> measurement option) \<Rightarrow>
   (string, metric) gomap \<Rightarrow> query_env \<Rightarrow> int \<Rightarrow> dbconn \<Rightarrow> detection option" where
  "detect_hashes target cat metricName ident hash drop_row defs q now md =
     (let (md, firstRun) = open_state cat md in
      case gget defs cat of
        None \<Rightarrow> Some (md, no_changes target, None)
      | Some mvp \<Rightarrow>
          (case QueryMeasurements q (GetSQL mvp (Version md)) of
             Inl _ \<Rightarrow> Some (md, no_changes target, None)
           | Inr data \<Rightarrow>
               do {
                 (state, ms, c, a) \<leftarrow> scan_rows ident hash firstRun data (get_state cat md);
                 idents \<leftarrow> those (map ident data);
                 (state, detectedChanges, d) \<leftarrow>
                   (if \<not> firstRun \<and> length state \<noteq> length data
                    then find_drops drop_row now idents ms state
                    else Some (state, detected_rows ms, 0));
                 Some (put_state cat state md,
                       (no_changes target)\<lparr>Created := c, Altered := a, Dropped := d\<rparr>,
                       changes_envelope md metricName detectedChanges)
               }))"

definition sproc_ident :: "measurement \<Rightarrow> string option" where
  "sproc_ident dr = do {
     sproc \<leftarrow> as_string dr ''tag_sproc'';
     oid \<leftarrow> as_string dr ''tag_oid'';
     Some (sproc @ dbMetricJoinStr @ oid)
   }"

definition sproc_drop_row :: "int \<Rightarrow> string \<Rightarrow> measurement option" where
  "sproc_drop_row epoch sprocIdent =
     (case Split sprocIdent dbMetricJoinStr of
        a # b # _ \<Rightarrow>
          Some (gset ''tag_oid'' (VString b) (gset ''tag_sproc'' (VString a)
            (gset ''event'' (VString ''drop'') (NewMeasurement epoch))))
      | _ \<Rightarrow> None)"

definition named_drop_row :: "string \<Rightarrow> int \<Rightarrow> string \<Rightarrow> measurement option" where
  "named_drop_row tag epoch objIdent =
     Some (gset tag (VString objIdent) (gset ''event'' (VString ''drop'') (NewMeasurement epoch)))"

definition index_hash :: "measurement \<Rightarrow> string option" where
  "index_hash dr = do {
     md5 \<leftarrow> as_string dr ''md5'';
     valid \<leftarrow> as_string dr ''is_valid'';
     Some (md5 @ valid)
   }"

definition DetectSprocChanges ::
  "(string, metric) gomap \<Rightarrow> query_env \<Rightarrow> int \<Rightarrow> dbconn \<Rightarrow> detection option" where
  "DetectSprocChanges =
     detect_hashes ''functions'' ''sproc_hashes'' ''sproc_changes''
       sproc_ident (\<lambda>dr. as_string dr ''md5'') sproc_drop_row"

definition DetectTableChanges ::
  "(string, metric) gomap \<Rightarrow> query_env \<Rightarrow> int \<Rightarrow> dbconn \<Rightarrow> detection option" where
  "DetectTableChanges =
     detect_hashes ''tables'' ''table_hashes'' ''table_changes''
       (\<lambda>dr. as_string dr ''tag_table'') (\<lambda>dr. as_string dr ''md5'') (named_drop_row ''tag_table'')"

definition DetectIndexChanges ::
  "(string, metric) gomap \<Rightarrow> query_env \<Rightarrow> int \<Rightarrow> dbconn \<Rightarrow> detection option" where
  "DetectIndexChanges =
     detect_hashes ''indexes'' ''index_hashes'' ''index_changes''
       (\<lambda>dr. as_string dr ''tag_index'') index_hash (named_drop_row ''tag_index'')"

section \<open>Privileges\<close>

text \<open>\<open>fmt.Sprintf("%s", v)\<close> of a string is the string; of any other value, \<open>sprint_s\<close> decides.\<close>

definition priv_sep :: string where "priv_sep = ''#:#''"

definition priv_ident :: "(goval option \<Rightarrow> string) \<Rightarrow> measurement \<Rightarrow> string" where
  "priv_ident sprint_s dr =
     Join (map (\<lambda>k. case gget dr k of Some (VString s) \<Rightarrow> s | v \<Rightarrow> sprint_s v)
             [''object_type'', ''tag_role'', ''tag_object'', ''privilege_type'']) priv_sep"

definition priv_row :: "bool \<Rightarrow> string \<Rightarrow> measurement \<Rightarrow> hashes \<Rightarrow> hashes \<times> (bool \<times> measurement)" where
  "priv_row firstRun objIdent dr state =
     (if firstRun then (gset objIdent [] state, (False, dr))
      else if ghas state objIdent then (state, (False, dr))
      else (gset objIdent [] state, (True, mark_event ''GRANT'' dr)))"

fun priv_rows :: "(goval option \<Rightarrow> string) \<Rightarrow> bool \<Rightarrow> measurements \<Rightarrow> hashes \<Rightarrow> hashes \<times> marked" where
  "priv_rows sprint_s firstRun [] state = (state, [])"
| "priv_rows sprint_s firstRun (dr # rest) state =
     (let (state, m) = priv_row firstRun (priv_ident sprint_s dr) dr state;
          (state, ms) = priv_rows sprint_s firstRun rest state
      in (state, m # ms))"

definition revoke_row :: "int \<Rightarrow> string \<Rightarrow> measurement option" where
  "revoke_row epoch objPrevRun =
     (case Split objPrevRun priv_sep of
        ty # role # obj # priv # _ \<Rightarrow>
          Some (gset ''event'' (VString ''REVOKE'') (gset ''privilege_type'' (VString priv)
            (gset ''tag_object'' (VString obj) (gset ''tag_role'' (VString role)
              (gset ''object_type'' (VString ty) (NewMeasurement epoch))))))
      | _ \<Rightarrow> None)"

definition DetectPrivilegeChanges ::
  "(goval option \<Rightarrow> string) \<Rightarrow> (string, metric) gomap \<Rightarrow> query_env \<Rightarrow> int \<Rightarrow> dbconn \<Rightarrow> detection option" where
  "DetectPrivilegeChanges sprint_s defs q now md =
     (let cat = ''object_privileges''; (md, firstRun) = open_state cat md in
      case gget defs ''privilege_changes'' of
        None \<Rightarrow> Some (md, no_changes ''privileges'', None)
      | Some mvp \<Rightarrow>
          (if GetSQL mvp (Version md) = [] then Some (md, no_changes ''privileges'', None)
           else case QueryMeasurements q (GetSQL mvp (Version md)) of
             Inl _ \<Rightarrow> Some (md, no_changes ''privileges'', None)
           | Inr data \<Rightarrow>
               (let (state, ms) = priv_rows sprint_s firstRun data (get_state cat md);
                    c = length (detected_rows ms);
                    current = (if firstRun then [] else map (priv_ident sprint_s) data)
                in do {
                     (state, detectedChanges, d) \<leftarrow>
                       (if \<not> firstRun \<and> current \<noteq> []
                        then find_drops revoke_row now current ms state
                        else Some (state, detected_rows ms, 0));
                     Some (put_state cat state md,
                           (no_changes ''privileges'')\<lparr>Created := c, Dropped := d\<rparr>,
                           changes_envelope md ''privilege_changes'' detectedChanges)
                   })))"

section \<open>Settings\<close>

definition setting_row :: "int \<Rightarrow> string \<Rightarrow> string \<Rightarrow> string \<Rightarrow> measurement" where
  "setting_row epoch objIdent objValue e =
     [(EpochColumnName, VInt64 epoch), (''tag_setting'', VString objIdent),
      (''value'', VString objValue), (''event'', VString e)]"

text \<open>The loop over the settings; the last component says that every row could be scanned.\<close>

fun scan_settings ::
  "bool \<Rightarrow> (int \<times> string \<times> string) option list \<Rightarrow> hashes \<Rightarrow> hashes \<times> measurements \<times> nat \<times> nat \<times> bool" where
  "scan_settings firstRun [] state = (state, [], 0, 0, True)"
| "scan_settings firstRun (None # rows) state = (state, [], 0, 0, False)"
| "scan_settings firstRun (Some (epoch, objIdent, objValue) # rows) state =
     (let (state', out, c, a) =
        (case gget state objIdent of
           Some prevHash \<Rightarrow>
             (if prevHash \<noteq> objValue
              then (gset objIdent objValue state, [setting_row epoch objIdent objValue ''alter''], 0, 1)
              else (state, [], 0, 0))
         | None \<Rightarrow>
             (if firstRun then (gset objIdent objValue state, [], 0, 0)
              else (gset objIdent objValue state, [setting_row epoch objIdent objValue ''create''], 1, 0)));
        (state'', outs, cs, as, ok) = scan_settings firstRun rows state'
      in (state'', out @ outs, c + cs, a + as, ok))"

definition DetectConfigurationChanges ::
  "(string, metric) gomap \<Rightarrow> query_env \<Rightarrow> dbconn \<Rightarrow> detection" where
  "DetectConfigurationChanges defs q md =
     (let cat = ''configuration_hashes''; (md, firstRun) = open_state cat md in
      case gget defs cat of
        None \<Rightarrow> (md, no_changes ''settings'', None)
      | Some mvp \<Rightarrow>
          (case db_settings q (GetSQL mvp (Version md)) of
             Inl _ \<Rightarrow> (md, no_changes ''settings'', None)
           | Inr rows \<Rightarrow>
               (let (state, detectedChanges, c, a, ok) = scan_settings firstRun rows (get_state cat md)
                in (put_state cat state md,
                    (no_changes ''settings'')\<lparr>Created := c, Altered := a\<rparr>,
                    if ok then changes_envelope md ''configuration_changes'' detectedChanges else None))))"

section \<open>All objects\<close>

text \<open>
  \<open>GetObjectChangesMeasurement\<close>: the connection after the five detections, the envelopes they sent
  in order, and the summary row, if anything changed.
\<close>

definition GetObjectChangesMeasurement ::
  "(goval option \<Rightarrow> string) \<Rightarrow> (string, metric) gomap \<Rightarrow> query_env \<Rightarrow> int \<Rightarrow> dbconn \<Rightarrow>
   (dbconn \<times> envelope list \<times> measurements) option" where
  "GetObjectChangesMeasurement sprint_s defs q now md =
     do {
       (md, spN, e1) \<leftarrow> DetectSprocChanges defs q now md;
       (md, tblN, e2) \<leftarrow> DetectTableChanges defs q now md;
       (md, idxN, e3) \<leftarrow> DetectIndexChanges defs q now md;
       let (md, cnfN, e4) = DetectConfigurationChanges defs q md;
       (md, privN, e5) \<leftarrow> DetectPrivilegeChanges sprint_s defs q now md;
       let ns = [spN, tblN, idxN, cnfN, privN];
       Some (md, List.map_filter id [e1, e2, e3, e4, e5],
             if sum_list (map Total ns) = 0 then []
             else [gset ''details'' (VString (Join (map counts_String ns) '' '')) (NewMeasurement now)])
     }"

section \<open>What one sweep over the rows does\<close>

text \<open>The objects of a query result with their hashes.\<close>

definition observed ::
  "(measurement \<Rightarrow> string option) \<Rightarrow> (measurement \<Rightarrow> string option) \<Rightarrow> measurements \<Rightarrow> hashes \<Rightarrow> bool" where
  "observed ident hash data cur \<longleftrightarrow>
     map ident data = map (Some \<circ> fst) cur \<and> map hash data = map (Some \<circ> snd) cur"

lemma observed_Nil [simp]: "observed ident hash [] cur \<longleftrightarrow> cur = []"
  by (auto simp: observed_def)

lemma observed_Cons:
  "observed ident hash (dr # data) cur \<longleftrightarrow>
     (\<exists>i h cur'. cur = (i, h) # cur' \<and> ident dr = Some i \<and> hash dr = Some h \<and> observed ident hash data cur')"
  by (cases cur) (auto simp: observed_def)

lemma observed_length: "observed ident hash data cur \<Longrightarrow> length cur = length data"
  by (metis length_map observed_def)

lemma those_Some: "those (map (\<lambda>x. Some (f x)) xs) = Some (map f xs)"
  by (induction xs) auto

lemma observed_idents: "observed ident hash data cur \<Longrightarrow> those (map ident data) = Some (gkeys cur)"
  by (simp add: observed_def o_def those_Some)

text \<open>The objects that differ from the remembered state, by the kind of difference.\<close>

definition created_in :: "hashes \<Rightarrow> hashes \<Rightarrow> string set" where
  "created_in state cur = dom (map_of cur) - dom (map_of state)"

definition altered_in :: "hashes \<Rightarrow> hashes \<Rightarrow> string set" where
  "altered_in state cur =
     {k. \<exists>v w. map_of state k = Some v \<and> map_of cur k = Some w \<and> v \<noteq> w}"

definition dropped_in :: "hashes \<Rightarrow> hashes \<Rightarrow> string set" where
  "dropped_in state cur = dom (map_of state) - dom (map_of cur)"

lemma finite_changes [simp]:
  "finite (created_in state cur)" "finite (altered_in state cur)" "finite (dropped_in state cur)"
proof -
  have "altered_in state cur \<subseteq> dom (map_of cur)"
    by (auto simp: altered_in_def)
  then show "finite (altered_in state cur)"
    by (rule finite_subset) (rule finite_dom_map_of)
qed (simp_all add: created_in_def dropped_in_def finite_dom_map_of)

lemma changes_Cons:
  assumes "i \<notin> dom (map_of cur)"
  shows "created_in state ((i, h) # cur) =
      (if i \<in> dom (map_of state) then {} else {i}) \<union> created_in (gset i h state) cur"
    and "altered_in state ((i, h) # cur) =
      (if i \<in> dom (map_of state) \<and> map_of state i \<noteq> Some h then {i} else {}) \<union> altered_in (gset i h state) cur"
    and "i \<notin> created_in (gset i h state) cur" "i \<notin> altered_in (gset i h state) cur"
  using assms by (auto simp: created_in_def altered_in_def map_of_gset split: if_splits)

text \<open>
  One row: the state remembers it whatever it was, and the counts say how it differs. With
  \<open>gset_same\<close>, the branch that leaves the state alone is the update with the same hash.
\<close>

lemma scan_row_eq:
  "scan_row firstRun i h dr state =
     (gset i h state,
      (if i \<in> dom (map_of state) then if map_of state i \<noteq> Some h then (True, mark_event ''alter'' dr) else (False, dr)
       else if firstRun then (False, dr) else (True, mark_event ''create'' dr)),
      (if i \<notin> dom (map_of state) \<and> \<not> firstRun then 1 else 0),
      (if i \<in> dom (map_of state) \<and> map_of state i \<noteq> Some h then 1 else 0))"
  by (auto simp: scan_row_def gset_same split: option.splits)

lemma scan_rows_exact:
  assumes "observed ident hash data cur" "gwf cur" "gwf state"
  shows "\<exists>state' ms. scan_rows ident hash False data state =
      Some (state', ms, card (created_in state cur), card (altered_in state cur)) \<and>
    gwf state' \<and> map_of state' = map_of state ++ map_of cur \<and>
    length ms = length data \<and>
    length (detected_rows ms) = card (created_in state cur) + card (altered_in state cur)"
  using assms
proof (induction data arbitrary: cur state)
  case Nil
  then show ?case by (simp add: created_in_def altered_in_def detected_rows_def)
next
  case (Cons dr data)
  obtain i h cur' where cur: "cur = (i, h) # cur'" "ident dr = Some i" "hash dr = Some h"
      "observed ident hash data cur'"
    using Cons.prems(1) by (auto simp: observed_Cons)
  have new: "i \<notin> dom (map_of cur')"
    using Cons.prems(2) cur(1) by (auto simp: dom_map_of_conv_image_fst)
  from Cons.IH [OF cur(4), of "gset i h state"] Cons.prems cur(1)
  obtain state' ms where rec:
    "scan_rows ident hash False data (gset i h state) =
       Some (state', ms, card (created_in (gset i h state) cur'), card (altered_in (gset i h state) cur'))"
    "gwf state'" "map_of state' = map_of (gset i h state) ++ map_of cur'" "length ms = length data"
    "length (detected_rows ms) =
       card (created_in (gset i h state) cur') + card (altered_in (gset i h state) cur')"
    by auto
  have state': "map_of state' = map_of state ++ map_of cur"
    using rec(3) cur(1) new by (auto simp: map_of_gset map_add_def fun_eq_iff domIff split: option.splits)
  note ch = changes_Cons [OF new, where state = state and h = h]
  have "card (created_in state cur) = (if i \<notin> dom (map_of state) then 1 else 0) + card (created_in (gset i h state) cur')"
    and "card (altered_in state cur) =
      (if i \<in> dom (map_of state) \<and> map_of state i \<noteq> Some h then 1 else 0) + card (altered_in (gset i h state) cur')"
    unfolding cur(1) ch(1,2) using ch(3,4) by simp_all
  with rec state' cur(2,3) show ?case
    by (auto simp: scan_row_eq detected_rows_def)
qed

lemma first_rows_silent:
  assumes "observed ident hash data cur" "gwf cur" "dom (map_of cur) \<inter> dom (map_of state) = {}"
  shows "\<exists>state' ms. scan_rows ident hash True data state = Some (state', ms, 0, 0) \<and>
    map_of state' = map_of state ++ map_of cur \<and> detected_rows ms = []"
  using assms
proof (induction data arbitrary: cur state)
  case Nil
  then show ?case by (simp add: detected_rows_def)
next
  case (Cons dr data)
  obtain i h cur' where cur: "cur = (i, h) # cur'" "ident dr = Some i" "hash dr = Some h"
      "observed ident hash data cur'"
    using Cons.prems(1) by (auto simp: observed_Cons)
  have new: "i \<notin> dom (map_of cur')"
    using Cons.prems(2) cur(1) by (auto simp: dom_map_of_conv_image_fst)
  have old: "i \<notin> dom (map_of state)"
    using Cons.prems(3) cur(1) by auto
  have "dom (map_of cur') \<inter> dom (map_of (gset i h state)) = {}"
    using Cons.prems(3) cur(1) new by (auto simp: map_of_gset disjoint_iff domIff)
  with Cons.IH [OF cur(4), of "gset i h state"] Cons.prems cur(1)
  obtain state' ms where rec:
    "scan_rows ident hash True data (gset i h state) = Some (state', ms, 0, 0)"
    "map_of state' = map_of (gset i h state) ++ map_of cur'" "detected_rows ms = []"
    by auto
  have "map_of state' = map_of state ++ map_of cur"
    using rec(2) cur(1) new by (auto simp: map_of_gset map_add_def fun_eq_iff domIff split: option.splits)
  with rec cur(2,3) old show ?case
    by (auto simp: scan_row_eq detected_rows_def)
qed

section \<open>The detections are exact\<close>

lemma fold_gdel:
  "map_of (fold gdel ks m) = map_of m |` (- set ks)" "gwf m \<Longrightarrow> gwf (fold gdel ks m)"
  by (induction ks arbitrary: m) (auto simp: map_of_gdel restrict_map_def fun_eq_iff)

lemma those_map_Some:
  "(\<And>x. x \<in> set xs \<Longrightarrow> f x = Some (g x)) \<Longrightarrow> those (map f xs) = Some (map g xs)"
  by (induction xs) auto

lemma marked_GetEpoch_length:
  "marked_GetEpoch now ms = (e, ms') \<Longrightarrow> length (detected_rows ms') = length (detected_rows ms)"
  by (auto simp: marked_GetEpoch_def detected_rows_def split: list.splits prod.splits)

lemma find_drops_exact:
  assumes "gwf state'" "map_of state' = map_of state ++ map_of cur"
    and "\<forall>e. \<forall>k\<in>dropped_in state cur. drop_row e k = Some (row e k)"
  shows "\<exists>rest chg e gone. find_drops drop_row now (gkeys cur) ms state' =
      Some (rest, chg @ map (row e) gone, card (dropped_in state cur)) \<and>
    gwf rest \<and> map_of rest = map_of cur \<and> length chg = length (detected_rows ms) \<and>
    distinct gone \<and> set gone = dropped_in state cur"
proof -
  define gone where "gone = filter (\<lambda>k. k \<notin> set (gkeys cur)) (gkeys state')"
  have set: "set gone = dropped_in state cur"
  proof -
    have "set gone = dom (map_of state') - dom (map_of cur)"
      by (auto simp: gone_def dom_gkeys)
    then show ?thesis
      by (auto simp: assms(2) dropped_in_def)
  qed
  have dist: "distinct gone"
    using assms(1) by (simp add: gone_def)
  have card: "length gone = card (dropped_in state cur)"
    using distinct_card [OF dist] set by simp
  obtain e ms' where ms': "(if gone = [] then (now, ms) else marked_GetEpoch now ms) = (e, ms')"
    by fastforce
  have len: "length (detected_rows ms') = length (detected_rows ms)"
    using ms' marked_GetEpoch_length by (auto split: if_splits)
  have drops: "those (map (drop_row e) gone) = Some (map (row e) gone)"
    using assms(3) set by (intro those_map_Some) auto
  have rest: "map_of (fold gdel gone state') = map_of cur"
  proof
    fix k
    show "map_of (fold gdel gone state') k = map_of cur k"
      using set by (cases "map_of cur k"; cases "map_of state k")
        (auto simp: fold_gdel assms(2) restrict_map_def dropped_in_def map_add_def)
  qed
  have "find_drops drop_row now (gkeys cur) ms state' =
      Some (fold gdel gone state', detected_rows ms' @ map (row e) gone, length gone)"
    using ms' drops by (simp add: find_drops_def Let_def gone_def split: prod.splits)
  with rest card len dist set fold_gdel(2) [OF assms(1)] show ?thesis by metis
qed

text \<open>A state with as many entries as the result has rows has nothing to drop.\<close>

lemma same_size_no_drops:
  assumes "gwf state'" "map_of state' = map_of state ++ map_of cur" "gwf cur"
    and "length state' = length cur"
  shows "dropped_in state cur = {}" "map_of state' = map_of cur"
proof -
  have "card (dom (map_of state')) = card (dom (map_of cur))"
    using assms(1,3,4) by (metis length_gwf)
  then have eq: "dom (map_of cur) = dom (map_of state')"
    using assms(2) by (intro card_subset_eq) (auto simp: finite_dom_map_of)
  then show "dropped_in state cur = {}"
    by (auto simp: assms(2) dropped_in_def)
  show "map_of state' = map_of cur"
  proof
    fix k
    show "map_of state' k = map_of cur k"
      using eq by (metis assms(2) domIff map_add_find_right not_None_eq)
  qed
qed

lemma state_simps [simp]:
  "get_state cat (put_state cat h md) = h"
  "gget (ChangeState md) cat = Some h \<Longrightarrow> open_state cat md = (md, False)"
  "gget (ChangeState md) cat = Some h \<Longrightarrow> get_state cat md = h"
  "gget (ChangeState md) cat = None \<Longrightarrow>
     open_state cat md = (md\<lparr>ChangeState := gset cat [] (ChangeState md)\<rparr>, True)"
  by (auto simp: get_state_def put_state_def open_state_def map_of_gset)

lemma detect_hashes_exact:
  assumes "gget (ChangeState md) cat = Some state" "gwf state" "gget defs cat = Some mvp"
    and "QueryMeasurements q (GetSQL mvp (Version md)) = Inr data"
    and "observed ident hash data cur" "gwf cur"
    and "\<forall>e. \<forall>k\<in>dropped_in state cur. drop_row e k = Some (row e k)"
  shows "\<exists>md' chg e gone. detect_hashes target cat metricName ident hash drop_row defs q now md =
      Some (md', \<lparr>Target = target, Created = card (created_in state cur),
                  Altered = card (altered_in state cur), Dropped = card (dropped_in state cur)\<rparr>,
            changes_envelope md metricName (chg @ map (row e) gone)) \<and>
    map_of (get_state cat md') = map_of cur \<and>
    length chg = card (created_in state cur) + card (altered_in state cur) \<and>
    distinct gone \<and> set gone = dropped_in state cur"
proof -
  obtain state' ms where scan:
    "scan_rows ident hash False data state =
       Some (state', ms, card (created_in state cur), card (altered_in state cur))"
    "gwf state'" "map_of state' = map_of state ++ map_of cur"
    "length (detected_rows ms) = card (created_in state cur) + card (altered_in state cur)"
    using scan_rows_exact [OF assms(5,6,2)] by blast
  note idents = observed_idents [OF assms(5)] and len = observed_length [OF assms(5)]
  show ?thesis
  proof (cases "length state' = length data")
    case True
    then have "dropped_in state cur = {}" "map_of state' = map_of cur"
      using same_size_no_drops [OF scan(2,3) assms(6)] len by auto
    then show ?thesis
      using assms(1,3,4) scan idents True
      by (intro exI [of _ "put_state cat state' md"] exI [of _ "detected_rows ms"] exI [of _ now] exI [of _ "[]"])
         (simp add: detect_hashes_def no_changes_def)
  next
    case False
    obtain rest chg e gone where drops:
      "find_drops drop_row now (gkeys cur) ms state' =
         Some (rest, chg @ map (row e) gone, card (dropped_in state cur))"
      "map_of rest = map_of cur" "length chg = length (detected_rows ms)"
      "distinct gone" "set gone = dropped_in state cur"
      using find_drops_exact [OF scan(2,3) assms(7)] by blast
    then show ?thesis
      using assms(1,3,4) scan idents False
      by (intro exI [of _ "put_state cat rest md"] exI [of _ chg] exI [of _ e] exI [of _ gone])
         (simp add: detect_hashes_def no_changes_def)
  qed
qed

text \<open>
  C12: when the tables of a query result are distinct, a run that is not the first counts exactly the
  tables that are new, that have another hash, and that are gone, and remembers exactly the
  hashes of the result. An envelope is sent just when something changed, with one row for each.
\<close>

theorem DetectTableChanges_exact:
  assumes "gget (ChangeState md) ''table_hashes'' = Some state" "gwf state"
    and "gget defs ''table_hashes'' = Some mvp"
    and "QueryMeasurements q (GetSQL mvp (Version md)) = Inr data"
    and "observed (\<lambda>dr. as_string dr ''tag_table'') (\<lambda>dr. as_string dr ''md5'') data cur" "gwf cur"
  shows "\<exists>md' cdr env. DetectTableChanges defs q now md = Some (md', cdr, env) \<and>
    map_of (get_state ''table_hashes'' md') = map_of cur \<and>
    Created cdr = card (created_in state cur) \<and> Altered cdr = card (altered_in state cur) \<and>
    Dropped cdr = card (dropped_in state cur) \<and>
    (case env of None \<Rightarrow> Total cdr = 0 | Some e \<Rightarrow> length (Data e) = Total cdr \<and> Total cdr \<noteq> 0)"
proof -
  define row where "row = (\<lambda>e k. the (named_drop_row ''tag_table'' e k))"
  have "\<forall>e. \<forall>k\<in>dropped_in state cur. named_drop_row ''tag_table'' e k = Some (row e k)"
    by (simp add: row_def named_drop_row_def)
  from detect_hashes_exact [OF assms this, of "''tables''" "''table_changes''" now]
  obtain md' chg e gone where res:
    "DetectTableChanges defs q now md =
      Some (md', \<lparr>Target = ''tables'', Created = card (created_in state cur),
                  Altered = card (altered_in state cur), Dropped = card (dropped_in state cur)\<rparr>,
            changes_envelope md ''table_changes'' (chg @ map (row e) gone))"
    and state: "map_of (get_state ''table_hashes'' md') = map_of cur"
    and len: "length chg = card (created_in state cur) + card (altered_in state cur)"
      "distinct gone" "set gone = dropped_in state cur"
    unfolding DetectTableChanges_def by blast
  have "length gone = card (dropped_in state cur)"
    using len(2,3) distinct_card by metis
  then show ?thesis
    using res state len(1)
    by (auto simp: changes_envelope_def Total_def split: option.splits)
qed

text \<open>A metric with one SQL for every version, and a source that has been looked at before.\<close>

definition hash_defs :: "(string, metric) gomap" where
  "hash_defs = map (\<lambda>n. (n, sample_metric\<lparr>SQLs := [(1, ''q'')]\<rparr>))
     [''sproc_hashes'', ''table_hashes'', ''index_hashes'', ''configuration_hashes'', ''privilege_changes'']"

definition answer :: "measurements \<Rightarrow> query_env" where
  "answer data = \<lparr>db_query = (\<lambda>_. Inr (Inr data)), db_settings = (\<lambda>_. Inr [])\<rparr>"

definition md_before :: "(string, hashes) gomap \<Rightarrow> dbconn" where
  "md_before cs = (NewDbConn sample_source)\<lparr>Version := 17, ChangeState := cs\<rparr>"

definition table_row :: "string \<Rightarrow> string \<Rightarrow> measurement" where
  "table_row t h = [(EpochColumnName, VInt64 5), (''tag_table'', VString t), (''md5'', VString h)]"

lemma hash_defs_sql [simp]:
  "gget hash_defs ''table_hashes'' = Some (sample_metric\<lparr>SQLs := [(1, ''q'')]\<rparr>)"
  "gget hash_defs ''sproc_hashes'' = Some (sample_metric\<lparr>SQLs := [(1, ''q'')]\<rparr>)"
  "gget hash_defs ''privilege_changes'' = Some (sample_metric\<lparr>SQLs := [(1, ''q'')]\<rparr>)"
  "GetSQL (sample_metric\<lparr>SQLs := [(1, ''q'')]\<rparr>) 17 = ''q''"
  "Version (md_before cs) = 17" "ChangeState (md_before cs) = cs"
  by (simp_all add: hash_defs_def GetSQL_def closest_step_def md_before_def)

lemma not_blank_q [simp]: "is_blank ''q'' = False"
  by (subst is_blank.simps) (simp add: space_bytes_def HasPrefix_def upt_rec char_of_def)

lemma answer_simps [simp]: "QueryMeasurements (answer data) ''q'' = Inr data"
  by (simp add: QueryMeasurements_def answer_def)

theorem DetectTableChanges_exact_witness:
  "\<exists>md' cdr env.
     DetectTableChanges hash_defs (answer [table_row ''a'' ''2'', table_row ''c'' ''3'']) 9
       (md_before [(''table_hashes'', [(''a'', ''1''), (''b'', ''1'')])]) = Some (md', cdr, env) \<and>
     map_of (get_state ''table_hashes'' md') = map_of [(''a'', ''2''), (''c'', ''3'')] \<and>
     Created cdr = 1 \<and> Altered cdr = 1 \<and> Dropped cdr = 1"
proof -
  let ?state = "[(''a'', ''1''), (''b'', ''1'')]" and ?cur = "[(''a'', ''2''), (''c'', ''3'')]"
  have "created_in ?state ?cur = {''c''}" "altered_in ?state ?cur = {''a''}" "dropped_in ?state ?cur = {''b''}"
    by (auto simp: created_in_def altered_in_def dropped_in_def split: if_splits)
  moreover have "observed (\<lambda>dr. as_string dr ''tag_table'') (\<lambda>dr. as_string dr ''md5'')
      [table_row ''a'' ''2'', table_row ''c'' ''3''] ?cur"
    by (simp add: observed_def table_row_def as_string_def EpochColumnName_def)
  ultimately show ?thesis
    using DetectTableChanges_exact
      [of "md_before [(''table_hashes'', ?state)]" ?state hash_defs _
        "answer [table_row ''a'' ''2'', table_row ''c'' ''3'']" _ ?cur 9]
    by fastforce
qed

text \<open>
  a first look at the indexes of a database reports nothing and remembers every index; but when
  the first query fails, the category has been created all the same, and the next
  look, which is the first with data, reports every index of the database as created.
\<close>

theorem DetectIndexChanges_first_run:
  assumes "gget (ChangeState md) ''index_hashes'' = None"
    and "gget defs ''index_hashes'' = Some mvp"
    and "QueryMeasurements q (GetSQL mvp (Version md)) = Inr data"
    and "observed (\<lambda>dr. as_string dr ''tag_index'') index_hash data cur" "gwf cur"
    and "QueryMeasurements q' (GetSQL mvp (Version md)) = Inl err"
  shows "\<exists>md1 md2 md3 cdr env.
    DetectIndexChanges defs q now md = Some (md1, no_changes ''indexes'', None) \<and>
    map_of (get_state ''index_hashes'' md1) = map_of cur \<and>
    DetectIndexChanges defs q' now md = Some (md2, no_changes ''indexes'', None) \<and>
    DetectIndexChanges defs q now md2 = Some (md3, cdr, env) \<and> Created cdr = length data"
proof -
  let ?md = "md\<lparr>ChangeState := gset ''index_hashes'' [] (ChangeState md)\<rparr>"
  have empty: "gget (ChangeState ?md) ''index_hashes'' = Some []"
    by (simp add: map_of_gset)
  obtain state' ms where scan: "scan_rows (\<lambda>dr. as_string dr ''tag_index'') index_hash True data [] =
      Some (state', ms, 0, 0)" "map_of state' = map_of cur" "detected_rows ms = []"
    using first_rows_silent [OF assms(4,5), of "[]"] by auto
  have one: "DetectIndexChanges defs q now md =
      Some (put_state ''index_hashes'' state' ?md, no_changes ''indexes'', None)"
    using assms(1-3) scan empty observed_idents [OF assms(4)]
    by (simp add: DetectIndexChanges_def detect_hashes_def changes_envelope_def no_changes_def)
  have two: "DetectIndexChanges defs q' now md = Some (?md, no_changes ''indexes'', None)"
    using assms(1,2,6) by (simp add: DetectIndexChanges_def detect_hashes_def)
  have "card (created_in [] cur) = length data"
    using assms(5) observed_length [OF assms(4)] by (simp add: created_in_def length_gwf)
  moreover have "dropped_in [] cur = {}"
    by (simp add: dropped_in_def)
  ultimately obtain md3 cdr env where "DetectIndexChanges defs q now ?md = Some (md3, cdr, env)"
      "Created cdr = length data"
    using detect_hashes_exact [OF empty _ assms(2) _ assms(4,5), of q "named_drop_row ''tag_index''"] assms(3)
    unfolding DetectIndexChanges_def by fastforce
  with one two scan(2) show ?thesis by auto
qed

definition index_row :: "string \<Rightarrow> string \<Rightarrow> measurement" where
  "index_row i h = [(EpochColumnName, VInt64 5), (''tag_index'', VString i), (''md5'', VString h),
     (''is_valid'', VString ''t'')]"

definition broken :: query_env where
  "broken = \<lparr>db_query = (\<lambda>_. Inl (ErrText ''timeout'')), db_settings = (\<lambda>_. Inl (ErrText ''timeout''))\<rparr>"

theorem DetectIndexChanges_first_run_witness:
  "\<exists>md1 md2 md3 cdr env.
    DetectIndexChanges hash_defs (answer [index_row ''a'' ''1'']) 9 (md_before []) =
      Some (md1, no_changes ''indexes'', None) \<and>
    DetectIndexChanges hash_defs broken 9 (md_before []) = Some (md2, no_changes ''indexes'', None) \<and>
    DetectIndexChanges hash_defs (answer [index_row ''a'' ''1'']) 9 md2 = Some (md3, cdr, env) \<and>
    Created cdr = 1"
proof -
  have def: "gget hash_defs ''index_hashes'' = Some (sample_metric\<lparr>SQLs := [(1, ''q'')]\<rparr>)"
    by (simp add: hash_defs_def)
  have obs: "observed (\<lambda>dr. as_string dr ''tag_index'') index_hash [index_row ''a'' ''1''] [(''a'', ''1t'')]"
    by (simp add: observed_def index_row_def index_hash_def as_string_def EpochColumnName_def)
  have err: "QueryMeasurements broken ''q'' = Inl (ErrText ''timeout'')"
    by (simp add: QueryMeasurements_def broken_def)
  show ?thesis
    using DetectIndexChanges_first_run
      [of "md_before []" hash_defs _ "answer [index_row ''a'' ''1'']" _ "[(''a'', ''1t'')]" broken _ 9,
        OF _ def _ obs] err
    by fastforce
qed

section \<open>Names in the reports\<close>

lemma sproc_drop_row_names:
  assumes "sep_free dbMetricJoinStr n" "str_index dbMetricJoinStr oid = None"
  shows "sproc_drop_row e (n @ dbMetricJoinStr @ oid) =
    Some (gset ''tag_oid'' (VString oid) (gset ''tag_sproc'' (VString n)
      (gset ''event'' (VString ''drop'') (NewMeasurement e))))"
proof -
  have "dbMetricJoinStr \<noteq> []" by (simp add: dbMetricJoinStr_def)
  then show ?thesis
    using assms by (simp add: sproc_drop_row_def Split_step Split_last)
qed

text \<open>
  a function that is gone is reported under its own name and object identifier, whichever other
  functions were created, altered or dropped in the same run, as long as no name or identifier
  contains the separator.
\<close>

theorem DetectSprocChanges_names_dropped:
  assumes "gget (ChangeState md) ''sproc_hashes'' = Some state" "gwf state"
    and "gget defs ''sproc_hashes'' = Some mvp"
    and "QueryMeasurements q (GetSQL mvp (Version md)) = Inr data"
    and "observed sproc_ident (\<lambda>dr. as_string dr ''md5'') data cur" "gwf cur"
    and "\<forall>k\<in>dropped_in state cur. \<exists>n oid. k = n @ dbMetricJoinStr @ oid \<and>
      sep_free dbMetricJoinStr n \<and> str_index dbMetricJoinStr oid = None"
    and "n @ dbMetricJoinStr @ oid \<in> dropped_in state cur"
    and "sep_free dbMetricJoinStr n" "str_index dbMetricJoinStr oid = None"
  shows "\<exists>md' cdr env row. DetectSprocChanges defs q now md = Some (md', cdr, Some env) \<and>
    row \<in> set (Data env) \<and> gget row ''event'' = Some (VString ''drop'') \<and>
    gget row ''tag_sproc'' = Some (VString n) \<and> gget row ''tag_oid'' = Some (VString oid) \<and>
    \<not> ghas (get_state ''sproc_hashes'' md') (n @ dbMetricJoinStr @ oid)"
proof -
  define row where "row = (\<lambda>e k. the (sproc_drop_row e k))"
  have "\<forall>e. \<forall>k\<in>dropped_in state cur. sproc_drop_row e k = Some (row e k)"
    using assms(7) by (metis option.sel row_def sproc_drop_row_names)
  from detect_hashes_exact [OF assms(1-6) this, of "''functions''" "''sproc_changes''" now]
  obtain md' cdr chg e gone where res:
    "DetectSprocChanges defs q now md =
       Some (md', cdr, changes_envelope md ''sproc_changes'' (chg @ map (row e) gone))"
    and state: "map_of (get_state ''sproc_hashes'' md') = map_of cur"
    and gone: "set gone = dropped_in state cur"
    unfolding DetectSprocChanges_def by blast
  let ?k = "n @ dbMetricJoinStr @ oid"
  have mem: "?k \<in> set gone" using assms(8) gone by simp
  then obtain env where env: "changes_envelope md ''sproc_changes'' (chg @ map (row e) gone) = Some env"
      "row e ?k \<in> set (Data env)"
    by (cases gone) (auto simp: changes_envelope_def)
  have "row e ?k = gset ''tag_oid'' (VString oid) (gset ''tag_sproc'' (VString n)
      (gset ''event'' (VString ''drop'') (NewMeasurement e)))"
    using sproc_drop_row_names [OF assms(9,10)] by (simp add: row_def)
  moreover have "\<not> ghas (get_state ''sproc_hashes'' md') ?k"
    using assms(8) state by (auto simp: dropped_in_def)
  ultimately show ?thesis
    using res env by (auto simp: map_of_gset)
qed

theorem DetectSprocChanges_names_dropped_witness:
  "\<exists>md' cdr env row. DetectSprocChanges hash_defs (answer []) 9
      (md_before [(''sproc_hashes'', [(''f'' @ dbMetricJoinStr @ ''42'', ''x'')])]) = Some (md', cdr, Some env) \<and>
    row \<in> set (Data env) \<and> gget row ''event'' = Some (VString ''drop'') \<and>
    gget row ''tag_sproc'' = Some (VString ''f'') \<and> gget row ''tag_oid'' = Some (VString ''42'')"
proof -
  let ?state = "[(''f'' @ dbMetricJoinStr @ ''42'', ''x'')]"
  have sep: "sep_free dbMetricJoinStr ''f''" "str_index dbMetricJoinStr ''42'' = None"
    by (simp_all add: sep_free_def dbMetricJoinStr_def HasPrefix_def char_of_def)
  have dropped: "dropped_in ?state [] = {''f'' @ dbMetricJoinStr @ ''42''}"
    by (auto simp: dropped_in_def)
  have only: "\<forall>k\<in>dropped_in ?state []. \<exists>n oid. k = n @ dbMetricJoinStr @ oid \<and>
      sep_free dbMetricJoinStr n \<and> str_index dbMetricJoinStr oid = None"
    unfolding dropped using sep by blast
  show ?thesis
    using DetectSprocChanges_names_dropped
      [of "md_before [(''sproc_hashes'', ?state)]" ?state hash_defs _ "answer []" "[]" "[]" "''f''" "''42''" 9,
        OF _ _ hash_defs_sql(2) _ _ _ only _ sep] dropped
    by fastforce
qed

section \<open>Privileges\<close>

text \<open>
  privileges that exist for the last time are never reported as revoked: when the query returns
  no row at all, nothing is sent and the old privileges stay in the state.
\<close>

theorem DetectPrivilegeChanges_all_revoked:
  assumes "gget (ChangeState md) ''object_privileges'' = Some state"
    and "gget defs ''privilege_changes'' = Some mvp"
    and "QueryMeasurements q (GetSQL mvp (Version md)) = Inr []"
  shows "\<exists>md'. DetectPrivilegeChanges sprint_s defs q now md = Some (md', no_changes ''privileges'', None) \<and>
    get_state ''object_privileges'' md' = state"
proof (cases "GetSQL mvp (Version md) = []")
  case True
  with assms show ?thesis by (simp add: DetectPrivilegeChanges_def)
next
  case False
  with assms show ?thesis
    by (simp add: DetectPrivilegeChanges_def detected_rows_def changes_envelope_def no_changes_def)
qed

theorem DetectPrivilegeChanges_all_revoked_witness:
  "\<exists>md'. DetectPrivilegeChanges (\<lambda>_. []) hash_defs (answer []) 9
      (md_before [(''object_privileges'', [(''table#:#bob#:#t#:#SELECT'', [])])]) =
        Some (md', no_changes ''privileges'', None) \<and>
    get_state ''object_privileges'' md' = [(''table#:#bob#:#t#:#SELECT'', [])]"
  by (rule DetectPrivilegeChanges_all_revoked [OF _ hash_defs_sql(3)]) simp_all

end
