(* ===== verification/Db_Reaper.thy ===== *)
theory Db_Reaper
  imports Metric_Cache Change_Detection
begin

text \<open>
  The worker of one monitored database (\<open>DbConnReaper\<close> of \<open>internal/reaper/database.go\<close>, and
  \<open>file.go\<close>): the tick interval, one tick of the loop of \<open>Reap\<close>, batches with individual retries
  and the set of degraded metrics, the dispatch of rows and the detection of a server restart.

  The channel to the sinks is the list \<open>sent\<close> of the envelopes sent so far; the instance-level cache
  is the cache of values of \<open>Metric_Cache\<close>. What the server, the driver and the operating system
  answer during one tick is the record \<open>db_io\<close>; the clock readings of a tick are the record
  \<open>times\<close>. A panic is the result \<open>None\<close>. Rows are not changed after they were sent: the one
  place where the code could, \<open>data.GetEpoch()\<close> in \<open>detectServerRestart\<close> on a row whose epoch is no
  \<open>int64\<close>, is read here as a pure lookup.
\<close>

section \<open>Data\<close>

record reaper_cfg =
  cfgMetrics :: metrics_opts
  RealDbnameField :: string
  SystemIdentifierField :: string
  cfgDefs :: "(string, metric) gomap"
  cfgPool :: pool_env
  cfgSprint :: "goval option \<Rightarrow> string"

record db_io =
  io_info :: server_info
  io_ctxErr :: "goerr option"
  io_query :: query_env
  io_single :: "string \<Rightarrow> goerr + goerr + measurements"
  io_batch :: "string \<Rightarrow> goerr + goerr + measurements"
  io_pgdirs :: "goerr + measurements"
  io_os :: "string \<Rightarrow> measurements \<Rightarrow> goerr + measurements"
  io_ping :: "goerr option"
  io_same_host :: bool

record times =
  t_now :: int
  t_done :: "string \<Rightarrow> int"
  t_batch :: int

record worker =
  wmd :: dbconn
  lastFetch :: "(string, int) gomap"
  lastUptimeS :: int
  logParserStarted :: bool
  degradedMetrics :: "(string, unit) gomap"
  wcache :: vcache
  sent :: "envelope list"

record batchEntry =
  beName :: string
  beMetric :: metric
  beSql :: string

definition NewDbConnReaper :: "dbconn \<Rightarrow> vcache \<Rightarrow> envelope list \<Rightarrow> worker" where
  "NewDbConnReaper md c out = \<lparr>wmd = md, lastFetch = [], lastUptimeS = 0, logParserStarted = False,
     degradedMetrics = [], wcache = c, sent = out\<rparr>"

definition specialMetricChangeEvents :: string where "specialMetricChangeEvents = ''change_events''"
definition specialMetricServerLogEventCounts :: string where
  "specialMetricServerLogEventCounts = ''server_log_event_counts''"
definition specialMetricInstanceUp :: string where "specialMetricInstanceUp = ''instance_up''"

lemmas special_defs = specialMetricChangeEvents_def specialMetricServerLogEventCounts_def
  specialMetricInstanceUp_def

definition directlyFetchableOSMetrics :: "string list" where
  "directlyFetchableOSMetrics =
     [''psutil_cpu'', ''psutil_disk'', ''psutil_disk_io_total'', ''psutil_mem'', ''cpu_load'']"

section \<open>Degraded metrics\<close>

definition isDegraded :: "string \<Rightarrow> worker \<Rightarrow> bool" where
  "isDegraded name w \<longleftrightarrow> ghas (degradedMetrics w) name"

definition markDegraded :: "string \<Rightarrow> worker \<Rightarrow> worker" where
  "markDegraded name w = w\<lparr>degradedMetrics := gset name () (degradedMetrics w)\<rparr>"

definition clearDegraded :: "string \<Rightarrow> worker \<Rightarrow> worker" where
  "clearDegraded name w = w\<lparr>degradedMetrics := gdel name (degradedMetrics w)\<rparr>"

section \<open>Intervals\<close>

definition activeMetrics :: "dbconn \<Rightarrow> (string, int) gomap" where
  "activeMetrics md = map (\<lambda>(k, v). (k, seconds v)) (oentries (ActiveMetrics md))"

definition minTickInterval :: int where "minTickInterval = 1"

text \<open>The inner loop of \<open>GCDSlice\<close>: \<open>g, v = v, g%v\<close> until \<open>v\<close> is zero.\<close>

lemma go_mod_abs: "b \<noteq> 0 \<Longrightarrow> go_mod a b = sgn a * (\<bar>a\<bar> mod \<bar>b\<bar>)"
proof -
  have "b * go_div a b = sgn a * (\<bar>b\<bar> * (\<bar>a\<bar> div \<bar>b\<bar>))"
    by (simp add: go_div_def abs_sgn mult.assoc mult.left_commute)
  then have "go_mod a b = sgn a * \<bar>a\<bar> - sgn a * (\<bar>b\<bar> * (\<bar>a\<bar> div \<bar>b\<bar>))"
    by (simp add: go_mod_def sgn_mult_abs)
  also have "\<dots> = sgn a * (\<bar>a\<bar> - \<bar>b\<bar> * (\<bar>a\<bar> div \<bar>b\<bar>))"
    by (simp only: right_diff_distrib)
  finally show ?thesis
    by (simp only: minus_mult_div_eq_mod)
qed

lemma go_mod_less: "b \<noteq> 0 \<Longrightarrow> \<bar>go_mod a b\<bar> < \<bar>b\<bar>"
  by (cases "a = 0") (simp_all add: go_mod_abs abs_mult)

function gcd_loop :: "int \<Rightarrow> int \<Rightarrow> int" where
  "gcd_loop g v = (if v = 0 then g else gcd_loop v (go_mod g v))"
  by pat_completeness auto
termination
  by (relation "measure (\<lambda>(g, v). nat \<bar>v\<bar>)") (auto simp: go_mod_less)

declare gcd_loop.simps [simp del]

definition GCDSlice :: "int list \<Rightarrow> int" where
  "GCDSlice vals = (case vals of [] \<Rightarrow> 0 | v # vs \<Rightarrow> foldl gcd_loop v vs)"

text \<open>
  \<open>int(d.Seconds())\<close>: the whole seconds of a duration. (The detour through a float is exact for
  a whole number of seconds, which every interval is.)
\<close>

definition duration_seconds :: "int \<Rightarrow> int" where
  "duration_seconds d = go_div d Second"

definition calcTickInterval :: "dbconn \<Rightarrow> int" where
  "calcTickInterval md =
     (let intervals = map (\<lambda>(_, d). max (duration_seconds d) minTickInterval) (activeMetrics md)
      in seconds (max (GCDSlice intervals) minTickInterval))"

definition cacheKey :: "reaper_cfg \<Rightarrow> dbconn \<Rightarrow> metric \<Rightarrow> string \<Rightarrow> string" where
  "cacheKey cfg md m name =
     (let age = CacheAge (cfgMetrics cfg)
      in if IsInstanceLevel m \<and> age > 0 \<and> GetMetricInterval md name < age
         then GetClusterIdentifier (cfgPool cfg) md @ '':'' @ name else [])"

definition isRoleExcluded :: "dbconn \<Rightarrow> metric \<Rightarrow> bool" where
  "isRoleExcluded md m \<longleftrightarrow>
     PrimaryOnly m \<and> IsInRecovery md \<or> StandbyOnly m \<and> \<not> IsInRecovery md"

section \<open>Dispatch\<close>

definition add_sysinfo :: "reaper_cfg \<Rightarrow> dbconn \<Rightarrow> measurements \<Rightarrow> measurements" where
  "add_sysinfo cfg md data =
     map (sysinfo_row (RealDbnameField cfg) (SystemIdentifierField cfg) (RealDbname md)
            (SystemIdentifier md)) data"

definition mk_envelope :: "dbconn \<Rightarrow> string \<Rightarrow> measurements \<Rightarrow> envelope" where
  "mk_envelope md metricName data =
     \<lparr>DBName = Name (dbSource md), MetricName = metricName, SourceKind = [],
      CustomTags = sCustomTags (dbSource md), Data = data\<rparr>"

definition send :: "envelope \<Rightarrow> worker \<Rightarrow> worker" where
  "send e w = w\<lparr>sent := sent w @ [e]\<rparr>"

definition sendEnvelope :: "reaper_cfg \<Rightarrow> string \<Rightarrow> string \<Rightarrow> measurements \<Rightarrow> worker \<Rightarrow> worker" where
  "sendEnvelope cfg name storageName data w =
     send (mk_envelope (wmd w) (cmp_Or storageName name) (add_sysinfo cfg (wmd w) data)) w"

definition restart_details :: string where
  "restart_details = ''Detected server restart (or failover)''"

definition detectServerRestart :: "int \<Rightarrow> measurements \<Rightarrow> worker \<Rightarrow> worker" where
  "detectServerRestart now data w =
     (case data of
        [] \<Rightarrow> w
      | row # _ \<Rightarrow>
          (case gget row ''postmaster_uptime_s'' of
             Some (VInt64 uptimeS) \<Rightarrow>
               (let prev = lastUptimeS w;
                    w = w\<lparr>lastUptimeS := uptimeS\<rparr>
                in if prev > 0 \<and> uptimeS < prev
                   then send (mk_envelope (wmd w) ''object_changes''
                          [gset ''details'' (VString restart_details)
                             (NewMeasurement (fst (GetEpoch now data)))]) w
                   else w)
           | _ \<Rightarrow> w))"

definition dispatchMetricData ::
  "reaper_cfg \<Rightarrow> int \<Rightarrow> string \<Rightarrow> metric \<Rightarrow> measurements \<Rightarrow> worker \<Rightarrow> worker" where
  "dispatchMetricData cfg now name metric data w =
     (let key = cacheKey cfg (wmd w) metric name;
          w = (if key \<noteq> [] then w\<lparr>wcache := vPut key data now (wcache w)\<rparr> else w);
          w = sendEnvelope cfg name (StorageName metric) data w
      in if name = ''db_stats'' then detectServerRestart now (add_sysinfo cfg (wmd w) data) w else w)"

section \<open>Fetching\<close>

definition CollectAndDispatch ::
  "reaper_cfg \<Rightarrow> int \<Rightarrow> goerr + measurements \<Rightarrow> string \<Rightarrow> metric \<Rightarrow> worker \<Rightarrow> worker \<times> goerr option" where
  "CollectAndDispatch cfg now rs name metric w =
     (case rs of
        Inl err \<Rightarrow> (w, Some err)
      | Inr data \<Rightarrow>
          (if data \<noteq> [] then (dispatchMetricData cfg now name metric data w, None) else (w, None)))"

definition fetchMetricOnce ::
  "reaper_cfg \<Rightarrow> db_io \<Rightarrow> int \<Rightarrow> batchEntry \<Rightarrow> worker \<Rightarrow> worker \<times> goerr option" where
  "fetchMetricOnce cfg io now entry w =
     (case io_single io (beSql entry) of
        Inl err \<Rightarrow> (w, Some err)
      | Inr rs \<Rightarrow> CollectAndDispatch cfg now rs (beName entry) (beMetric entry) w)"

definition fetchMetric ::
  "reaper_cfg \<Rightarrow> db_io \<Rightarrow> int \<Rightarrow> batchEntry \<Rightarrow> worker \<Rightarrow> worker \<times> goerr option" where
  "fetchMetric cfg io now entry w =
     (case fetchMetricOnce cfg io now entry w of
        (w, Some err) \<Rightarrow> (w, Some (ErrWrap (''fetch '' @ beName entry) err))
      | (w, None) \<Rightarrow> (w, None))"

text \<open>
  The two loops of \<open>executeBatch\<close>: results of the batch in order, then the entries whose
  query failed one by one.
\<close>

fun batch_results ::
  "reaper_cfg \<Rightarrow> db_io \<Rightarrow> int \<Rightarrow> batchEntry list \<Rightarrow> worker \<Rightarrow> goerr option \<Rightarrow>
   worker \<times> batchEntry list \<times> goerr option" where
  "batch_results cfg io now [] w errs = (w, [], errs)"
| "batch_results cfg io now (e # entries) w errs =
     (case io_batch io (beName e) of
        Inl _ \<Rightarrow>
          (let (w, retries, errs) = batch_results cfg io now entries w errs in (w, e # retries, errs))
      | Inr rs \<Rightarrow>
          (let (w, err) = CollectAndDispatch cfg now rs (beName e) (beMetric e) w
           in batch_results cfg io now entries w (errors_Join [errs, err])))"

fun retry_entries ::
  "reaper_cfg \<Rightarrow> db_io \<Rightarrow> int \<Rightarrow> batchEntry list \<Rightarrow> worker \<Rightarrow> goerr option \<Rightarrow> worker \<times> goerr option" where
  "retry_entries cfg io now [] w errs = (w, errs)"
| "retry_entries cfg io now (e # entries) w errs =
     (case fetchMetric cfg io now e w of
        (w, None) \<Rightarrow> retry_entries cfg io now entries w errs
      | (w, Some err) \<Rightarrow>
          retry_entries cfg io now entries (markDegraded (beName e) w)
            (errors_Join [errs, Some (ErrText (''failed to fetch metric '' @ beName e))]))"

definition executeBatch ::
  "reaper_cfg \<Rightarrow> db_io \<Rightarrow> int \<Rightarrow> batchEntry list \<Rightarrow> worker \<Rightarrow> worker \<times> goerr option" where
  "executeBatch cfg io now entries w =
     (let (w, retries, errs) = batch_results cfg io now entries w None
      in retry_entries cfg io now retries w errs)"

section \<open>Metrics of the operating system and special metrics\<close>

definition IsDirectlyFetchableMetric :: "db_io \<Rightarrow> string \<Rightarrow> bool" where
  "IsDirectlyFetchableMetric io name \<longleftrightarrow> name \<in> set directlyFetchableOSMetrics \<and> io_same_host io"

definition FetchStatsDirectlyFromOS ::
  "reaper_cfg \<Rightarrow> db_io \<Rightarrow> dbconn \<Rightarrow> string \<Rightarrow> goerr + envelope" where
  "FetchStatsDirectlyFromOS cfg io md metricName =
     (let result =
        (if metricName = ''psutil_disk''
         then (case io_pgdirs io of Inl err \<Rightarrow> Inl err | Inr pgDirs \<Rightarrow> io_os io metricName pgDirs)
         else if metricName \<in> set directlyFetchableOSMetrics then io_os io metricName []
         else Inr [])
      in case result of
           Inl err \<Rightarrow> Inl err
         | Inr data \<Rightarrow> Inr (mk_envelope md metricName (add_sysinfo cfg md data)))"

definition fetchOSMetric :: "reaper_cfg \<Rightarrow> db_io \<Rightarrow> string \<Rightarrow> worker \<Rightarrow> worker \<times> goerr option" where
  "fetchOSMetric cfg io name w =
     (case FetchStatsDirectlyFromOS cfg io (wmd w) name of
        Inl err \<Rightarrow> (w, Some (ErrText ''could not read metric from OS''))
      | Inr msg \<Rightarrow> (if Data msg \<noteq> [] then (send msg w, None) else (w, None)))"

definition GetInstanceUpMeasurement :: "db_io \<Rightarrow> int \<Rightarrow> measurements" where
  "GetInstanceUpMeasurement io now =
     [[(EpochColumnName, VInt64 now),
       (''instance_up'', VInt (if io_ping io = None then 1 else 0))]]"

definition fetchSpecialMetric ::
  "reaper_cfg \<Rightarrow> db_io \<Rightarrow> int \<Rightarrow> string \<Rightarrow> string \<Rightarrow> worker \<Rightarrow> worker option" where
  "fetchSpecialMetric cfg io now name storageName w =
     do {
       (w, data) \<leftarrow>
         (if name = specialMetricChangeEvents
          then (case GetObjectChangesMeasurement (cfgSprint cfg) (cfgDefs cfg) (io_query io) now (wmd w) of
                  None \<Rightarrow> None
                | Some (md, es, data) \<Rightarrow> Some (w\<lparr>wmd := md, sent := sent w @ es\<rparr>, data))
          else if name = specialMetricInstanceUp then Some (w, GetInstanceUpMeasurement io now)
          else Some (w, []));
       Some (if data \<noteq> [] then sendEnvelope cfg name storageName data w else w)
     }"

section \<open>One tick\<close>

definition set_fetched :: "string \<Rightarrow> int \<Rightarrow> worker \<Rightarrow> worker" where
  "set_fetched name t w = w\<lparr>lastFetch := gset name t (lastFetch w)\<rparr>"

text \<open>The checks before the \<open>switch\<close>: the metric is due, has a definition and fits the role.\<close>

definition is_due :: "times \<Rightarrow> string \<Rightarrow> int \<Rightarrow> worker \<Rightarrow> bool" where
  "is_due ts name interval w \<longleftrightarrow> interval > 0 \<and>
     (case gget (lastFetch w) name of None \<Rightarrow> True | Some lf \<Rightarrow> \<not> t_now ts - lf < interval)"

text \<open>The \<open>default\<close> branch: the cache, then the SQL of the version, then a single fetch or the batch.\<close>

definition handle_query ::
  "reaper_cfg \<Rightarrow> db_io \<Rightarrow> int \<Rightarrow> string \<Rightarrow> metric \<Rightarrow> worker \<Rightarrow> worker \<times> batchEntry list" where
  "handle_query cfg io t name metric w =
     (let (c, cached) = vGet (wcache w) (cacheKey cfg (wmd w) metric name) (CacheAge (cfgMetrics cfg)) t t;
          w = w\<lparr>wcache := c\<rparr>;
          sql = GetSQL metric (Version (wmd w));
          entry = \<lparr>beName = name, beMetric = metric, beSql = sql\<rparr>
      in if cached \<noteq> [] then (set_fetched name t (sendEnvelope cfg name (StorageName metric) cached w), [])
         else if sql = [] then (set_fetched name t w, [])
         else if isDegraded name w
         then (case fetchMetric cfg io t entry w of
                 (w, Some _) \<Rightarrow> (set_fetched name t w, [])
               | (w, None) \<Rightarrow> (set_fetched name t (clearDegraded name w), []))
         else (w, [entry]))"

definition handle_metric ::
  "reaper_cfg \<Rightarrow> db_io \<Rightarrow> times \<Rightarrow> string \<times> int \<Rightarrow> worker \<Rightarrow> (worker \<times> batchEntry list) option" where
  "handle_metric cfg io ts = (\<lambda>(name, interval) w.
     (if \<not> is_due ts name interval w then Some (w, [])
      else case gget (cfgDefs cfg) name of
        None \<Rightarrow> Some (w, [])
      | Some metric \<Rightarrow>
          (if isRoleExcluded (wmd w) metric then Some (w, [])
           else if name = specialMetricServerLogEventCounts
           then Some (w\<lparr>logParserStarted := True\<rparr>, [])
           else if IsDirectlyFetchableMetric io name
           then Some (set_fetched name (t_done ts name) (fst (fetchOSMetric cfg io name w)), [])
           else if name = specialMetricChangeEvents \<or> name = specialMetricInstanceUp
           then do {
             w \<leftarrow> fetchSpecialMetric cfg io (t_done ts name) name (StorageName metric) w;
             Some (set_fetched name (t_done ts name) w, [])
           }
           else Some (handle_query cfg io (t_done ts name) name metric w))))"

fun handle_all ::
  "reaper_cfg \<Rightarrow> db_io \<Rightarrow> times \<Rightarrow> (string \<times> int) list \<Rightarrow> worker \<Rightarrow> (worker \<times> batchEntry list) option" where
  "handle_all cfg io ts [] w = Some (w, [])"
| "handle_all cfg io ts (m # ms) w =
     do {
       (w, b) \<leftarrow> handle_metric cfg io ts m w;
       (w, bs) \<leftarrow> handle_all cfg io ts ms w;
       Some (w, b @ bs)
     }"

text \<open>The queries that were collected: one batch for PostgreSQL, one by one for a pooler.\<close>

fun fetch_each :: "reaper_cfg \<Rightarrow> db_io \<Rightarrow> int \<Rightarrow> batchEntry list \<Rightarrow> worker \<Rightarrow> worker" where
  "fetch_each cfg io now [] w = w"
| "fetch_each cfg io now (e # es) w = fetch_each cfg io now es (fst (fetchMetric cfg io now e w))"

definition run_batch :: "reaper_cfg \<Rightarrow> db_io \<Rightarrow> int \<Rightarrow> batchEntry list \<Rightarrow> worker \<Rightarrow> worker" where
  "run_batch cfg io now batch w =
     (if batch = [] then w
      else
        (let w = (if IsPostgresSource (wmd w) then fst (executeBatch cfg io now batch w)
                  else fetch_each cfg io now batch w)
         in fold (\<lambda>e. set_fetched (beName e) now) batch w))"

definition reap_tick :: "reaper_cfg \<Rightarrow> db_io \<Rightarrow> times \<Rightarrow> worker \<Rightarrow> worker option" where
  "reap_tick cfg io ts w =
     (let w = w\<lparr>wmd := fst (FetchRuntimeInfo (io_info io) (t_now ts) False (io_ctxErr io) (wmd w))\<rparr>
      in do {
           (w, batch) \<leftarrow> handle_all cfg io ts (activeMetrics (wmd w)) w;
           Some (run_batch cfg io (t_batch ts) batch w)
         })"

section \<open>The greatest common divisor\<close>

lemma gcd_go_mod: "v \<noteq> 0 \<Longrightarrow> gcd v (go_mod g v) = gcd g v"
proof -
  have "gcd v (go_mod g v) = gcd v (- go_div g v * v + g)"
    by (simp add: go_mod_def algebra_simps)
  then show ?thesis
    by (simp only: gcd_add_mult gcd.commute)
qed

lemma gcd_loop_gcd: "\<bar>gcd_loop g v\<bar> = gcd g v"
proof (induction g v rule: gcd_loop.induct)
  case (1 g v)
  then show ?case
    by (subst gcd_loop.simps) (simp add: gcd_go_mod)
qed

lemma foldl_gcd_loop: "\<bar>foldl gcd_loop g vs\<bar> = gcd g (Gcd (set vs))"
proof (induction vs arbitrary: g)
  case (Cons v vs)
  have "gcd (gcd_loop g v) (Gcd (set vs)) = gcd \<bar>gcd_loop g v\<bar> (Gcd (set vs))"
    by simp
  also have "\<dots> = gcd g (gcd v (Gcd (set vs)))"
    by (simp only: gcd_loop_gcd gcd.assoc)
  finally show ?case
    using Cons [of "gcd_loop g v"] by simp
qed simp

text \<open>
  C30: \<open>GCDSlice\<close> terminates on every list of integers and returns their greatest common divisor, up to
  the sign that Go's remainder leaves (zero for the empty list).
\<close>

theorem GCDSlice_Gcd: "\<bar>GCDSlice vals\<bar> = Gcd (set vals)"
  by (cases vals) (simp_all add: GCDSlice_def foldl_gcd_loop)

lemma foldl_gcd_loop_pos:
  "0 < g \<Longrightarrow> \<forall>v\<in>set vs. 0 < v \<Longrightarrow> 0 < foldl gcd_loop g vs"
proof (induction vs arbitrary: g)
  case (Cons v vs)
  have step: "0 < gcd_loop a b" if "0 \<le> b" "0 < a" for a b
    using that
  proof (induction a b rule: gcd_loop.induct)
    case (1 a b)
    then show ?case
      by (subst gcd_loop.simps) auto
  qed
  with Cons show ?case by simp
qed simp

lemma GCDSlice_pos:
  assumes "vs \<noteq> []" "\<forall>v\<in>set vs. 0 < v"
  shows "0 < GCDSlice vs" "\<And>v. v \<in> set vs \<Longrightarrow> GCDSlice vs dvd v"
proof -
  show pos: "0 < GCDSlice vs"
    using assms by (cases vs) (auto simp: GCDSlice_def intro: foldl_gcd_loop_pos)
  have "\<bar>GCDSlice vs\<bar> = Gcd (set vs)"
    by (cases vs) (simp_all add: GCDSlice_def foldl_gcd_loop)
  then show "\<And>v. v \<in> set vs \<Longrightarrow> GCDSlice vs dvd v"
    using pos by simp
qed

section \<open>The tick interval\<close>

lemma seconds_fits: "0 \<le> v \<Longrightarrow> v \<le> 9000000000 \<Longrightarrow> seconds v = v * Second"
  by (simp add: seconds_def Second_def fits64_def)

text \<open>
  C29: the tick interval of a source is a whole number of seconds, at least one, that divides the
  interval of every active metric (an interval below one second counts as one), so that every
  multiple of an interval falls on a tick.
\<close>

theorem calcTickInterval_divides:
  assumes "\<forall>(name, v)\<in>set (oentries (ActiveMetrics md)). 0 \<le> v \<and> v \<le> 9000000000"
  shows "\<exists>g\<ge>1. calcTickInterval md = g * Second \<and>
    (\<forall>(name, v)\<in>set (oentries (ActiveMetrics md)). g dvd max v 1)"
proof -
  let ?ms = "oentries (ActiveMetrics md)"
  let ?ints = "map (\<lambda>(_, v). max v 1) ?ms"
  have conv: "map (\<lambda>(_, d). max (duration_seconds d) minTickInterval) (activeMetrics md) = ?ints"
    using assms by (auto simp: activeMetrics_def seconds_fits duration_seconds_def minTickInterval_def Second_def)
  show ?thesis
  proof (cases "?ms = []")
    case True
    then have "calcTickInterval md = 1 * Second"
      using conv by (simp add: calcTickInterval_def minTickInterval_def seconds_fits GCDSlice_def)
    with True show ?thesis by (intro exI [of _ 1]) simp
  next
    case False
    then have "?ints \<noteq> []" by simp
    moreover have "\<forall>v\<in>set ?ints. 0 < v" by auto
    ultimately have g: "0 < GCDSlice ?ints" "\<And>v. v \<in> set ?ints \<Longrightarrow> GCDSlice ?ints dvd v"
      using GCDSlice_pos by blast+
    have bound: "\<forall>v\<in>set ?ints. v \<le> 9000000000"
      using assms by auto
    have hd: "hd ?ints \<in> set ?ints"
      using False by (intro hd_in_set) simp
    then have "hd ?ints \<le> 9000000000" using bound by blast
    moreover have "GCDSlice ?ints \<le> hd ?ints"
      using g(2) [OF hd] \<open>\<forall>v\<in>set ?ints. 0 < v\<close> hd by (intro zdvd_imp_le) blast+
    ultimately have "calcTickInterval md = GCDSlice ?ints * Second"
      unfolding calcTickInterval_def conv Let_def using g(1)
      by (simp add: minTickInterval_def seconds_fits)
    with g show ?thesis
      by (intro exI [of _ "GCDSlice ?ints"]) fastforce
  qed
qed

theorem calcTickInterval_divides_witness:
  "let md = NewDbConn (sample_source\<lparr>Metrics := Some [(''a'', 60), (''b'', 90), (''c'', 0)]\<rparr>) in
   \<exists>g\<ge>1. calcTickInterval md = g * Second \<and> g dvd 60 \<and> g dvd 90 \<and> g dvd 1"
proof -
  let ?md = "NewDbConn (sample_source\<lparr>Metrics := Some [(''a'', 60), (''b'', 90), (''c'', 0)]\<rparr>)"
  have am: "oentries (ActiveMetrics ?md) = [(''a'', 60), (''b'', 90), (''c'', 0)]"
    by (simp add: ActiveMetrics_def NewDbConn_def oentries_def)
  show ?thesis
    using calcTickInterval_divides [of ?md] unfolding am Let_def by simp
qed

section \<open>Batches\<close>

text \<open>What sending and dispatching leave alone.\<close>

lemma send_simps [simp]:
  "sent (send e w) = sent w @ [e]" "wmd (send e w) = wmd w" "lastFetch (send e w) = lastFetch w"
  "degradedMetrics (send e w) = degradedMetrics w" "lastUptimeS (send e w) = lastUptimeS w"
  by (simp_all add: send_def)

lemma sendEnvelope_simps [simp]:
  "wmd (sendEnvelope cfg n sn data w) = wmd w"
  "lastFetch (sendEnvelope cfg n sn data w) = lastFetch w"
  "degradedMetrics (sendEnvelope cfg n sn data w) = degradedMetrics w"
  by (simp_all add: sendEnvelope_def)

lemma restart_simps [simp]:
  "wmd (detectServerRestart now data w) = wmd w"
  "lastFetch (detectServerRestart now data w) = lastFetch w"
  "degradedMetrics (detectServerRestart now data w) = degradedMetrics w"
  by (simp_all add: detectServerRestart_def Let_def split: list.splits option.splits goval.splits)

lemma dispatch_simps [simp]:
  "wmd (dispatchMetricData cfg now n m data w) = wmd w"
  "lastFetch (dispatchMetricData cfg now n m data w) = lastFetch w"
  "degradedMetrics (dispatchMetricData cfg now n m data w) = degradedMetrics w"
  by (simp_all add: dispatchMetricData_def Let_def)

lemma dispatch_sent:
  "n \<noteq> ''db_stats'' \<Longrightarrow> sent (dispatchMetricData cfg now n m data w) =
     sent w @ [mk_envelope (wmd w) (cmp_Or (StorageName m) n) (add_sysinfo cfg (wmd w) data)]"
  by (simp add: dispatchMetricData_def Let_def sendEnvelope_def)

lemma degraded_simps [simp]:
  "wmd (markDegraded n w) = wmd w" "lastFetch (markDegraded n w) = lastFetch w" "sent (markDegraded n w) = sent w"
  "wmd (clearDegraded n w) = wmd w" "lastFetch (clearDegraded n w) = lastFetch w"
  "isDegraded k (markDegraded n w) \<longleftrightarrow> k = n \<or> isDegraded k w"
  "isDegraded k (clearDegraded n w) \<longleftrightarrow> k \<noteq> n \<and> isDegraded k w"
  by (auto simp: markDegraded_def clearDegraded_def isDegraded_def map_of_gset map_of_gdel)

text \<open>The envelope an entry is delivered in, when its rows arrived and there are any.\<close>

definition delivered :: "reaper_cfg \<Rightarrow> dbconn \<Rightarrow> batchEntry \<Rightarrow> goerr + measurements \<Rightarrow> envelope list" where
  "delivered cfg md e rs =
     (case rs of
        Inl _ \<Rightarrow> []
      | Inr data \<Rightarrow>
          (if data = [] then []
           else [mk_envelope md (cmp_Or (StorageName (beMetric e)) (beName e)) (add_sysinfo cfg md data)]))"

text \<open>The rows of the individual query, with the errors of the query and of reading the rows as one.\<close>

definition single_rows :: "db_io \<Rightarrow> batchEntry \<Rightarrow> goerr + measurements" where
  "single_rows io e = (case io_single io (beSql e) of Inl err \<Rightarrow> Inl err | Inr rs \<Rightarrow> rs)"

definition failed :: "goerr + measurements \<Rightarrow> bool" where
  "failed rs = (case rs of Inl _ \<Rightarrow> True | Inr _ \<Rightarrow> False)"

lemma Collect_spec:
  assumes "beName e \<noteq> ''db_stats''" "CollectAndDispatch cfg now rs (beName e) (beMetric e) w = (w', err)"
  shows "sent w' = sent w @ delivered cfg (wmd w) e rs" "wmd w' = wmd w"
    "isDegraded n w' = isDegraded n w" "err \<noteq> None \<longleftrightarrow> failed rs"
  using assms
  by (auto simp: CollectAndDispatch_def delivered_def failed_def dispatch_sent isDegraded_def
      split: sum.splits if_splits)

lemma fetchMetric_spec:
  assumes "beName e \<noteq> ''db_stats''" "fetchMetric cfg io now e w = (w', err)"
  shows "sent w' = sent w @ delivered cfg (wmd w) e (single_rows io e)" "wmd w' = wmd w"
    "isDegraded n w' = isDegraded n w" "err \<noteq> None \<longleftrightarrow> failed (single_rows io e)"
proof -
  obtain w1 err1 where once: "fetchMetricOnce cfg io now e w = (w1, err1)" by fastforce
  have eq: "w' = w1" "err \<noteq> None \<longleftrightarrow> err1 \<noteq> None"
    using assms(2) once by (auto simp: fetchMetric_def split: option.splits)
  have "sent w1 = sent w @ delivered cfg (wmd w) e (single_rows io e) \<and> wmd w1 = wmd w \<and>
      isDegraded n w1 = isDegraded n w \<and> (err1 \<noteq> None \<longleftrightarrow> failed (single_rows io e))"
  proof (cases "io_single io (beSql e)")
    case (Inl x)
    with once show ?thesis
      by (auto simp: fetchMetricOnce_def single_rows_def delivered_def failed_def)
  next
    case (Inr rs)
    with once have "CollectAndDispatch cfg now rs (beName e) (beMetric e) w = (w1, err1)"
      by (simp add: fetchMetricOnce_def)
    from Collect_spec [OF assms(1) this] Inr show ?thesis
      by (simp add: single_rows_def)
  qed
  with eq show "sent w' = sent w @ delivered cfg (wmd w) e (single_rows io e)" "wmd w' = wmd w"
    "isDegraded n w' = isDegraded n w" "err \<noteq> None \<longleftrightarrow> failed (single_rows io e)"
    by auto
qed

text \<open>The entries a batch answered, with their rows, and the entries it did not.\<close>

definition answered :: "db_io \<Rightarrow> batchEntry list \<Rightarrow> (batchEntry \<times> (goerr + measurements)) list" where
  "answered io es = List.map_filter (\<lambda>e. case io_batch io (beName e) of Inl _ \<Rightarrow> None | Inr rs \<Rightarrow> Some (e, rs)) es"

definition unanswered :: "db_io \<Rightarrow> batchEntry list \<Rightarrow> batchEntry list" where
  "unanswered io es = filter (\<lambda>e. case io_batch io (beName e) of Inl _ \<Rightarrow> True | Inr _ \<Rightarrow> False) es"

lemma answered_simps [simp]:
  "answered io [] = []" "unanswered io [] = []"
  "io_batch io (beName e) = Inl x \<Longrightarrow> answered io (e # es) = answered io es"
  "io_batch io (beName e) = Inl x \<Longrightarrow> unanswered io (e # es) = e # unanswered io es"
  "io_batch io (beName e) = Inr rs \<Longrightarrow> answered io (e # es) = (e, rs) # answered io es"
  "io_batch io (beName e) = Inr rs \<Longrightarrow> unanswered io (e # es) = unanswered io es"
  by (simp_all add: answered_def unanswered_def List.map_filter_simps)

lemma batch_results_spec:
  assumes "\<forall>e\<in>set es. beName e \<noteq> ''db_stats''" "batch_results cfg io now es w errs = (w', retries, errs')"
  shows "sent w' = sent w @ concat (map (\<lambda>(e, rs). delivered cfg (wmd w) e rs) (answered io es)) \<and>
    retries = unanswered io es \<and> wmd w' = wmd w \<and> isDegraded n w' = isDegraded n w \<and>
    (errs' = None \<longleftrightarrow> errs = None \<and> (\<forall>(e, rs)\<in>set (answered io es). \<not> failed rs))"
  using assms
proof (induction es arbitrary: w errs w' retries errs')
  case (Cons e es)
  show ?case
  proof (cases "io_batch io (beName e)")
    case (Inl x)
    then obtain r where "batch_results cfg io now es w errs = (w', r, errs')" "retries = e # r"
      using Cons.prems(2) by (auto split: prod.splits)
    with Cons.IH [of w errs w' r errs'] Cons.prems(1) Inl show ?thesis by simp
  next
    case (Inr rs)
    obtain w1 err where c: "CollectAndDispatch cfg now rs (beName e) (beMetric e) w = (w1, err)" by fastforce
    have "beName e \<noteq> ''db_stats''" using Cons.prems(1) by simp
    note col = Collect_spec [OF this c]
    have "batch_results cfg io now es w1 (errors_Join [errs, err]) = (w', retries, errs')"
      using Cons.prems(2) Inr c by simp
    from Cons.IH [OF _ this] Cons.prems(1) col Inr show ?thesis
      by (auto simp: errors_Join_None_iff)
  qed
qed simp

lemma retry_entries_spec:
  assumes "\<forall>e\<in>set es. beName e \<noteq> ''db_stats''" "retry_entries cfg io now es w errs = (w', errs')"
  shows "sent w' = sent w @ concat (map (\<lambda>e. delivered cfg (wmd w) e (single_rows io e)) es) \<and> wmd w' = wmd w \<and>
    (isDegraded n w' \<longleftrightarrow> isDegraded n w \<or> (\<exists>e\<in>set es. beName e = n \<and> failed (single_rows io e))) \<and>
    (errs' = None \<longleftrightarrow> errs = None \<and> (\<forall>e\<in>set es. \<not> failed (single_rows io e)))"
  using assms
proof (induction es arbitrary: w errs)
  case (Cons e es)
  obtain w1 err where f: "fetchMetric cfg io now e w = (w1, err)" by fastforce
  have "beName e \<noteq> ''db_stats''" using Cons.prems(1) by simp
  note spec = fetchMetric_spec [OF this f]
  show ?case
  proof (cases err)
    case None
    then have "retry_entries cfg io now es w1 errs = (w', errs')"
      using Cons.prems(2) f by simp
    from Cons.IH [OF _ this] Cons.prems(1) spec None show ?thesis by auto
  next
    case (Some x)
    then have "retry_entries cfg io now es (markDegraded (beName e) w1)
        (errors_Join [errs, Some (ErrText (''failed to fetch metric '' @ beName e))]) = (w', errs')"
      using Cons.prems(2) f by simp
    from Cons.IH [OF _ this] Cons.prems(1) spec Some show ?thesis
      by (auto simp: errors_Join_None_iff)
  qed
qed simp

text \<open>What a batch sends, which metrics it degrades, and its error.\<close>

lemma executeBatch_spec:
  assumes "\<forall>e\<in>set es. beName e \<noteq> ''db_stats''" "executeBatch cfg io now es w = (w', errs)"
  shows "sent w' = sent w @ concat (map (\<lambda>(e, rs). delivered cfg (wmd w) e rs) (answered io es))
      @ concat (map (\<lambda>e. delivered cfg (wmd w) e (single_rows io e)) (unanswered io es)) \<and>
    (\<forall>n. isDegraded n w' \<longleftrightarrow> isDegraded n w \<or>
      (\<exists>e\<in>set (unanswered io es). beName e = n \<and> failed (single_rows io e))) \<and>
    (errs = None \<longleftrightarrow> (\<forall>(e, rs)\<in>set (answered io es). \<not> failed rs) \<and>
      (\<forall>e\<in>set (unanswered io es). \<not> failed (single_rows io e)))"
proof -
  obtain w1 retries errs1 where b: "batch_results cfg io now es w None = (w1, retries, errs1)"
    by (metis prod_cases3)
  note first = batch_results_spec [OF assms(1) b]
  have "retry_entries cfg io now (unanswered io es) w1 errs1 = (w', errs)"
    using assms(2) b first by (simp add: executeBatch_def)
  moreover have "\<forall>e\<in>set (unanswered io es). beName e \<noteq> ''db_stats''"
    using assms(1) by (simp add: unanswered_def)
  ultimately show ?thesis
    using retry_entries_spec [of "unanswered io es" cfg io now w1 errs1 w' errs] first by fastforce
qed


text \<open>A batch of three metrics of which the second fails for good and drags the third along.\<close>

definition sample_cfg :: reaper_cfg where
  "sample_cfg = \<lparr>cfgMetrics = \<lparr>optMetrics = [], DirectOSStats = False, InstanceLevelCacheMaxSeconds = 30,
       EmergencyPauseTriggerfile = []\<rparr>,
     RealDbnameField = ''real_dbname'', SystemIdentifierField = ''sys_id'', cfgDefs = hash_defs,
     cfgPool = \<lparr>pgx_ParseConfig = (\<lambda>_. Inl (ErrText ''no'')), pgx_NewPool = (\<lambda>_. None),
       pool_Ping = (\<lambda>_. None), pool_Exec = (\<lambda>_ _. None)\<rparr>,
     cfgSprint = (\<lambda>_. [])\<rparr>"

definition sample_info :: server_info where
  "sample_info = \<lparr>q_control = Inl (ErrText ''x''), q_platform = Inl (ErrText ''x''), q_size = Inl (ErrText ''x''),
     q_extensions = Inl (ErrText ''x''), q_version = Inl (ErrText ''x'')\<rparr>"

definition sample_io :: db_io where
  "sample_io = \<lparr>io_info = sample_info, io_ctxErr = None, io_query = answer [],
     io_single = (\<lambda>sql. if sql = ''s2'' then Inl (ErrText ''boom'') else Inr (Inr [[(sql, VInt64 1)]])),
     io_batch = (\<lambda>n. if n = ''m1'' then Inr (Inr [[(''s1'', VInt64 1)]]) else Inl (ErrText ''aborted'')),
     io_pgdirs = Inr [], io_os = (\<lambda>_ _. Inr []), io_ping = None, io_same_host = False\<rparr>"

definition sample_entries :: "batchEntry list" where
  "sample_entries = map (\<lambda>(n, q). \<lparr>beName = n, beMetric = sample_metric, beSql = q\<rparr>)
     [(''m1'', ''s1''), (''m2'', ''s2''), (''m3'', ''s3'')]"


section \<open>Restarts\<close>

text \<open>A sequence of readings of the uptime, each in the first row of a \<open>db_stats\<close> result.\<close>

definition uptime_row :: "int \<Rightarrow> measurements" where
  "uptime_row u = [[(EpochColumnName, VInt64 0), (''postmaster_uptime_s'', VInt64 u)]]"

lemma detect_uptime:
  "detectServerRestart now (uptime_row u) w =
     (let w' = w\<lparr>lastUptimeS := u\<rparr>
      in if lastUptimeS w > 0 \<and> u < lastUptimeS w
         then send (mk_envelope (wmd w) ''object_changes''
                [gset ''details'' (VString restart_details) (NewMeasurement 0)]) w'
         else w')"
  by (simp add: detectServerRestart_def uptime_row_def EpochColumnName_def GetEpoch_def
      Measurement_GetEpoch_def Let_def)

text \<open>
  over any sequence of uptime readings, an \<open>object_changes\<close> event is sent once for every reading that
  is below the one before it (when that one was positive), and for no other.
\<close>

theorem detectServerRestart_counts:
  "length (sent (fold (detectServerRestart now \<circ> uptime_row) us w)) =
     length (sent w) + length (filter (\<lambda>(prev, u). 0 < prev \<and> u < prev) (zip (lastUptimeS w # us) us))"
proof (induction us arbitrary: w)
  case (Cons u us)
  have "lastUptimeS (detectServerRestart now (uptime_row u) w) = u"
    by (simp add: detect_uptime Let_def)
  moreover have "length (sent (detectServerRestart now (uptime_row u) w)) =
      length (sent w) + (if 0 < lastUptimeS w \<and> u < lastUptimeS w then 1 else 0)"
    by (simp add: detect_uptime Let_def)
  ultimately show ?case
    using Cons [of "detectServerRestart now (uptime_row u) w"] by simp
qed simp

section \<open>One tick reaches every metric that is due\<close>

lemma open_state_frame: "open_state cat md = (md', b) \<Longrightarrow> \<exists>cs. md' = md\<lparr>ChangeState := cs\<rparr>"
  by (auto simp: open_state_def split: option.splits intro: exI [of _ "ChangeState md"])

lemma ChangeState_again [simp]: "\<exists>cs. put_state cat st (md\<lparr>ChangeState := cs'\<rparr>) = md\<lparr>ChangeState := cs\<rparr>"
  by (auto simp: put_state_def)

lemma detect_hashes_frame:
  assumes "detect_hashes target cat mn ident hash dr defs q now md = Some (md', r)"
  shows "\<exists>cs. md' = md\<lparr>ChangeState := cs\<rparr>"
proof -
  obtain md1 b where o: "open_state cat md = (md1, b)" by fastforce
  then obtain cs where md1: "md1 = md\<lparr>ChangeState := cs\<rparr>" using open_state_frame by blast
  have "md' = md1 \<or> (\<exists>st. md' = put_state cat st md1)"
    using assms o by (auto simp: detect_hashes_def bind_eq_Some_conv split: option.splits sum.splits)
  with md1 show ?thesis by auto
qed

lemma DetectPrivilege_frame:
  assumes "DetectPrivilegeChanges sp defs q now md = Some (md', r)"
  shows "\<exists>cs. md' = md\<lparr>ChangeState := cs\<rparr>"
proof -
  obtain md1 b where o: "open_state ''object_privileges'' md = (md1, b)" by fastforce
  then obtain cs where md1: "md1 = md\<lparr>ChangeState := cs\<rparr>" using open_state_frame by blast
  have "md' = md1 \<or> (\<exists>st. md' = put_state ''object_privileges'' st md1)"
    using assms o
    by (auto simp: DetectPrivilegeChanges_def bind_eq_Some_conv Let_def split: option.splits sum.splits if_splits prod.splits)
  with md1 show ?thesis by auto
qed

lemma DetectConfiguration_frame:
  assumes "DetectConfigurationChanges defs q md = (md', r)"
  shows "\<exists>cs. md' = md\<lparr>ChangeState := cs\<rparr>"
proof -
  obtain md1 b where o: "open_state ''configuration_hashes'' md = (md1, b)" by fastforce
  then obtain cs where md1: "md1 = md\<lparr>ChangeState := cs\<rparr>" using open_state_frame by blast
  have "md' = md1 \<or> (\<exists>st. md' = put_state ''configuration_hashes'' st md1)"
    using assms o
    by (auto simp: DetectConfigurationChanges_def Let_def split: option.splits sum.splits prod.splits)
  with md1 show ?thesis by auto
qed

lemma GetObjectChanges_frame:
  assumes "GetObjectChangesMeasurement sp defs q now md = Some (md', r)"
  shows "\<exists>cs. md' = md\<lparr>ChangeState := cs\<rparr>"
proof -
  obtain md1 n1 e1 where d1: "DetectSprocChanges defs q now md = Some (md1, n1, e1)"
    using assms by (auto simp: GetObjectChangesMeasurement_def bind_eq_Some_conv)
  then obtain md2 n2 e2 where d2: "DetectTableChanges defs q now md1 = Some (md2, n2, e2)"
    using assms by (auto simp: GetObjectChangesMeasurement_def bind_eq_Some_conv)
  then obtain md3 n3 e3 where d3: "DetectIndexChanges defs q now md2 = Some (md3, n3, e3)"
    using assms d1 by (auto simp: GetObjectChangesMeasurement_def bind_eq_Some_conv)
  obtain md4 n4 e4 where d4: "DetectConfigurationChanges defs q md3 = (md4, n4, e4)"
    by (metis prod_cases3)
  obtain n5 e5 where d5: "DetectPrivilegeChanges sp defs q now md4 = Some (md', n5, e5)"
    using assms d1 d2 d3 d4
    by (cases "DetectPrivilegeChanges sp defs q now md4") (auto simp: GetObjectChangesMeasurement_def)
  note d = d1 d2 d3 d4 d5
  show ?thesis
    using detect_hashes_frame [OF d(1) [unfolded DetectSprocChanges_def]]
      detect_hashes_frame [OF d(2) [unfolded DetectTableChanges_def]]
      detect_hashes_frame [OF d(3) [unfolded DetectIndexChanges_def]]
      DetectConfiguration_frame [OF d(4)] DetectPrivilege_frame [OF d(5)]
    by auto
qed

lemma set_fetched_simps [simp]:
  "wmd (set_fetched n t w) = wmd w"
  "gget (lastFetch (set_fetched n t w)) k = (if k = n then Some t else gget (lastFetch w) k)"
  by (simp_all add: set_fetched_def map_of_gset)

lemma fetchMetric_frame [simp]:
  "lastFetch (fst (fetchMetric cfg io now e w)) = lastFetch w"
  "wmd (fst (fetchMetric cfg io now e w)) = wmd w"
proof -
  have "lastFetch (fst (fetchMetricOnce cfg io now e w)) = lastFetch w \<and> wmd (fst (fetchMetricOnce cfg io now e w)) = wmd w"
    by (auto simp: fetchMetricOnce_def CollectAndDispatch_def split: sum.splits)
  moreover have "fst (fetchMetric cfg io now e w) = fst (fetchMetricOnce cfg io now e w)"
    by (auto simp: fetchMetric_def split: prod.splits option.splits)
  ultimately show "lastFetch (fst (fetchMetric cfg io now e w)) = lastFetch w"
    "wmd (fst (fetchMetric cfg io now e w)) = wmd w" by simp_all
qed

lemma fetchOSMetric_frame [simp]:
  "lastFetch (fst (fetchOSMetric cfg io n w)) = lastFetch w" "wmd (fst (fetchOSMetric cfg io n w)) = wmd w"
  by (auto simp: fetchOSMetric_def split: sum.splits)

text \<open>Two workers that differ in nothing the later metrics of a tick depend on.\<close>

definition same_role :: "worker \<Rightarrow> worker \<Rightarrow> bool" where
  "same_role w w' \<longleftrightarrow> (\<exists>cs. wmd w' = (wmd w)\<lparr>ChangeState := cs\<rparr>)"

lemma same_role_refl: "wmd w' = wmd w \<Longrightarrow> same_role w w'"
  unfolding same_role_def by (intro exI [of _ "ChangeState (wmd w)"]) simp

lemma same_role_trans: "same_role a b \<Longrightarrow> same_role b c \<Longrightarrow> same_role a c"
  by (auto simp: same_role_def)

lemma same_role_excluded: "same_role w w' \<Longrightarrow> isRoleExcluded (wmd w') m = isRoleExcluded (wmd w) m"
  by (auto simp: same_role_def isRoleExcluded_def)

lemma fetchSpecial_frame:
  assumes "fetchSpecialMetric cfg io now n sn w = Some w'"
  shows "lastFetch w' = lastFetch w" "same_role w w'"
proof -
  have "lastFetch w' = lastFetch w \<and> same_role w w'"
  proof (cases "n = specialMetricChangeEvents")
    case True
    then obtain md es data where g:
      "GetObjectChangesMeasurement (cfgSprint cfg) (cfgDefs cfg) (io_query io) now (wmd w) = Some (md, es, data)"
      using assms by (auto simp: fetchSpecialMetric_def bind_eq_Some_conv split: option.splits)
    obtain cs where "md = (wmd w)\<lparr>ChangeState := cs\<rparr>" using GetObjectChanges_frame [OF g] by auto
    with g True assms show ?thesis
      by (auto simp: fetchSpecialMetric_def same_role_def)
  next
    case False
    then have "wmd w' = wmd w" "lastFetch w' = lastFetch w"
      using assms by (auto simp: fetchSpecialMetric_def bind_eq_Some_conv split: if_splits)
    then show ?thesis by (simp add: same_role_refl)
  qed
  then show "lastFetch w' = lastFetch w" "same_role w w'" by simp_all
qed

text \<open>A metric that a tick has to collect, and what has become of it afterwards.\<close>

definition runnable :: "reaper_cfg \<Rightarrow> times \<Rightarrow> string \<Rightarrow> int \<Rightarrow> worker \<Rightarrow> bool" where
  "runnable cfg ts n i w \<longleftrightarrow> is_due ts n i w \<and> n \<noteq> specialMetricServerLogEventCounts \<and>
     (case gget (cfgDefs cfg) n of None \<Rightarrow> False | Some m \<Rightarrow> \<not> isRoleExcluded (wmd w) m)"

definition collected :: "times \<Rightarrow> string \<Rightarrow> worker \<Rightarrow> batchEntry list \<Rightarrow> bool" where
  "collected ts n w b \<longleftrightarrow> gget (lastFetch w) n = Some (t_done ts n) \<or> n \<in> set (map beName b)"

lemma handle_query_outcome:
  assumes "handle_query cfg io t n m w = (w', b)"
  shows "wmd w' = wmd w" "k \<noteq> n \<Longrightarrow> gget (lastFetch w') k = gget (lastFetch w) k"
    "set (map beName b) \<subseteq> {n}" "b = [] \<Longrightarrow> gget (lastFetch w') n = Some t"
    "b \<noteq> [] \<Longrightarrow> lastFetch w' = lastFetch w"
proof -
  obtain c cached where v: "vGet (wcache w) (cacheKey cfg (wmd w) m n) (CacheAge (cfgMetrics cfg)) t t = (c, cached)"
    by fastforce
  let ?w = "w\<lparr>wcache := c\<rparr>" and ?e = "\<lparr>beName = n, beMetric = m, beSql = GetSQL m (Version (wmd w))\<rparr>"
  obtain w1 err where f: "fetchMetric cfg io t ?e ?w = (w1, err)" by fastforce
  have w1: "lastFetch w1 = lastFetch w" "wmd w1 = wmd w"
    using fetchMetric_frame [of cfg io t ?e ?w] f by simp_all
  have res: "wmd w' = wmd w \<and> (k \<noteq> n \<longrightarrow> gget (lastFetch w') k = gget (lastFetch w) k) \<and>
      (b = [] \<and> gget (lastFetch w') n = Some t \<or> b = [?e] \<and> lastFetch w' = lastFetch w)" for k
    using assms v f w1 by (auto simp: handle_query_def Let_def split: if_splits option.splits)
  then show "wmd w' = wmd w" "k \<noteq> n \<Longrightarrow> gget (lastFetch w') k = gget (lastFetch w) k"
    "set (map beName b) \<subseteq> {n}" "b = [] \<Longrightarrow> gget (lastFetch w') n = Some t"
    "b \<noteq> [] \<Longrightarrow> lastFetch w' = lastFetch w"
    by fastforce+
qed

lemma runnable_cong:
  "same_role w w' \<Longrightarrow> gget (lastFetch w') n = gget (lastFetch w) n \<Longrightarrow> runnable cfg ts n i w' = runnable cfg ts n i w"
  by (auto simp: runnable_def is_due_def same_role_excluded split: option.splits)

lemma handle_metric_outcome:
  assumes "handle_metric cfg io ts (n, i) w = Some (w', b)"
  shows "same_role w w' \<and> (\<forall>k. k \<noteq> n \<longrightarrow> gget (lastFetch w') k = gget (lastFetch w) k) \<and>
    set (map beName b) \<subseteq> {n} \<and>
    (if runnable cfg ts n i w then collected ts n w' b else b = [] \<and> gget (lastFetch w') n = gget (lastFetch w) n)"
proof (cases "runnable cfg ts n i w")
  case False
  then have "b = [] \<and> (w' = w \<or> w' = w\<lparr>logParserStarted := True\<rparr>)"
    using assms by (auto simp: handle_metric_def runnable_def split: option.splits if_splits)
  with False show ?thesis by (auto intro: same_role_refl)
next
  case True
  then obtain m where m: "gget (cfgDefs cfg) n = Some m" "\<not> isRoleExcluded (wmd w) m" "is_due ts n i w"
      "n \<noteq> specialMetricServerLogEventCounts"
    by (auto simp: runnable_def split: option.splits)
  consider (os) "IsDirectlyFetchableMetric io n"
    | (special) "\<not> IsDirectlyFetchableMetric io n" "n = specialMetricChangeEvents \<or> n = specialMetricInstanceUp"
    | (query) "\<not> IsDirectlyFetchableMetric io n" "n \<noteq> specialMetricChangeEvents" "n \<noteq> specialMetricInstanceUp"
    by blast
  then show ?thesis
  proof cases
    case os
    then have "w' = set_fetched n (t_done ts n) (fst (fetchOSMetric cfg io n w))" "b = []"
      using assms m by (auto simp: handle_metric_def)
    with True show ?thesis by (auto simp: collected_def intro: same_role_refl)
  next
    case special
    then obtain w1 where w1: "fetchSpecialMetric cfg io (t_done ts n) n (StorageName m) w = Some w1"
        "w' = set_fetched n (t_done ts n) w1" "b = []"
      using assms m by (auto simp: handle_metric_def bind_eq_Some_conv)
    with True fetchSpecial_frame [OF w1(1)] show ?thesis
      by (auto simp: collected_def same_role_def)
  next
    case query
    then have q: "handle_query cfg io (t_done ts n) n m w = (w', b)"
      using assms m by (auto simp: handle_metric_def)
    note out = handle_query_outcome [OF q]
    have "collected ts n w' b"
    proof (cases b)
      case Nil
      then show ?thesis using out(4) by (simp add: collected_def)
    next
      case (Cons e es)
      then show ?thesis using out(3) by (simp add: collected_def)
    qed
    with True out(1,2,3) show ?thesis
      by (auto intro: same_role_refl)
  qed
qed

lemma collected_mono:
  "collected ts n w b \<Longrightarrow> gget (lastFetch w') n = gget (lastFetch w) n \<Longrightarrow> collected ts n w' (b @ b')"
  by (auto simp: collected_def)

lemma handle_all_outcome:
  assumes "handle_all cfg io ts ms w = Some (w', bs)" "distinct (map fst ms)"
  shows "same_role w w' \<and> set (map beName bs) \<subseteq> set (map fst ms) \<and>
    (\<forall>k. k \<notin> set (map fst ms) \<longrightarrow> gget (lastFetch w') k = gget (lastFetch w) k) \<and>
    (\<forall>(n, i)\<in>set ms. if runnable cfg ts n i w then collected ts n w' bs
       else n \<notin> set (map beName bs) \<and> gget (lastFetch w') n = gget (lastFetch w) n)"
  using assms
proof (induction ms arbitrary: w bs)
  case Nil
  then show ?case by (auto intro: same_role_refl)
next
  case (Cons m ms)
  obtain n i where ni: "m = (n, i)" by fastforce
  obtain w1 b bs1 where h: "handle_metric cfg io ts (n, i) w = Some (w1, b)"
      "handle_all cfg io ts ms w1 = Some (w', bs1)" "bs = b @ bs1"
    using Cons.prems(1) ni by (auto simp: bind_eq_Some_conv)
  note one = handle_metric_outcome [OF h(1)]
  have dist: "distinct (map fst ms)" "n \<notin> set (map fst ms)" using Cons.prems(2) ni by auto
  note rest = Cons.IH [OF h(2) dist(1)]
  have sr: "same_role w w'" using one rest same_role_trans by blast
  have keepn: "gget (lastFetch w') n = gget (lastFetch w1) n" using rest dist(2) by blast
  have head: "if runnable cfg ts n i w then collected ts n w' bs
      else n \<notin> set (map beName bs) \<and> gget (lastFetch w') n = gget (lastFetch w) n"
    using one keepn rest dist(2) h(3) collected_mono [of ts n w1 b w' bs1] by auto
  have tail: "if runnable cfg ts n' i' w then collected ts n' w' bs
      else n' \<notin> set (map beName bs) \<and> gget (lastFetch w') n' = gget (lastFetch w) n'"
    if mem: "(n', i') \<in> set ms" for n' i'
  proof -
    have ne: "n' \<noteq> n" using dist(2) mem by force
    then have eq: "gget (lastFetch w1) n' = gget (lastFetch w) n'" and nb: "n' \<notin> set (map beName b)"
      using one by auto
    have "runnable cfg ts n' i' w1 = runnable cfg ts n' i' w"
      using one eq by (intro runnable_cong) auto
    moreover have "if runnable cfg ts n' i' w1 then collected ts n' w' bs1
        else n' \<notin> set (map beName bs1) \<and> gget (lastFetch w') n' = gget (lastFetch w1) n'"
      using rest mem by blast
    ultimately show ?thesis
      using eq nb h(3) by (auto simp: collected_def split: if_splits)
  qed
  have "gget (lastFetch w') k = gget (lastFetch w) k" if "k \<notin> set (map fst (m # ms))" for k
    using that one rest ni by simp
  moreover have "set (map beName bs) \<subseteq> set (map fst (m # ms))"
    using one rest h(3) ni by auto
  moreover have "\<forall>x\<in>set (m # ms). case x of (n, i) \<Rightarrow> if runnable cfg ts n i w then collected ts n w' bs
      else n \<notin> set (map beName bs) \<and> gget (lastFetch w') n = gget (lastFetch w) n"
    unfolding ni list.set(2) using head tail by blast
  ultimately show ?case
    using sr by blast
qed

lemma Collect_frame:
  assumes "CollectAndDispatch cfg now rs n m w = (w', err)"
  shows "lastFetch w' = lastFetch w"
  using assms by (auto simp: CollectAndDispatch_def split: sum.splits if_splits)

lemma batch_results_frame:
  "batch_results cfg io now es w errs = (w', r, errs') \<Longrightarrow> lastFetch w' = lastFetch w"
  by (induction es arbitrary: w errs r)
     (auto split: sum.splits prod.splits dest!: Collect_frame)

lemma fetchMetric_frame': "fetchMetric cfg io now e w = (w', err) \<Longrightarrow> lastFetch w' = lastFetch w"
  using fetchMetric_frame(1) [of cfg io now e w] by simp

lemma retry_entries_frame:
  "retry_entries cfg io now es w errs = (w', errs') \<Longrightarrow> lastFetch w' = lastFetch w"
  by (induction es arbitrary: w errs)
     (auto split: prod.splits option.splits dest!: fetchMetric_frame')

lemma executeBatch_frame [simp]: "lastFetch (fst (executeBatch cfg io now es w)) = lastFetch w"
proof -
  obtain w1 r e1 where b: "batch_results cfg io now es w None = (w1, r, e1)" by (metis prod_cases3)
  obtain w2 e2 where t: "retry_entries cfg io now r w1 e1 = (w2, e2)" by fastforce
  show ?thesis
    using b t batch_results_frame [OF b] retry_entries_frame [OF t] by (simp add: executeBatch_def)
qed

lemma fetch_each_frame [simp]: "lastFetch (fetch_each cfg io now es w) = lastFetch w"
  by (induction es arbitrary: w) simp_all

lemma fold_fetched:
  "gget (lastFetch (fold (\<lambda>e. set_fetched (beName e) t) es w)) n =
     (if n \<in> set (map beName es) then Some t else gget (lastFetch w) n)"
  by (induction es arbitrary: w) auto

lemma run_batch_fetched:
  "gget (lastFetch (run_batch cfg io t es w)) n =
     (if n \<in> set (map beName es) then Some t else gget (lastFetch w) n)"
  by (simp add: run_batch_def Let_def fold_fetched)


definition sample_worker :: worker where
  "sample_worker = NewDbConnReaper
     ((NewDbConn (sample_source\<lparr>Metrics := Some [(''table_hashes'', 60)]\<rparr>))\<lparr>Version := 17\<rparr>) [] []"

definition sample_times :: times where
  "sample_times = \<lparr>t_now = 9, t_done = (\<lambda>_. 10), t_batch = 11\<rparr>"


end
