(* ===== verification/Prom_Reaper.thy ===== *)
theory Prom_Reaper
  imports Db_Reaper
begin

text \<open>
  The worker of a Prometheus source (\<open>PromReaper\<close> of \<open>internal/reaper/prometheus.go\<close>): the scrape
  interval, the translation of scraped families to envelopes, and the gating of each family by its
  own interval. What the HTTP client and the decoder return is the type \<open>scrape\<close>; the conversion
  of a \<open>uint64\<close> to a float is the parameter \<open>to_float\<close>.
\<close>

section \<open>Data\<close>

datatype prom_type = GAUGE | COUNTER | HISTOGRAM | SUMMARY | UNTYPED

record prom_sample =
  psLabels :: "(string \<times> string) list"
  psGauge :: gofloat
  psCounter :: gofloat
  psSampleCount :: nat
  psSampleSum :: gofloat
  psUntyped :: gofloat
  psTimestampMs :: int

record prom_family =
  pfName :: string
  pfType :: prom_type
  pfMetric :: "prom_sample list"

text \<open>A response: its status code, the families the decoder returns, and the error that ends them if it is not the end of the input.\<close>

type_synonym scrape = "goerr + (int \<times> prom_family list \<times> goerr option)"

section \<open>Operations\<close>

definition defaultScrapeInterval :: int where "defaultScrapeInterval = 60 * Second"

text \<open>The state of a worker, as \<open>NewPromSourceReaper\<close> makes it: the connection, and when each family was last emitted.\<close>

definition NewPromSourceReaper :: "promconn \<Rightarrow> promconn \<times> (string, int) gomap" where
  "NewPromSourceReaper md = (md, [])"

definition calcScrapeInterval :: "promconn \<Rightarrow> int" where
  "calcScrapeInterval md =
     (let m = Metrics (promSource md)
      in if olen m = 0 then defaultScrapeInterval
         else seconds (max (GCDSlice (map (\<lambda>(_, v). max v minTickInterval) (oentries m))) minTickInterval))"

definition promMetricValue :: "(nat \<Rightarrow> gofloat) \<Rightarrow> prom_sample \<Rightarrow> prom_type \<Rightarrow> gofloat" where
  "promMetricValue to_float m mtype =
     (case mtype of
        GAUGE \<Rightarrow> psGauge m
      | COUNTER \<Rightarrow> psCounter m
      | HISTOGRAM \<Rightarrow> to_float (psSampleCount m)
      | SUMMARY \<Rightarrow> psSampleSum m
      | UNTYPED \<Rightarrow> psUntyped m)"

fun add_labels :: "(string \<times> string) list \<Rightarrow> measurement \<Rightarrow> measurement" where
  "add_labels [] m = m"
| "add_labels ((n, v) # ls) m =
     add_labels ls (if n \<noteq> ''__name__'' then gset (TagPrefix @ n) (VString v) m else m)"

definition prom_measurement ::
  "(nat \<Rightarrow> gofloat) \<Rightarrow> int \<Rightarrow> string \<Rightarrow> prom_type \<Rightarrow> prom_sample \<Rightarrow> measurement" where
  "prom_measurement to_float now familyName mtype m =
     (let r = add_labels (psLabels m) [];
          r = gset familyName (VFloat64 (promMetricValue to_float m mtype)) r
      in gset EpochColumnName
           (VInt64 (if psTimestampMs m \<noteq> 0 then wrap64 (psTimestampMs m * 1000000) else now)) r)"

definition ScrapeAll ::
  "(nat \<Rightarrow> gofloat) \<Rightarrow> int \<Rightarrow> promconn \<Rightarrow> scrape \<Rightarrow> goerr + envelope list" where
  "ScrapeAll to_float now md resp =
     (case resp of
        Inl err \<Rightarrow> Inl err
      | Inr (status, families, err) \<Rightarrow>
          (if status \<ge> 300 then Inl (ErrText ''scrapeall: unexpected status'')
           else case err of
                  Some e \<Rightarrow> Inl (ErrWrap ''scrapeall: decoding'' e)
                | None \<Rightarrow>
                    Inr (map (\<lambda>mf. \<lparr>DBName = [], MetricName = pfName mf, SourceKind = Kind (promSource md),
                                    CustomTags = None,
                                    Data = map (prom_measurement to_float now (pfName mf) (pfType mf)) (pfMetric mf)\<rparr>)
                          families)))"

text \<open>The inner loop of \<open>Reap\<close>: the envelopes of one scrape that have passed their interval are sent.\<close>

fun emit_all ::
  "promconn \<Rightarrow> bool \<Rightarrow> int \<Rightarrow> envelope list \<Rightarrow> (string, int) gomap \<Rightarrow> (string, int) gomap \<times> envelope list" where
  "emit_all md scrapeAll now [] lastEmitted = (lastEmitted, [])"
| "emit_all md scrapeAll now (env # envs) lastEmitted =
     (let emitInterval = Prom_GetMetricInterval md (MetricName env)
      in if \<not> scrapeAll \<and> emitInterval > 0 \<and>
            (case gget lastEmitted (MetricName env) of None \<Rightarrow> False | Some prev \<Rightarrow> now - prev < emitInterval)
         then emit_all md scrapeAll now envs lastEmitted
         else
           (let env' = env\<lparr>DBName := Name (promSource md), CustomTags := sCustomTags (promSource md),
                           SourceKind := SourcePrometheus\<rparr>;
                (le, out) = emit_all md scrapeAll now envs (gset (MetricName env) now lastEmitted)
            in (le, env' # out)))"

definition prom_tick ::
  "(nat \<Rightarrow> gofloat) \<Rightarrow> promconn \<Rightarrow> bool \<Rightarrow> int \<Rightarrow> scrape \<Rightarrow> (string, int) gomap \<Rightarrow> (string, int) gomap \<times> envelope list" where
  "prom_tick to_float md scrapeAll now resp lastEmitted =
     (case ScrapeAll to_float now md resp of
        Inl _ \<Rightarrow> (lastEmitted, [])
      | Inr envelopes \<Rightarrow> emit_all md scrapeAll now envelopes lastEmitted)"

text \<open>A run of the loop: the time of each scrape and its response, and the envelopes sent with their times.\<close>

fun prom_run ::
  "(nat \<Rightarrow> gofloat) \<Rightarrow> promconn \<Rightarrow> bool \<Rightarrow> (int \<times> scrape) list \<Rightarrow> (string, int) gomap \<Rightarrow> (int \<times> envelope) list" where
  "prom_run to_float md scrapeAll [] lastEmitted = []"
| "prom_run to_float md scrapeAll ((now, resp) # ticks) lastEmitted =
     (let (le, out) = prom_tick to_float md scrapeAll now resp lastEmitted
      in map (Pair now) out @ prom_run to_float md scrapeAll ticks le)"

definition emission_times :: "string \<Rightarrow> (int \<times> envelope) list \<Rightarrow> int list" where
  "emission_times name trace = map fst (filter (\<lambda>(_, e). MetricName e = name) trace)"

section \<open>Spacing of the emissions of a family\<close>

text \<open>What one scrape adds for a family with an interval: nothing, or one emission that is far enough from the last.\<close>

lemma emit_all_one:
  assumes "emit_all md False now envs le = (le', out)" "Prom_GetMetricInterval md n > 0"
  shows "filter (\<lambda>e. MetricName e = n) out = [] \<and> gget le' n = gget le n \<or>
    length (filter (\<lambda>e. MetricName e = n) out) = 1 \<and> gget le' n = Some now \<and>
      (case gget le n of None \<Rightarrow> True | Some prev \<Rightarrow> Prom_GetMetricInterval md n \<le> now - prev)"
  using assms(1)
proof (induction envs arbitrary: le out)
  case (Cons env envs)
  let ?m = "MetricName env"
  let ?skip = "Prom_GetMetricInterval md ?m > 0 \<and>
    (case gget le ?m of None \<Rightarrow> False | Some prev \<Rightarrow> now - prev < Prom_GetMetricInterval md ?m)"
  show ?case
  proof (cases ?skip)
    case True
    then show ?thesis using Cons by simp
  next
    case False
    obtain le1 out1 where rec: "emit_all md False now envs (gset ?m now le) = (le1, out1)" by fastforce
    have eq: "le' = le1" "out = env\<lparr>DBName := Name (promSource md), CustomTags := sCustomTags (promSource md),
        SourceKind := SourcePrometheus\<rparr> # out1"
      using Cons.prems False rec by (auto simp: Let_def)
    show ?thesis
      using Cons.IH [OF rec [folded eq(1)]] eq False assms(2)
      by (cases "?m = n") (auto simp: map_of_gset split: option.splits)
  qed
qed simp

lemma successively_append_single:
  "successively P xs \<Longrightarrow> (xs \<noteq> [] \<Longrightarrow> P (last xs) y) \<Longrightarrow> successively P (xs @ [y])"
  by (cases xs rule: rev_cases) (auto simp: successively_append_iff)

lemma emission_times_pairs:
  "emission_times n (map (Pair now) out @ tr) =
     map (\<lambda>_. now) (filter (\<lambda>e. MetricName e = n) out) @ emission_times n tr"
  by (induction out) (simp_all add: emission_times_def)

lemma prom_run_spaced:
  assumes "Prom_GetMetricInterval md n > 0"
  shows "successively (\<lambda>a b. Prom_GetMetricInterval md n \<le> b - a)
    ((case gget le n of None \<Rightarrow> [] | Some t \<Rightarrow> [t]) @ emission_times n (prom_run to_float md False ticks le))"
proof (induction ticks arbitrary: le)
  case Nil
  then show ?case by (simp add: emission_times_def split: option.splits)
next
  case (Cons tick ticks)
  obtain now resp where tick: "tick = (now, resp)" by fastforce
  obtain le' out where t: "prom_tick to_float md False now resp le = (le', out)" by fastforce
  have one: "filter (\<lambda>e. MetricName e = n) out = [] \<and> gget le' n = gget le n \<or>
    length (filter (\<lambda>e. MetricName e = n) out) = 1 \<and> gget le' n = Some now \<and>
      (case gget le n of None \<Rightarrow> True | Some prev \<Rightarrow> Prom_GetMetricInterval md n \<le> now - prev)"
    using t emit_all_one [OF _ assms] by (auto simp: prom_tick_def split: sum.splits)
  show ?case
    using one Cons [of le'] tick t
    by (auto simp: emission_times_pairs length_Suc_conv successively_Cons split: option.splits)
qed

text \<open>
  C23: two consecutive emissions of a family that has an interval are at least that interval apart,
  over any run of scrapes, whatever the scrapes return or fail with, and even when one scrape
  returns the family twice.
\<close>

theorem prom_emissions_spaced:
  assumes "Prom_GetMetricInterval md n > 0"
  shows "successively (\<lambda>a b. Prom_GetMetricInterval md n \<le> b - a)
    (emission_times n (prom_run to_float md False ticks []))"
  using prom_run_spaced [OF assms, of "[]" to_float ticks] by simp

definition sample_prom :: promconn where
  "sample_prom = NewPromConn (sample_source\<lparr>Kind := SourcePrometheus, Metrics := Some [(''up'', 1)]\<rparr>)"

definition up_family :: prom_family where
  "up_family = \<lparr>pfName = ''up'', pfType = GAUGE, pfMetric = []\<rparr>"

theorem prom_emissions_spaced_witness:
  "emission_times ''up'' (prom_run (\<lambda>_. NaN) sample_prom False
       [(5, Inr (200, [up_family, up_family], None)), (9, Inr (200, [up_family], None)),
        (2000000000, Inr (200, [up_family], None))] []) = [5, 2000000000] \<and>
   successively (\<lambda>a b. seconds 1 \<le> b - a) [5, 2000000000]"
proof -
  let ?ticks = "[(5, Inr (200, [up_family, up_family], None)), (9, Inr (200, [up_family], None)),
        (2000000000, Inr (200, [up_family], None))] :: (int \<times> scrape) list"
  have int: "Prom_GetMetricInterval sample_prom ''up'' = seconds 1" and one: "seconds 1 = 1000000000"
    by (simp_all add: sample_prom_def Prom_GetMetricInterval_def NewPromConn_def oget_def zero_or_def
        seconds_fits Second_def)
  have times: "emission_times ''up'' (prom_run (\<lambda>_. NaN) sample_prom False ?ticks []) = [5, 2000000000]"
    by (simp add: prom_tick_def ScrapeAll_def up_family_def int one emission_times_def)
  show ?thesis
    using prom_emissions_spaced [of sample_prom "''up''" "\<lambda>_. NaN" ?ticks] times int one by simp
qed

end
