(* ===== verification/Source_Helpers.thy ===== *)
theory Source_Helpers
  imports Source_Conn
begin

text \<open>
  What the program creates on a monitored server when asked to: missing extensions and helper
  functions (\<open>TryCreateMissingExtensions\<close> and \<open>TryCreateMetricsHelpers\<close> of
  \<open>internal/sources/conn.go\<close>). \<open>slices.BinarySearch\<close> compares strings bytewise. The statements that
  were executed are returned in order; a panic is \<open>None\<close>.
\<close>

section \<open>Binary search\<close>

text \<open>The loop of \<open>slices.BinarySearch\<close> on the half-open range from \<open>i\<close> to \<open>j\<close>.\<close>

function bs_loop :: "string list \<Rightarrow> string \<Rightarrow> nat \<Rightarrow> nat \<Rightarrow> nat" where
  "bs_loop xs target i j =
     (if i < j
      then let h = (i + j) div 2
           in if str_less (xs ! h) target then bs_loop xs target (h + 1) j else bs_loop xs target i h
      else i)"
  by pat_completeness auto
termination
  by (relation "measure (\<lambda>(_, _, i, j). j - i)") auto

declare bs_loop.simps [simp del]

definition BinarySearch :: "string list \<Rightarrow> string \<Rightarrow> bool" where
  "BinarySearch xs target =
     (let i = bs_loop xs target 0 (length xs) in i < length xs \<and> xs ! i = target)"

section \<open>Operations\<close>

text \<open>
  \<open>helper_env\<close>: the list of available extensions (or the error of the query), and the result of
  executing a statement.
\<close>

record helper_env =
  he_available :: "goerr + string list"
  he_Exec :: "string \<Rightarrow> goerr option"

definition create_sql :: "string \<Rightarrow> string" where
  "create_sql ext = ''create extension if not exists '' @ [CHR 0x22] @ ext @ [CHR 0x22]"

text \<open>The loop over the requested extensions: those created, the statements executed, and the joined error.\<close>

fun create_exts ::
  "helper_env \<Rightarrow> (string, int) gomap \<Rightarrow> string list \<Rightarrow> string list \<Rightarrow> goerr option \<Rightarrow>
   string list \<times> string list \<times> goerr option" where
  "create_exts env knownExts avail [] err = ([], [], err)"
| "create_exts env knownExts avail (ext # exts) err =
     (if ghas knownExts ext then create_exts env knownExts avail exts err
      else if \<not> BinarySearch avail ext
      then create_exts env knownExts avail exts
             (errors_Join [err, Some (ErrText (''requested extension '' @ ext @ '' is not available on instance''))])
      else case he_Exec env (create_sql ext) of
             Some e \<Rightarrow>
               (let (c, s, err) = create_exts env knownExts avail exts
                  (errors_Join [err, Some (ErrWrap (''failed to create extension '' @ ext) e)])
                in (c, create_sql ext # s, err))
           | None \<Rightarrow>
               (let (c, s, err) = create_exts env knownExts avail exts err
                in (ext # c, create_sql ext # s, err)))"

definition TryCreateMissingExtensions ::
  "helper_env \<Rightarrow> dbconn \<Rightarrow> string list \<Rightarrow> string \<times> string list \<times> goerr option" where
  "TryCreateMissingExtensions env md extensions =
     (case he_available env of
        Inl e \<Rightarrow> ([], [], Some e)
      | Inr avail \<Rightarrow>
          (let (created, stmts, err) = create_exts env (Extensions md) avail extensions None
           in (Join created '','', stmts, err)))"

text \<open>
  \<open>TryCreateMetricsHelpers\<close>: \<open>maps.Clone\<close> of a \<open>nil\<close> map is \<open>nil\<close>, and inserting an entry into a
  \<open>nil\<close> map panics.
\<close>

definition helper_metrics :: "source \<Rightarrow> (string, int) gomap option" where
  "helper_metrics s =
     (case Metrics s of
        Some m \<Rightarrow> Some (gcopy m (oentries (MetricsStandby s)))
      | None \<Rightarrow> (if olen (MetricsStandby s) = 0 then Some [] else None))"

fun create_helpers ::
  "helper_env \<Rightarrow> (string \<Rightarrow> string) \<Rightarrow> string list \<Rightarrow> goerr option \<Rightarrow> string list \<times> goerr option" where
  "create_helpers env getSQL [] err = ([], err)"
| "create_helpers env getSQL (name # names) err =
     (if getSQL name = [] then create_helpers env getSQL names err
      else
        (let err = (case he_Exec env (getSQL name) of
                      None \<Rightarrow> err
                    | Some e \<Rightarrow> errors_Join [err, Some (ErrWrap (''failed to create helper for metric '' @ name) e)]);
             (s, err) = create_helpers env getSQL names err
         in (getSQL name # s, err)))"

definition TryCreateMetricsHelpers ::
  "helper_env \<Rightarrow> (string \<Rightarrow> string) \<Rightarrow> dbconn \<Rightarrow> (string list \<times> goerr option) option" where
  "TryCreateMetricsHelpers env getSQL md =
     (case helper_metrics (dbSource md) of
        None \<Rightarrow> None
      | Some m \<Rightarrow> Some (create_helpers env getSQL (gkeys m) None))"

section \<open>Binary search finds what is there\<close>

abbreviation ascending :: "string list \<Rightarrow> bool" where
  "ascending \<equiv> sorted_wrt (\<lambda>a b. \<not> str_less b a)"

lemma ascending_below:
  "ascending xs \<Longrightarrow> a \<le> b \<Longrightarrow> b < length xs \<Longrightarrow> str_less (xs ! b) t \<Longrightarrow> str_less (xs ! a) t"
proof -
  assume asc: "ascending xs" and ab: "a \<le> b" "b < length xs" and less: "str_less (xs ! b) t"
  have "a = b \<or> \<not> str_less (xs ! b) (xs ! a)"
    using asc ab sorted_wrt_nth_less [of _ xs a b] by (cases "a = b") auto
  then have "str_less (xs ! a) (xs ! b) \<or> xs ! a = xs ! b"
    using str_less_linear [of "xs ! a" "xs ! b"] by auto
  with less show ?thesis using str_less_trans by auto
qed

text \<open>The loop ends at the first position that is not below the target.\<close>

lemma bs_loop_spec:
  assumes "ascending xs" "i \<le> j" "j \<le> length xs"
    and "\<forall>k<i. str_less (xs ! k) t" "\<forall>k. j \<le> k \<and> k < length xs \<longrightarrow> \<not> str_less (xs ! k) t"
  shows "let r = bs_loop xs t i j in r \<le> length xs \<and> (\<forall>k<r. str_less (xs ! k) t) \<and>
    (\<forall>k. r \<le> k \<and> k < length xs \<longrightarrow> \<not> str_less (xs ! k) t)"
  using assms
proof (induction xs t i j rule: bs_loop.induct)
  case (1 xs t i j)
  show ?case
  proof (cases "i < j")
    case True
    define h where "h = (i + j) div 2"
    have h: "i \<le> h" "h < j" using True by (auto simp: h_def)
    show ?thesis
    proof (cases "str_less (xs ! h) t")
      case less: True
      have "\<forall>k<h + 1. str_less (xs ! k) t"
        using ascending_below [OF 1(3), of _ h t] h 1 less by auto
      then have "let r = bs_loop xs t (h + 1) j in r \<le> length xs \<and> (\<forall>k<r. str_less (xs ! k) t) \<and>
          (\<forall>k. r \<le> k \<and> k < length xs \<longrightarrow> \<not> str_less (xs ! k) t)"
        using 1(1) [OF True h_def less] 1 h by simp
      then show ?thesis
        using True less by (subst bs_loop.simps) (simp add: Let_def h_def)
    next
      case ge: False
      have "\<forall>k. h \<le> k \<and> k < length xs \<longrightarrow> \<not> str_less (xs ! k) t"
        using ascending_below [OF 1(3), of h _ t] ge by blast
      then have "let r = bs_loop xs t i h in r \<le> length xs \<and> (\<forall>k<r. str_less (xs ! k) t) \<and>
          (\<forall>k. r \<le> k \<and> k < length xs \<longrightarrow> \<not> str_less (xs ! k) t)"
        using 1(2) [OF True h_def ge] 1 h by simp
      then show ?thesis
        using True ge by (subst bs_loop.simps) (simp add: Let_def h_def)
    qed
  next
    case False
    then show ?thesis
      using 1 by (subst bs_loop.simps) (auto simp: Let_def)
  qed
qed

lemma BinarySearch_mem:
  assumes "ascending xs"
  shows "BinarySearch xs t \<longleftrightarrow> t \<in> set xs"
proof
  assume "t \<in> set xs"
  then obtain k where k: "k < length xs" "xs ! k = t" by (auto simp: in_set_conv_nth)
  define r where "r = bs_loop xs t 0 (length xs)"
  have spec: "r \<le> length xs" "\<forall>k<r. str_less (xs ! k) t"
      "\<forall>k. r \<le> k \<and> k < length xs \<longrightarrow> \<not> str_less (xs ! k) t"
  proof -
    have "\<forall>k<0. str_less (xs ! k) t" "\<forall>k. length xs \<le> k \<and> k < length xs \<longrightarrow> \<not> str_less (xs ! k) t"
      by auto
    from bs_loop_spec [OF assms le0 order_refl this]
    show "r \<le> length xs" "\<forall>k<r. str_less (xs ! k) t"
        "\<forall>k. r \<le> k \<and> k < length xs \<longrightarrow> \<not> str_less (xs ! k) t"
      unfolding r_def Let_def by blast+
  qed
  have "r \<le> k"
  proof (rule ccontr)
    assume "\<not> r \<le> k"
    then have "str_less (xs ! k) t" using spec(2) by simp
    with k(2) show False by simp
  qed
  then have rl: "r < length xs" using k(1) by simp
  then have "\<not> str_less (xs ! r) t" using spec(3) by blast
  moreover have "\<not> str_less t (xs ! r)"
  proof (cases "r = k")
    case False
    then show ?thesis
      using sorted_wrt_nth_less [OF assms, of r k] \<open>r \<le> k\<close> k by simp
  qed (use k in simp)
  ultimately have "xs ! r = t" using str_less_linear by blast
  with rl show "BinarySearch xs t" by (simp add: BinarySearch_def Let_def r_def)
qed (auto simp: BinarySearch_def Let_def dest: nth_mem)

lemma create_exts_spec:
  assumes "ascending avail" "create_exts env knownExts avail exts err = (created, stmts, err')"
  shows "stmts = map create_sql (filter (\<lambda>x. x \<in> set avail) (filter (\<lambda>x. \<not> ghas knownExts x) exts)) \<and>
    created = filter (\<lambda>x. he_Exec env (create_sql x) = None)
      (filter (\<lambda>x. x \<in> set avail) (filter (\<lambda>x. \<not> ghas knownExts x) exts)) \<and>
    (err' = None \<longleftrightarrow> err = None \<and> set (filter (\<lambda>x. \<not> ghas knownExts x) exts) \<subseteq> set avail \<and>
      (\<forall>x\<in>set (filter (\<lambda>x. x \<in> set avail) (filter (\<lambda>x. \<not> ghas knownExts x) exts)). he_Exec env (create_sql x) = None))"
  using assms(2)
proof (induction exts arbitrary: err created stmts)
  case (Cons x exts)
  show ?case
  proof (cases "ghas knownExts x")
    case True
    then show ?thesis using Cons by auto
  next
    case unknown: False
    show ?thesis
    proof (cases "x \<in> set avail")
      case False
      then have "create_exts env knownExts avail exts
          (errors_Join [err, Some (ErrText (''requested extension '' @ x @ '' is not available on instance''))]) =
            (created, stmts, err')"
        using Cons.prems unknown BinarySearch_mem [OF assms(1)] by simp
      from Cons.IH [OF this] False unknown show ?thesis
        by (simp add: errors_Join_None_iff)
    next
      case True
      show ?thesis
      proof (cases "he_Exec env (create_sql x)")
        case None
        then obtain c st where "create_exts env knownExts avail exts err = (c, st, err')"
            "created = x # c" "stmts = create_sql x # st"
          using Cons.prems unknown True BinarySearch_mem [OF assms(1)] by (auto split: prod.splits)
        with Cons.IH [of err c st] None unknown True show ?thesis by auto
      next
        case (Some e)
        then obtain st where
            "create_exts env knownExts avail exts
               (errors_Join [err, Some (ErrWrap (''failed to create extension '' @ x) e)]) = (created, st, err')"
            "stmts = create_sql x # st"
          using Cons.prems unknown True BinarySearch_mem [OF assms(1)] by (auto split: prod.splits)
        note this(2) and ih = Cons.IH [OF this(1)]
        with Some unknown True show ?thesis by (auto simp: errors_Join_None_iff)
      qed
    qed
  qed
qed simp

text \<open>
  with the available extensions in ascending order, exactly the requested extensions that are
  not installed and are available get a statement, in the order of the request; the error is
  \<open>nil\<close> just when none is unavailable and no statement failed.
\<close>

theorem TryCreateMissingExtensions_exact:
  assumes "he_available env = Inr avail" "ascending avail"
  shows "let todo = filter (\<lambda>x. \<not> ghas (Extensions md) x) exts;
             run = filter (\<lambda>x. x \<in> set avail) todo;
             (created, stmts, err) = TryCreateMissingExtensions env md exts
         in stmts = map create_sql run \<and>
            created = Join (filter (\<lambda>x. he_Exec env (create_sql x) = None) run) '','' \<and>
            (err = None \<longleftrightarrow> set todo \<subseteq> set avail \<and> (\<forall>x\<in>set run. he_Exec env (create_sql x) = None))"
proof -
  obtain created stmts err where c: "create_exts env (Extensions md) avail exts None = (created, stmts, err)"
    by (metis prod_cases3)
  show ?thesis
    using create_exts_spec [OF assms(2) c] assms(1) c by (simp add: TryCreateMissingExtensions_def)
qed

theorem TryCreateMissingExtensions_exact_witness:
  "let env = \<lparr>he_available = Inr [''pg_stat_statements'', ''pgcrypto'', ''uuid-ossp''], he_Exec = (\<lambda>_. None)\<rparr>
   in fst (TryCreateMissingExtensions env (NewDbConn sample_source) [''pgcrypto'', ''plpython'']) = ''pgcrypto''"
proof -
  let ?env = "\<lparr>he_available = Inr [''pg_stat_statements'', ''pgcrypto'', ''uuid-ossp''], he_Exec = (\<lambda>_. None)\<rparr>"
  have asc: "ascending [''pg_stat_statements'', ''pgcrypto'', ''uuid-ossp'']"
    by simp
  show ?thesis
    using TryCreateMissingExtensions_exact [of ?env _ "NewDbConn sample_source" "[''pgcrypto'', ''plpython'']", OF _ asc]
    by (simp add: Let_def NewDbConn_def split: prod.splits)
qed

text \<open>
  creating the helpers of a source crashes the program exactly when the source has no primary
  metrics at all but has standby metrics; otherwise a statement is executed for every metric
  that has an init SQL.
\<close>

theorem TryCreateMetricsHelpers_panics:
  "TryCreateMetricsHelpers env getSQL md = None \<longleftrightarrow>
     Metrics (dbSource md) = None \<and> 0 < olen (MetricsStandby (dbSource md))"
  by (simp add: TryCreateMetricsHelpers_def helper_metrics_def split: option.splits)

end
