(* ===== verification/Sink_Types.thy ===== *)
theory Sink_Types
  imports Metric_Types
begin

text \<open>
  The vocabulary of \<open>internal/sinks\<close>: synchronisation operations (\<open>types.go\<close>) and the options of
  the sinks (\<open>cmdopts.go\<close>).
\<close>

datatype sync_op = InvalidOp | AddOp | DeleteOp | DefineOp

definition SyncOp_String :: "sync_op \<Rightarrow> string" where
  "SyncOp_String s =
     (case s of InvalidOp \<Rightarrow> ''InvalidOp'' | AddOp \<Rightarrow> ''AddOp'' | DeleteOp \<Rightarrow> ''DeleteOp'' | DefineOp \<Rightarrow> ''DefineOp'')"

record sink_opts =
  Sinks :: "string list"
  BatchingDelay :: int
  PartitionInterval :: string
  RetentionInterval :: string
  MaintenanceInterval :: string
  soRealDbnameField :: string
  soSystemIdentifierField :: string

text \<open>
  \<open>msg.Data.GetEpoch()\<close> stores the current time in a first row that has no epoch. The rows are shared, so
  whoever holds the envelope sees the row with that time from then on.
\<close>

definition stamped :: "int \<Rightarrow> envelope \<Rightarrow> envelope" where
  "stamped now msg = msg\<lparr>Data := snd (GetEpoch now (Data msg))\<rparr>"

lemma stamped_simps [simp]:
  "DBName (stamped now e) = DBName e" "MetricName (stamped now e) = MetricName e"
  "SourceKind (stamped now e) = SourceKind e" "CustomTags (stamped now e) = CustomTags e"
  "length (Data (stamped now e)) = length (Data e)" "Data (stamped now e) = [] \<longleftrightarrow> Data e = []"
  by (auto simp: stamped_def GetEpoch_def Let_def split_beta split: list.split)

lemma GetEpoch_stamped [simp]:
  "Data e \<noteq> [] \<Longrightarrow> GetEpoch now' (Data (stamped now e)) = (fst (GetEpoch now (Data e)), Data (stamped now e))"
  by (cases "Data e")
     (auto simp: stamped_def GetEpoch_def Measurement_GetEpoch_def gomap_simps Let_def
           split: option.splits goval.splits)

lemma stamped_stamped [simp]: "stamped now' (stamped now e) = stamped now e"
proof (cases "Data e = []")
  case True
  then show ?thesis by (simp add: stamped_def GetEpoch_def)
next
  case False
  then have "stamped now' (stamped now e) = (stamped now e)\<lparr>Data := Data (stamped now e)\<rparr>"
    using GetEpoch_stamped [of e now' now] by (metis snd_conv stamped_def)
  then show ?thesis by simp
qed

end
