(* ===== verification/Reaper_Loop.thy ===== *)
theory Reaper_Loop
  imports Db_Reaper Prom_Reaper Source_Resolver Source_Helpers Sink_Types
begin

text \<open>
  The main loop (\<open>internal/reaper/reaper.go\<close>, and \<open>LoadMetrics\<close> of \<open>metric.go\<close>): loading sources
  and metric definitions, the sweep over the monitored sources, and the registry of workers.

  Connections are shared by pointer between \<open>monitoredSources\<close>, \<open>prevLoopMonitoredDBs\<close>, the resolver's
  cache and the workers, so they live in a heap \<open>conns\<close> and the lists hold addresses. A worker is a
  number; \<open>cancelFuncs\<close> maps a source name to its worker and \<open>running\<close> maps every worker that was
  not cancelled to the connection it reads from. The channel to the sinks is the list \<open>rch\<close>, the
  calls of \<open>SyncMetric\<close> and \<open>DefineMetrics\<close> are recorded in \<open>syncs\<close> and \<open>defined\<close>, and the
  statements run on monitored servers in \<open>executed\<close>. The sweep runs concurrently in the code; each
  goroutine works on its own connection and on the registry entries of its own name, and the model runs them
  in an arbitrary order. A panic is \<open>None\<close>.
\<close>

section \<open>Data\<close>

record rstate =
  conns :: "nat \<Rightarrow> sconn"
  nextConn :: nat
  monitoredSources :: "nat list"
  prevLoopMonitoredDBs :: "nat list"
  srcRecoveryStatus :: "(string, bool) gomap"
  cancelFuncs :: "(string, nat) gomap"
  running :: "(nat, nat) gomap"
  nextWorker :: nat
  metricDefs :: metrics
  rch :: "envelope list"
  syncs :: "(string \<times> string \<times> sync_op) list"
  defined :: "metrics list"
  executed :: "(nat \<times> string) list"
  ready_flag :: bool

text \<open>
  A connection that resolving returns: a new one, or (from the resolver's last-known-good cache)
  one that was handed out before.
\<close>

datatype rconn = Fresh sconn | Known nat

text \<open>What one iteration meets: files, configuration, discovery, servers, and the clock.\<close>

record loop_env =
  le_opts :: source_opts
  le_mopts :: metrics_opts
  le_stat :: "string \<Rightarrow> bool"
  le_sources :: "goerr + source list"
  le_resolve :: "source list \<Rightarrow> rconn list \<times> string list"
  le_metrics :: "goerr + metrics"
  le_order :: "nat list \<Rightarrow> nat list"
  le_pool :: "nat \<Rightarrow> pool_env"
  le_http :: http_env
  le_info :: "nat \<Rightarrow> server_info"
  le_helper :: "nat \<Rightarrow> helper_env"
  le_ctxErr :: "goerr option"
  le_now :: int

text \<open>Addresses at or above \<open>nextConn\<close> are not in use; they hold the zero source.\<close>

definition zero_source :: source where
  "zero_source = \<lparr>Name = [], Group = [], ConnStr = [], Metrics = None, MetricsStandby = None, Kind = [],
     IncludePattern = [], ExcludePattern = [], PresetMetrics = [], PresetMetricsStandby = [], IsEnabled = False,
     sCustomTags = None, OnlyIfMaster = False\<rparr>"

text \<open>The definitions of metrics and presets shared by all workers.\<close>

definition NewConcurrentMetricDefs :: metrics where [simp]:
  "NewConcurrentMetricDefs = \<lparr>MetricDefs = [], PresetDefs = []\<rparr>"

definition GetMetricDef :: "metrics \<Rightarrow> string \<Rightarrow> metric option" where [simp]:
  "GetMetricDef defs name = gget (MetricDefs defs) name"

definition GetPresetDef :: "metrics \<Rightarrow> string \<Rightarrow> preset option" where [simp]:
  "GetPresetDef defs name = gget (PresetDefs defs) name"

definition Assign :: "metrics \<Rightarrow> metrics \<Rightarrow> metrics" where
  "Assign newDefs defs = defs\<lparr>MetricDefs := MetricDefs newDefs, PresetDefs := PresetDefs newDefs\<rparr>"

lemma Assign_all [simp]: "Assign newDefs defs = newDefs"
  by (simp add: Assign_def)

definition newReaper :: rstate where
  "newReaper = \<lparr>conns = (\<lambda>_. Db (NewDbConn zero_source)), nextConn = 0, monitoredSources = [],
     prevLoopMonitoredDBs = [], srcRecoveryStatus = [], cancelFuncs = [], running = [], nextWorker = 0,
     metricDefs = NewConcurrentMetricDefs, rch = [], syncs = [], defined = [], executed = [], ready_flag = False\<rparr>"

text \<open>\<open>Reap\<close> sets the flag behind \<open>Ready\<close> before it enters its loop.\<close>

definition start_Reap :: "rstate \<Rightarrow> rstate" where
  "start_Reap st = st\<lparr>ready_flag := True\<rparr>"

definition Ready :: "rstate \<Rightarrow> bool" where
  "Ready st = ready_flag st"

abbreviation src_of :: "rstate \<Rightarrow> nat \<Rightarrow> source" where
  "src_of st i \<equiv> GetSource (conns st i)"

abbreviation name_of :: "rstate \<Rightarrow> nat \<Rightarrow> string" where
  "name_of st i \<equiv> Name (src_of st i)"

definition upd_conn :: "nat \<Rightarrow> sconn \<Rightarrow> rstate \<Rightarrow> rstate" where
  "upd_conn i c st = st\<lparr>conns := (conns st)(i := c)\<rparr>"

definition sync :: "string \<Rightarrow> string \<Rightarrow> sync_op \<Rightarrow> rstate \<Rightarrow> rstate" where
  "sync dbname metricName opr st = st\<lparr>syncs := syncs st @ [(dbname, metricName, opr)]\<rparr>"

definition GetMonitoredDatabase :: "rstate \<Rightarrow> nat list \<Rightarrow> string \<Rightarrow> nat option" where
  "GetMonitoredDatabase st mds name = find (\<lambda>i. name_of st i = name) mds"

section \<open>Workers\<close>

definition StartWorker :: "string \<Rightarrow> nat \<Rightarrow> rstate \<Rightarrow> rstate" where
  "StartWorker sourceName i st =
     (if ghas (cancelFuncs st) sourceName then st
      else st\<lparr>cancelFuncs := gset sourceName (nextWorker st) (cancelFuncs st),
              running := gset (nextWorker st) i (running st),
              nextWorker := Suc (nextWorker st)\<rparr>)"

definition cancel_worker :: "string \<Rightarrow> rstate \<Rightarrow> rstate" where
  "cancel_worker sourceName st =
     (case gget (cancelFuncs st) sourceName of
        None \<Rightarrow> st
      | Some wid \<Rightarrow> st\<lparr>cancelFuncs := gdel sourceName (cancelFuncs st), running := gdel wid (running st)\<rparr>)"

definition ShutdownWorker :: "string \<Rightarrow> rstate \<Rightarrow> rstate" where
  "ShutdownWorker sourceName st =
     (let st = cancel_worker sourceName st;
          st = (case GetMonitoredDatabase st (monitoredSources st) sourceName of
                  None \<Rightarrow> st
                | Some i \<Rightarrow> upd_conn i (conn_Close (conns st i)) st)
      in sync sourceName [] DeleteOp st)"

definition WriteInstanceDown :: "int \<Rightarrow> string \<Rightarrow> rstate \<Rightarrow> rstate" where
  "WriteInstanceDown now name st =
     st\<lparr>rch := rch st @ [\<lparr>DBName = name, MetricName = specialMetricInstanceUp, SourceKind = [], CustomTags = None,
          Data = [[(EpochColumnName, VInt64 now), (specialMetricInstanceUp, VInt 0)]]\<rparr>]\<rparr>"

section \<open>The steps of the sweep\<close>

definition FilterSource :: "loop_env \<Rightarrow> dbconn \<Rightarrow> rstate \<Rightarrow> bool \<times> rstate" where
  "FilterSource env md st =
     (let name = Name (dbSource md); DBSizeMB = go_div (ApproxDbSize md) 1048576
      in if IsInRecovery md \<and> OnlyIfMaster (dbSource md) then (True, ShutdownWorker name st)
         else if DBSizeMB \<noteq> 0 \<and> DBSizeMB < MinDbSizeMB (le_opts env) then (True, ShutdownWorker name st)
         else (False, st))"

definition TrackRecoveryStatus :: "dbconn \<Rightarrow> rstate \<Rightarrow> rstate" where
  "TrackRecoveryStatus md st =
     st\<lparr>srcRecoveryStatus := gset (Name (dbSource md)) (IsInRecovery md) (srcRecoveryStatus st)\<rparr>"

definition isSpecialMetric :: "string \<Rightarrow> bool" where
  "isSpecialMetric name \<longleftrightarrow> name = specialMetricChangeEvents \<or> name = specialMetricServerLogEventCounts"

fun sync_metrics :: "string \<Rightarrow> string list \<Rightarrow> rstate \<Rightarrow> rstate" where
  "sync_metrics dbname [] st = st"
| "sync_metrics dbname (metricName # ms) st =
     (case GetMetricDef (metricDefs st) metricName of
        None \<Rightarrow> sync_metrics dbname ms st
      | Some mvp \<Rightarrow>
          sync_metrics dbname ms
            (sync dbname (if \<not> isSpecialMetric metricName \<and> StorageName mvp \<noteq> [] then StorageName mvp else metricName)
               AddOp st))"

definition SyncMetricsToSinks :: "dbconn \<Rightarrow> rstate \<Rightarrow> rstate" where
  "SyncMetricsToSinks md st = sync_metrics (Name (dbSource md)) (gkeys (oentries (ActiveMetrics md))) st"

definition init_sql :: "rstate \<Rightarrow> string \<Rightarrow> string" where
  "init_sql st name = (case GetMetricDef (metricDefs st) name of None \<Rightarrow> [] | Some m \<Rightarrow> InitSQL m)"

definition CreateSourceHelpers :: "loop_env \<Rightarrow> nat \<Rightarrow> dbconn \<Rightarrow> rstate \<Rightarrow> rstate option" where
  "CreateSourceHelpers env i md st =
     (if GetMonitoredDatabase st (prevLoopMonitoredDBs st) (Name (dbSource md)) \<noteq> None then Some st
      else if \<not> IsPostgresSource md \<or> IsInRecovery md then Some st
      else
        (let exts = TryCreateListedExtsIfMissing (le_opts env);
             st = (if exts \<noteq> []
                   then (let (created, stmts, err) = TryCreateMissingExtensions (le_helper env i) md (Split exts '','')
                         in st\<lparr>executed := executed st @ map (Pair i) stmts\<rparr>)
                   else st)
         in if CreateHelpers (le_opts env)
            then (case TryCreateMetricsHelpers (le_helper env i) (init_sql st) md of
                    None \<Rightarrow> None
                  | Some (stmts, err) \<Rightarrow> Some (st\<lparr>executed := executed st @ map (Pair i) stmts\<rparr>))
            else Some st))"

text \<open>The body of the goroutine for one source.\<close>

definition process_source :: "loop_env \<Rightarrow> nat \<Rightarrow> rstate \<Rightarrow> rstate option" where
  "process_source env i st =
     (let name = name_of st i;
          (c, err) = conn_Connect (le_pool env i) (le_http env) (le_opts env) (conns st i);
          st = upd_conn i c st
      in if err \<noteq> None then Some (WriteInstanceDown (le_now env) name st)
         else case c of
                Prom pc \<Rightarrow> Some (StartWorker name i st)
              | Db md \<Rightarrow>
                  (let (md, err) = FetchRuntimeInfo (le_info env i) (le_now env) True (le_ctxErr env) md;
                       st = upd_conn i (Db md) st
                   in if err \<noteq> None then Some st
                      else
                        (let (skip, st) = FilterSource env md st
                         in if skip then Some st
                            else
                              (case CreateSourceHelpers env i md st of
                                 None \<Rightarrow> None
                               | Some st \<Rightarrow>
                                   Some (StartWorker name i
                                     (SyncMetricsToSinks md (TrackRecoveryStatus md st)))))))"

fun sweep :: "loop_env \<Rightarrow> nat list \<Rightarrow> rstate \<Rightarrow> rstate option" where
  "sweep env [] st = Some st"
| "sweep env (i # is) st =
     (case process_source env i st of None \<Rightarrow> None | Some st \<Rightarrow> sweep env is st)"

section \<open>Before and after the sweep\<close>

definition DoesEmergencyTriggerfileExist :: "(string \<Rightarrow> bool) \<Rightarrow> string \<Rightarrow> bool" where
  "DoesEmergencyTriggerfileExist stat fname \<longleftrightarrow> fname \<noteq> [] \<and> stat fname"

fun alloc_conns :: "rconn list \<Rightarrow> rstate \<Rightarrow> nat list \<times> rstate" where
  "alloc_conns [] st = ([], st)"
| "alloc_conns (Known i # rs) st = (let (is, st) = alloc_conns rs st in (i # is, st))"
| "alloc_conns (Fresh c # rs) st =
     (let i = nextConn st;
          (is, st) = alloc_conns rs (st\<lparr>conns := (conns st)(i := c), nextConn := Suc i\<rparr>)
      in (i # is, st))"

text \<open>The loop over the new connections: keep the old one when the source is equal, else stop its worker.\<close>

fun replace_known :: "nat list \<Rightarrow> rstate \<Rightarrow> nat list \<times> rstate" where
  "replace_known [] st = ([], st)"
| "replace_known (i # is) st =
     (case GetMonitoredDatabase st (monitoredSources st) (name_of st i) of
        None \<Rightarrow> (let (is, st) = replace_known is st in (i # is, st))
      | Some j \<Rightarrow>
          (if Source_Equal (src_of st j) (src_of st i)
           then (let (is, st) = replace_known is st in (j # is, st))
           else (let (is, st) = replace_known is (ShutdownWorker (name_of st j) st) in (i # is, st))))"

definition selected_sources :: "source_opts \<Rightarrow> source list \<Rightarrow> source list" where
  "selected_sources opts srcs =
     filter (\<lambda>s. \<not> (\<not> IsEnabled s \<or> Groups opts \<noteq> [] \<and> Group s \<notin> set (Groups opts))) srcs"

definition LoadSources :: "loop_env \<Rightarrow> rstate \<Rightarrow> rstate \<times> goerr option" where
  "LoadSources env st =
     (if DoesEmergencyTriggerfileExist (le_stat env) (EmergencyPauseTriggerfile (le_mopts env))
      then (st\<lparr>monitoredSources := []\<rparr>, None)
      else case le_sources env of
             Inl err \<Rightarrow> (st, Some err)
           | Inr srcs \<Rightarrow>
               (let (resolved, unresolved) = le_resolve env (selected_sources (le_opts env) srcs);
                    st = fold (WriteInstanceDown (le_now env)) unresolved st;
                    (is, st) = alloc_conns resolved st;
                    (is, st) = replace_known is st
                in (st\<lparr>monitoredSources := is\<rparr>, None)))"

definition GetPresetMetrics :: "metrics \<Rightarrow> string \<Rightarrow> intervals" where
  "GetPresetMetrics defs name =
     (case gget (PresetDefs defs) name of None \<Rightarrow> None | Some p \<Rightarrow> presetMetrics p)"

definition apply_preset :: "nat \<Rightarrow> rstate \<Rightarrow> rstate" where
  "apply_preset i st =
     (let src = src_of st i;
          main = (if PresetMetrics src \<noteq> [] then GetPresetMetrics (metricDefs st) (PresetMetrics src) else None);
          standby = (if PresetMetricsStandby src \<noteq> []
                     then GetPresetMetrics (metricDefs st) (PresetMetricsStandby src) else None)
      in if main \<noteq> None \<or> standby \<noteq> None
         then upd_conn i (conn_SetMetricIntervals main standby (conns st i)) st else st)"

definition LoadMetrics :: "loop_env \<Rightarrow> rstate \<Rightarrow> rstate \<times> goerr option" where
  "LoadMetrics env st =
     (case le_metrics env of
        Inl err \<Rightarrow> (st, Some err)
      | Inr newDefs \<Rightarrow>
          (let st = st\<lparr>metricDefs := Assign newDefs (metricDefs st), defined := defined st @ [newDefs]\<rparr>
           in (fold apply_preset (monitoredSources st) st, None)))"

definition cleanup_worker :: "goerr option \<Rightarrow> string \<Rightarrow> rstate \<Rightarrow> rstate" where
  "cleanup_worker ctxErr sourceName st =
     (if ctxErr = None \<and> GetMonitoredDatabase st (monitoredSources st) sourceName \<noteq> None then st
      else ShutdownWorker sourceName st)"

definition cleanup_prev :: "nat \<Rightarrow> rstate \<Rightarrow> rstate" where
  "cleanup_prev i st =
     (if GetMonitoredDatabase st (monitoredSources st) (name_of st i) = None
      then sync (name_of st i) [] DeleteOp (upd_conn i (conn_Close (conns st i)) st) else st)"

definition CleanupRemovedWorkers :: "goerr option \<Rightarrow> rstate \<Rightarrow> rstate" where
  "CleanupRemovedWorkers ctxErr st =
     (let st = fold (cleanup_worker ctxErr) (gkeys (cancelFuncs st)) st;
          st = fold cleanup_prev (prevLoopMonitoredDBs st) st
      in st\<lparr>prevLoopMonitoredDBs := monitoredSources st\<rparr>)"

text \<open>One iteration of the loop of \<open>Reap\<close>; errors of the two loads are logged and the last state is used.\<close>

definition iteration :: "loop_env \<Rightarrow> rstate \<Rightarrow> rstate option" where
  "iteration env st =
     (let st = fst (LoadSources env st);
          st = fst (LoadMetrics env st)
      in case sweep env (le_order env (monitoredSources st)) st of
           None \<Rightarrow> None
         | Some st \<Rightarrow> Some (CleanupRemovedWorkers (le_ctxErr env) st))"

section \<open>The registry of workers\<close>

text \<open>Every registered worker runs, every running worker is registered, once.\<close>

definition reg_ok :: "rstate \<Rightarrow> bool" where
  "reg_ok st \<longleftrightarrow> gwf (cancelFuncs st) \<and> gwf (running st) \<and> distinct (map snd (cancelFuncs st)) \<and>
     set (map snd (cancelFuncs st)) = set (gkeys (running st)) \<and> (\<forall>w\<in>set (gkeys (running st)). w < nextWorker st)"

text \<open>The connection that the worker of a source reads from.\<close>

definition worker_conn :: "rstate \<Rightarrow> string \<Rightarrow> nat option" where
  "worker_conn st n = Option.bind (gget (cancelFuncs st) n) (gget (running st))"

text \<open>
  The contract of a registry: starting a worker for a name that has one changes nothing, stopping
  it forgets it, and no other name is touched.
\<close>

locale worker_registry =
  fixes inv :: "'s \<Rightarrow> bool"
    and worker :: "'s \<Rightarrow> 'n \<Rightarrow> 'c option"
    and start :: "'n \<Rightarrow> 'c \<Rightarrow> 's \<Rightarrow> 's"
    and stop :: "'n \<Rightarrow> 's \<Rightarrow> 's"
  assumes inv_start: "inv st \<Longrightarrow> inv (start n c st)"
    and inv_stop: "inv st \<Longrightarrow> inv (stop n st)"
    and worker_start: "inv st \<Longrightarrow> worker (start n c st) k =
          (if k = n \<and> worker st n = None then Some c else worker st k)"
    and worker_stop: "inv st \<Longrightarrow> worker (stop n st) k = (if k = n then None else worker st k)"
begin

lemma start_twice: "inv st \<Longrightarrow> worker (start n c' (start n c st)) k = worker (start n c st) k"
  by (auto simp: worker_start inv_start)

lemma restart: "inv st \<Longrightarrow> worker (start n c (stop n st)) n = Some c"
  by (simp add: worker_start worker_stop inv_stop)

lemma inv_fold_stop: "inv st \<Longrightarrow> inv (fold stop ns st)"
  by (induction ns arbitrary: st) (auto simp: inv_stop)

lemma worker_fold_stop:
  "inv st \<Longrightarrow> worker (fold stop ns st) k = (if k \<in> set ns then None else worker st k)"
  by (induction ns arbitrary: st) (auto simp: inv_stop worker_stop)

end

lemma in_keys_iff: "k \<in> set (gkeys m) \<longleftrightarrow> ghas m k"
  by (metis domIff dom_gkeys)

lemma worker_conn_None_iff: "reg_ok st \<Longrightarrow> worker_conn st n = None \<longleftrightarrow> \<not> ghas (cancelFuncs st) n"
proof -
  assume ok: "reg_ok st"
  have "ghas (running st) w" if "gget (cancelFuncs st) n = Some w" for w
  proof -
    have "w \<in> set (map snd (cancelFuncs st))"
      using that by (force dest: map_of_SomeD)
    then show ?thesis using ok by (simp add: reg_ok_def in_keys_iff del: set_map)
  qed
  then show ?thesis by (cases "gget (cancelFuncs st) n") (auto simp: worker_conn_def)
qed

lemma gdel_snd:
  assumes "distinct (map snd m)" "gget m k = Some v" "gwf m"
  shows "distinct (map snd (gdel k m))" "set (map snd (gdel k m)) = set (map snd m) - {v}"
proof -
  have del: "gdel k m = filter (\<lambda>(k', _). k' \<noteq> k) m"
    by (induction m) (auto split: prod.splits)
  show "distinct (map snd (gdel k m))"
    using assms(1) unfolding del by (rule distinct_map_filter)
  have mem: "(k, v) \<in> set m" using assms(2) by (rule map_of_SomeD)
  have inj: "inj_on snd (set m)" using assms(1) by (simp add: distinct_map)
  show "set (map snd (gdel k m)) = set (map snd m) - {v}"
  proof (intro equalityI subsetI)
    fix x assume "x \<in> set (map snd (gdel k m))"
    then obtain k' where k': "(k', x) \<in> set m" "k' \<noteq> k" by (auto simp: del)
    then have "x \<noteq> v" using inj_onD [OF inj, of "(k', x)" "(k, v)"] mem by auto
    with k' show "x \<in> set (map snd m) - {v}" by force
  next
    fix x assume "x \<in> set (map snd m) - {v}"
    then obtain k' where k': "(k', x) \<in> set m" "x \<noteq> v" by auto
    then have "k' \<noteq> k" using assms(2,3) by (metis map_of_is_SomeI option.inject)
    with k' show "x \<in> set (map snd (gdel k m))" by (force simp: del)
  qed
qed

lemma gset_new: "gget m k = None \<Longrightarrow> gset k v m = m @ [(k, v)]"
  by (induction m) auto

lemma worker_id_unused: "reg_ok st \<Longrightarrow> gget (running st) (nextWorker st) = None"
  by (metis in_keys_iff reg_ok_def less_irrefl)

lemma StartWorker_reg: "reg_ok st \<Longrightarrow> reg_ok (StartWorker n i st)"
proof (cases "ghas (cancelFuncs st) n")
  case False
  assume ok: "reg_ok st"
  have new: "gget (running st) (nextWorker st) = None"
    using ok by (rule worker_id_unused)
  have "nextWorker st \<notin> set (map snd (cancelFuncs st))"
    using ok by (auto simp: reg_ok_def)
  then show ?thesis
    using False ok new by (auto simp: reg_ok_def StartWorker_def gset_new less_Suc_eq)
qed (simp add: StartWorker_def)

lemma StartWorker_conn:
  assumes "reg_ok st"
  shows "worker_conn (StartWorker n i st) k = (if k = n \<and> worker_conn st n = None then Some i else worker_conn st k)"
proof (cases "ghas (cancelFuncs st) n")
  case True
  then show ?thesis using worker_conn_None_iff [OF assms, of n] by (auto simp: StartWorker_def)
next
  case False
  have "gget (cancelFuncs st) k \<noteq> Some (nextWorker st)"
    using assms by (force simp: reg_ok_def dest: map_of_SomeD)
  then show ?thesis
    using False assms worker_conn_None_iff [OF assms, of n]
    by (auto simp: StartWorker_def worker_conn_def map_of_gset split: option.splits bind_splits)
qed

lemma cancel_reg: "reg_ok st \<Longrightarrow> reg_ok (cancel_worker n st)"
proof (cases "gget (cancelFuncs st) n")
  case (Some w)
  assume ok: "reg_ok st"
  note del = gdel_snd [of "cancelFuncs st" n w]
  have "set (gkeys (gdel w (running st))) = set (gkeys (running st)) - {w}"
    by (simp add: delete_keys)
  with ok Some del show ?thesis
    by (auto simp: reg_ok_def cancel_worker_def)
qed (simp add: cancel_worker_def)

lemma cancel_conn:
  assumes "reg_ok st"
  shows "worker_conn (cancel_worker n st) k = (if k = n then None else worker_conn st k)"
proof (cases "gget (cancelFuncs st) n")
  case None
  then show ?thesis by (auto simp: cancel_worker_def worker_conn_def)
next
  case (Some w)
  have "gget (cancelFuncs st) k \<noteq> Some w" if "k \<noteq> n"
  proof
    assume "gget (cancelFuncs st) k = Some w"
    then have "(k, w) \<in> set (cancelFuncs st)" "(n, w) \<in> set (cancelFuncs st)"
      using Some by (auto dest: map_of_SomeD)
    moreover have "inj_on snd (set (cancelFuncs st))"
      using assms by (simp add: reg_ok_def distinct_map)
    ultimately have "(k, w) = (n, w)" by (intro inj_onD [of snd]) auto
    with that show False by simp
  qed
  with Some show ?thesis
    by (auto simp: cancel_worker_def worker_conn_def map_of_gdel split: bind_splits)
qed

interpretation reg: worker_registry reg_ok worker_conn StartWorker cancel_worker
  by unfold_locales (simp_all add: StartWorker_reg cancel_reg StartWorker_conn cancel_conn)

section \<open>What the steps leave alone\<close>

text \<open>Steps other than allocation keep every name, the list of monitored sources and the bound on addresses.\<close>

definition same_names :: "rstate \<Rightarrow> rstate \<Rightarrow> bool" where
  "same_names st st' \<longleftrightarrow> (\<forall>i. name_of st' i = name_of st i) \<and> monitoredSources st' = monitoredSources st \<and>
     nextConn st' = nextConn st"

lemma same_names_refl [simp]: "same_names st st"
  by (simp add: same_names_def)

lemma same_names_trans: "same_names a b \<Longrightarrow> same_names b c \<Longrightarrow> same_names a c"
  by (simp add: same_names_def)

lemma same_names_GetMonitored:
  "same_names st st' \<Longrightarrow> GetMonitoredDatabase st' mds n = GetMonitoredDatabase st mds n"
  by (simp add: same_names_def GetMonitoredDatabase_def)

lemma upd_conn_simps [simp]:
  "cancelFuncs (upd_conn i c st) = cancelFuncs st" "running (upd_conn i c st) = running st"
  "nextWorker (upd_conn i c st) = nextWorker st" "monitoredSources (upd_conn i c st) = monitoredSources st"
  "nextConn (upd_conn i c st) = nextConn st" "prevLoopMonitoredDBs (upd_conn i c st) = prevLoopMonitoredDBs st"
  "conns (upd_conn i c st) = (conns st)(i := c)" "rch (upd_conn i c st) = rch st"
  by (simp_all add: upd_conn_def)

lemma sync_simps [simp]:
  "cancelFuncs (sync d m p st) = cancelFuncs st" "running (sync d m p st) = running st"
  "nextWorker (sync d m p st) = nextWorker st" "monitoredSources (sync d m p st) = monitoredSources st"
  "nextConn (sync d m p st) = nextConn st" "prevLoopMonitoredDBs (sync d m p st) = prevLoopMonitoredDBs st"
  "conns (sync d m p st) = conns st" "rch (sync d m p st) = rch st"
  by (simp_all add: sync_def)

lemma down_simps [simp]:
  "cancelFuncs (WriteInstanceDown t n st) = cancelFuncs st" "running (WriteInstanceDown t n st) = running st"
  "nextWorker (WriteInstanceDown t n st) = nextWorker st" "monitoredSources (WriteInstanceDown t n st) = monitoredSources st"
  "nextConn (WriteInstanceDown t n st) = nextConn st" "conns (WriteInstanceDown t n st) = conns st"
  "prevLoopMonitoredDBs (WriteInstanceDown t n st) = prevLoopMonitoredDBs st"
  by (simp_all add: WriteInstanceDown_def)

lemma cancel_simps [simp]:
  "conns (cancel_worker n st) = conns st" "monitoredSources (cancel_worker n st) = monitoredSources st"
  "nextConn (cancel_worker n st) = nextConn st" "prevLoopMonitoredDBs (cancel_worker n st) = prevLoopMonitoredDBs st"
  "nextWorker (cancel_worker n st) = nextWorker st"
  by (simp_all add: cancel_worker_def split: option.splits)

lemma StartWorker_simps [simp]:
  "conns (StartWorker n i st) = conns st" "monitoredSources (StartWorker n i st) = monitoredSources st"
  "nextConn (StartWorker n i st) = nextConn st" "prevLoopMonitoredDBs (StartWorker n i st) = prevLoopMonitoredDBs st"
  by (simp_all add: StartWorker_def)

lemma reg_ok_cong:
  "cancelFuncs st' = cancelFuncs st \<Longrightarrow> running st' = running st \<Longrightarrow> nextWorker st' = nextWorker st \<Longrightarrow>
     reg_ok st' = reg_ok st"
  by (simp add: reg_ok_def)

lemma worker_conn_cong:
  "cancelFuncs st' = cancelFuncs st \<Longrightarrow> running st' = running st \<Longrightarrow> worker_conn st' = worker_conn st"
  by (simp add: worker_conn_def fun_eq_iff)

text \<open>Stopping a worker also closes the connection the name is monitored through.\<close>

lemma Shutdown_registry:
  assumes "reg_ok st"
  shows "reg_ok (ShutdownWorker n st)" "worker_conn (ShutdownWorker n st) k = (if k = n then None else worker_conn st k)"
proof -
  have same: "cancelFuncs (ShutdownWorker n st) = cancelFuncs (cancel_worker n st)"
    "running (ShutdownWorker n st) = running (cancel_worker n st)"
    "nextWorker (ShutdownWorker n st) = nextWorker (cancel_worker n st)"
    by (simp_all add: ShutdownWorker_def Let_def split: option.splits)
  show "reg_ok (ShutdownWorker n st)"
    using reg_ok_cong [OF same] assms reg.inv_stop by blast
  show "worker_conn (ShutdownWorker n st) k = (if k = n then None else worker_conn st k)"
    using worker_conn_cong [OF same(1,2)] reg.worker_stop [OF assms] by simp
qed

lemma Shutdown_names [simp]: "same_names st (ShutdownWorker n st)"
  by (simp add: same_names_def ShutdownWorker_def Let_def split: option.splits)

lemma Shutdown_prev [simp]: "prevLoopMonitoredDBs (ShutdownWorker n st) = prevLoopMonitoredDBs st"
  by (simp add: ShutdownWorker_def Let_def split: option.splits)

text \<open>A step that changes neither the registry nor the names.\<close>

definition quiet :: "rstate \<Rightarrow> rstate \<Rightarrow> bool" where
  "quiet st st' \<longleftrightarrow> same_names st st' \<and> cancelFuncs st' = cancelFuncs st \<and> running st' = running st \<and>
     nextWorker st' = nextWorker st \<and> prevLoopMonitoredDBs st' = prevLoopMonitoredDBs st"

lemma quiet_refl [simp]: "quiet st st"
  by (simp add: quiet_def)

lemma quiet_trans: "quiet a b \<Longrightarrow> quiet b c \<Longrightarrow> quiet a c"
  by (auto simp: quiet_def intro: same_names_trans)

lemma quiet_upd: "Name (GetSource c) = name_of st i \<Longrightarrow> quiet st (upd_conn i c st)"
  by (simp add: quiet_def same_names_def)

lemma quiet_sync [simp]: "quiet st (sync d m p st)"
  by (simp add: quiet_def same_names_def)

lemma quiet_down [simp]: "quiet st (WriteInstanceDown t n st)"
  by (simp add: quiet_def same_names_def)

lemma quiet_fold: "(\<And>x st. quiet st (f x st)) \<Longrightarrow> quiet st (fold f xs st)"
  by (induction xs arbitrary: st) (auto intro: quiet_trans)

lemma quiet_sync_metrics: "quiet st (sync_metrics d ms st)"
proof (induction d ms st rule: sync_metrics.induct)
  case (2 d m ms st)
  then show ?case by (cases "gget (MetricDefs (metricDefs st)) m") (auto intro: quiet_trans [OF quiet_sync])
qed simp

lemma quiet_preset: "quiet st (apply_preset i st)"
  by (simp add: apply_preset_def Let_def quiet_upd)

lemma quiet_fields:
  "quiet st (st\<lparr>srcRecoveryStatus := a\<rparr>)" "quiet st (st\<lparr>executed := b\<rparr>)"
  "quiet st (st\<lparr>metricDefs := c, defined := d\<rparr>)"
  by (simp_all add: quiet_def same_names_def)

lemma quiet_helpers: "CreateSourceHelpers env i md st = Some st' \<Longrightarrow> quiet st st'"
  by (auto simp: CreateSourceHelpers_def Let_def quiet_def same_names_def
      split: if_splits option.splits prod.splits)

lemma quiet_LoadMetrics: "quiet st (fst (LoadMetrics env st))"
  by (auto simp: LoadMetrics_def Let_def split: sum.splits
      intro: quiet_trans [OF quiet_fields(3)] quiet_fold quiet_preset)

lemma quiet_worker: "quiet st st' \<Longrightarrow> worker_conn st' = worker_conn st"
  by (rule worker_conn_cong) (auto simp: quiet_def)

lemma quiet_reg: "quiet st st' \<Longrightarrow> reg_ok st' = reg_ok st"
  by (rule reg_ok_cong) (auto simp: quiet_def)

text \<open>
  Processing a source does one of three things to the registry: nothing, stop the worker of this
  source, or start one on this connection.
\<close>

lemma process_source_cases:
  assumes "process_source env i st = Some st'"
  obtains st1 where "quiet st st1"
    "st' = st1 \<or> st' = ShutdownWorker (name_of st i) st1 \<or> st' = StartWorker (name_of st i) i st1"
proof -
  obtain c err where conn: "conn_Connect (le_pool env i) (le_http env) (le_opts env) (conns st i) = (c, err)" by fastforce
  have src: "GetSource c = src_of st i"
    using conn_Connect_source [of "le_pool env i" "le_http env" "le_opts env" "conns st i"] conn by simp
  let ?st = "upd_conn i c st"
  have q: "quiet st ?st" using src by (intro quiet_upd) simp
  show thesis
  proof (cases "err = None")
    case False
    then have "st' = WriteInstanceDown (le_now env) (name_of st i) ?st"
      using assms conn by (simp add: process_source_def Let_def)
    with that q show thesis using quiet_trans quiet_down by blast
  next
    case ok: True
    show thesis
    proof (cases c)
      case (Prom pc)
      then have "st' = StartWorker (name_of st i) i ?st"
        using assms conn ok by (simp add: process_source_def Let_def)
      with that q show thesis by blast
    next
      case (Db md0)
      obtain md err1 where info: "FetchRuntimeInfo (le_info env i) (le_now env) True (le_ctxErr env) md0 = (md, err1)"
        by fastforce
      have md: "dbSource md = src_of st i"
        using FetchRuntimeInfo_source [of "le_info env i" "le_now env" True "le_ctxErr env" md0] info src Db by simp
      let ?st1 = "upd_conn i (Db md) ?st"
      have q1: "quiet st ?st1"
        using md src by (intro quiet_trans [OF q] quiet_upd) simp
      show thesis
      proof (cases "err1 = None")
        case False
        then have "st' = ?st1"
          using assms conn ok Db info by (simp add: process_source_def Let_def)
        with that q1 show thesis by blast
      next
        case ok1: True
        show thesis
        proof (cases "fst (FilterSource env md ?st1)")
          case True
          then have "st' = ShutdownWorker (name_of st i) ?st1"
            using assms conn ok Db info ok1 md
            by (auto simp: process_source_def Let_def FilterSource_def split: if_splits)
          with that q1 show thesis by blast
        next
          case False
          then have filter: "FilterSource env md ?st1 = (False, ?st1)"
            by (auto simp: FilterSource_def Let_def split: if_splits)
          then obtain st2 where h: "CreateSourceHelpers env i md ?st1 = Some st2"
              "st' = StartWorker (name_of st i) i (SyncMetricsToSinks md (TrackRecoveryStatus md st2))"
            using assms conn ok Db info ok1
            by (auto simp: process_source_def Let_def split: option.splits)
          have "quiet st (SyncMetricsToSinks md (TrackRecoveryStatus md st2))"
            unfolding SyncMetricsToSinks_def TrackRecoveryStatus_def
            by (rule quiet_trans [OF q1 quiet_trans [OF quiet_helpers [OF h(1)]
                  quiet_trans [OF quiet_fields(1) quiet_sync_metrics]]])
          with that h(2) show thesis by blast
        qed
      qed
    qed
  qed
qed

section \<open>Workers and monitored sources\<close>

text \<open>
  The invariant between iterations: addresses are in use, names of monitored sources are distinct,
  and every worker reads from the connection its source is monitored through. While an iteration
  runs, sources may have vanished whose workers still run.
\<close>

definition sources_ok :: "rstate \<Rightarrow> bool" where
  "sources_ok st \<longleftrightarrow> reg_ok st \<and> (\<forall>i\<in>set (monitoredSources st). i < nextConn st) \<and>
     distinct (map (name_of st) (monitoredSources st))"

definition mid_ok :: "rstate \<Rightarrow> bool" where
  "mid_ok st \<longleftrightarrow> sources_ok st \<and>
     (\<forall>n i. worker_conn st n = Some i \<longrightarrow> n \<in> set (map (name_of st) (monitoredSources st)) \<longrightarrow>
        i \<in> set (monitoredSources st) \<and> name_of st i = n)"

definition loop_ok :: "rstate \<Rightarrow> bool" where
  "loop_ok st \<longleftrightarrow> sources_ok st \<and>
     (\<forall>n i. worker_conn st n = Some i \<longrightarrow> i \<in> set (monitoredSources st) \<and> name_of st i = n)"

lemma GetMonitored_Some:
  "distinct (map (name_of st) mds) \<Longrightarrow> GetMonitoredDatabase st mds n = Some i \<longleftrightarrow> i \<in> set mds \<and> name_of st i = n"
proof -
  assume dist: "distinct (map (name_of st) mds)"
  have inj: "i = j" if "i \<in> set mds" "j \<in> set mds" "name_of st i = name_of st j" for i j
    using dist that by (auto simp: distinct_map dest: inj_onD)
  show ?thesis
  proof
    assume "GetMonitoredDatabase st mds n = Some i"
    then show "i \<in> set mds \<and> name_of st i = n"
      by (auto simp: GetMonitoredDatabase_def find_Some_iff)
  next
    assume i: "i \<in> set mds \<and> name_of st i = n"
    then obtain j where j: "GetMonitoredDatabase st mds n = Some j"
      by (cases "GetMonitoredDatabase st mds n") (auto simp: GetMonitoredDatabase_def find_None_iff)
    then have "j \<in> set mds" "name_of st j = n"
      by (auto simp: GetMonitoredDatabase_def find_Some_iff)
    with i inj j show "GetMonitoredDatabase st mds n = Some i" by metis
  qed
qed

lemma GetMonitored_None: "GetMonitoredDatabase st mds n = None \<longleftrightarrow> n \<notin> set (map (name_of st) mds)"
  by (auto simp: GetMonitoredDatabase_def find_None_iff)

lemma same_names_sources:
  "same_names st st' \<Longrightarrow> reg_ok st' \<Longrightarrow> sources_ok st \<Longrightarrow> sources_ok st'"
  by (simp add: same_names_def sources_ok_def)

lemma mid_ok_shrink:
  assumes "mid_ok st" "same_names st st'" "reg_ok st'" "\<And>n i. worker_conn st' n = Some i \<Longrightarrow> worker_conn st n = Some i"
  shows "mid_ok st'"
proof -
  have src: "sources_ok st'"
    using assms(1) same_names_sources [OF assms(2,3)] by (simp add: mid_ok_def)
  have "i \<in> set (monitoredSources st') \<and> name_of st' i = n"
    if w: "worker_conn st' n = Some i" and m: "n \<in> set (map (name_of st') (monitoredSources st'))" for n i
  proof -
    have "n \<in> set (map (name_of st) (monitoredSources st))"
      using m assms(2) by (simp add: same_names_def)
    then have "i \<in> set (monitoredSources st) \<and> name_of st i = n"
      using assms(1) assms(4) [OF w] unfolding mid_ok_def by blast
    then show ?thesis using assms(2) by (simp add: same_names_def)
  qed
  with src show ?thesis unfolding mid_ok_def by blast
qed

lemma mid_ok_quiet:
  assumes "mid_ok st" "quiet st st'"
  shows "mid_ok st'"
proof (rule mid_ok_shrink [OF assms(1)])
  show "same_names st st'" using assms(2) by (simp add: quiet_def)
  show "reg_ok st'" using assms quiet_reg by (simp add: mid_ok_def sources_ok_def)
qed (simp add: quiet_worker [OF assms(2)])

lemma mid_ok_Shutdown: "mid_ok st \<Longrightarrow> mid_ok (ShutdownWorker n st)"
  by (rule mid_ok_shrink) (auto simp: mid_ok_def sources_ok_def Shutdown_registry split: if_splits)

lemma mid_ok_Start:
  assumes "mid_ok st" "i \<in> set (monitoredSources st)"
  shows "mid_ok (StartWorker (name_of st i) i st)"
proof -
  have reg: "reg_ok st" using assms by (simp add: mid_ok_def sources_ok_def)
  then have "sources_ok (StartWorker (name_of st i) i st)"
    using assms(1) by (simp add: mid_ok_def sources_ok_def reg.inv_start)
  with assms reg show ?thesis
    by (auto simp: mid_ok_def reg.worker_start split: if_splits)
qed

lemma mid_ok_process:
  assumes "mid_ok st" "i \<in> set (monitoredSources st)" "process_source env i st = Some st'"
  shows "mid_ok st' \<and> same_names st st' \<and> prevLoopMonitoredDBs st' = prevLoopMonitoredDBs st"
proof -
  obtain st1 where st1: "quiet st st1"
      "st' = st1 \<or> st' = ShutdownWorker (name_of st i) st1 \<or> st' = StartWorker (name_of st i) i st1"
    using process_source_cases [OF assms(3)] by blast
  have ok: "mid_ok st1" using assms(1) st1(1) by (rule mid_ok_quiet)
  have names: "same_names st st1" "name_of st1 i = name_of st i" "i \<in> set (monitoredSources st1)"
    "prevLoopMonitoredDBs st1 = prevLoopMonitoredDBs st"
    using st1(1) assms(2) by (auto simp: quiet_def same_names_def)
  have "same_names st1 (StartWorker (name_of st i) i st1)"
    by (simp add: same_names_def)
  with st1(2) ok names mid_ok_Shutdown mid_ok_Start [OF ok names(3)] same_names_trans Shutdown_names
  show ?thesis by (metis Shutdown_prev StartWorker_simps(4))
qed

lemma mid_ok_sweep:
  assumes "mid_ok st" "set is \<subseteq> set (monitoredSources st)" "sweep env is st = Some st'"
  shows "mid_ok st' \<and> same_names st st' \<and> prevLoopMonitoredDBs st' = prevLoopMonitoredDBs st"
  using assms
proof (induction "is" arbitrary: st)
  case (Cons i "is")
  obtain st1 where p: "process_source env i st = Some st1" "sweep env is st1 = Some st'"
    using Cons.prems(3) by (auto split: option.splits)
  have one: "mid_ok st1 \<and> same_names st st1 \<and> prevLoopMonitoredDBs st1 = prevLoopMonitoredDBs st"
    using mid_ok_process [OF Cons.prems(1) _ p(1)] Cons.prems(2) by simp
  then have "set is \<subseteq> set (monitoredSources st1)"
    using Cons.prems(2) by (simp add: same_names_def)
  with Cons.IH p(2) one same_names_trans show ?case by metis
qed simp

fun rname :: "rstate \<Rightarrow> rconn \<Rightarrow> string" where
  "rname st (Fresh c) = Name (GetSource c)"
| "rname st (Known i) = name_of st i"

lemma alloc_conns_spec:
  assumes "alloc_conns rs st = (is, st')" "\<forall>i. Known i \<in> set rs \<longrightarrow> i < nextConn st"
  shows "cancelFuncs st' = cancelFuncs st \<and> running st' = running st \<and> nextWorker st' = nextWorker st \<and>
    monitoredSources st' = monitoredSources st \<and> prevLoopMonitoredDBs st' = prevLoopMonitoredDBs st \<and>
    nextConn st \<le> nextConn st' \<and> (\<forall>i<nextConn st. conns st' i = conns st i) \<and>
    (\<forall>i\<in>set is. i < nextConn st') \<and> map (name_of st') is = map (rname st) rs"
  using assms
proof (induction rs st arbitrary: "is" rule: alloc_conns.induct)
  case (2 i rs st)
  obtain is1 where rec: "alloc_conns rs st = (is1, st')" "is = i # is1"
    using "2.prems"(1) by (auto split: prod.splits)
  have "i < nextConn st" using "2.prems"(2) by simp
  with "2.IH" [OF rec(1)] "2.prems"(2) rec(2) show ?case by auto
next
  case (3 c rs st)
  let ?st = "st\<lparr>conns := (conns st)(nextConn st := c), nextConn := Suc (nextConn st)\<rparr>"
  obtain is1 where rec: "alloc_conns rs ?st = (is1, st')" "is = nextConn st # is1"
    using "3.prems"(1) by (auto simp: Let_def split: prod.splits)
  have "\<forall>i. Known i \<in> set rs \<longrightarrow> i < nextConn ?st" using "3.prems"(2) by (simp add: less_SucI)
  note ih = "3.IH" [OF refl rec(1) this]
  have "rname ?st r = rname st r" if "r \<in> set rs" for r
  proof (cases r)
    case (Known k)
    then have "k < nextConn st" using that "3.prems"(2) by simp
    with Known show ?thesis by simp
  qed simp
  then have "map (rname ?st) rs = map (rname st) rs" by simp
  with ih rec(2) show ?case by (auto simp: less_Suc_eq)
qed simp

text \<open>
  The loop that keeps old connections: the names are those of the new list, and a worker that
  survives reads from a connection of the list when its source is in it.
\<close>

lemma replace_known_spec:
  assumes "replace_known is st = (is', st')" "reg_ok st" "distinct (map (name_of st) is)"
    and "distinct (map (name_of st) (monitoredSources st))"
    and "\<forall>n i. worker_conn st n = Some i \<longrightarrow> i \<in> set (monitoredSources st) \<and> name_of st i = n"
  shows "same_names st st' \<and> reg_ok st' \<and> prevLoopMonitoredDBs st' = prevLoopMonitoredDBs st \<and>
    map (name_of st) is' = map (name_of st) is \<and> set is' \<subseteq> set is \<union> set (monitoredSources st) \<and>
    (\<forall>n i. worker_conn st' n = Some i \<longrightarrow> worker_conn st n = Some i \<and>
       (n \<in> set (map (name_of st) is) \<longrightarrow> i \<in> set is'))"
  using assms
proof (induction "is" arbitrary: st is')
  case (Cons i "is")
  let ?n = "name_of st i"
  have dist: "distinct (map (name_of st) is)" "?n \<notin> set (map (name_of st) is)" using Cons.prems(3) by auto
  show ?case
  proof (cases "GetMonitoredDatabase st (monitoredSources st) ?n")
    case None
    then obtain is1 where rec: "replace_known is st = (is1, st')" "is' = i # is1"
      using Cons.prems(1) by (auto split: prod.splits)
    have "worker_conn st ?n = None"
    proof (cases "worker_conn st ?n")
      case (Some k)
      then have "k \<in> set (monitoredSources st)" "name_of st k = ?n" using Cons.prems(5) by blast+
      then have "?n \<in> name_of st ` set (monitoredSources st)"
        by (intro image_eqI [where x = k]) simp_all
      then have "?n \<in> set (map (name_of st) (monitoredSources st))" by simp
      with None show ?thesis using GetMonitored_None [of st "monitoredSources st" ?n] by blast
    qed
    with Cons.IH [OF rec(1) Cons.prems(2) dist(1) Cons.prems(4,5)] rec(2) show ?thesis by fastforce
  next
    case (Some j)
    then have j: "j \<in> set (monitoredSources st)" "name_of st j = ?n"
      using GetMonitored_Some [OF Cons.prems(4)] by auto
    show ?thesis
    proof (cases "Source_Equal (src_of st j) (src_of st i)")
      case True
      then obtain is1 where rec: "replace_known is st = (is1, st')" "is' = j # is1"
        using Cons.prems(1) Some by (auto split: prod.splits)
      have "k = j" if "worker_conn st ?n = Some k" for k
        using that Cons.prems(4,5) j by (metis GetMonitored_Some option.inject)
      with Cons.IH [OF rec(1) Cons.prems(2) dist(1) Cons.prems(4,5)] rec(2) j show ?thesis by fastforce
    next
      case False
      let ?st = "ShutdownWorker ?n st"
      obtain is1 where rec: "replace_known is ?st = (is1, st')" "is' = i # is1"
        using Cons.prems(1) Some False j(2) by (auto split: prod.splits)
      have names: "same_names st ?st" by simp
      then have nm: "name_of ?st = name_of st" "monitoredSources ?st = monitoredSources st"
        by (auto simp: same_names_def)
      note reg = Shutdown_registry [OF Cons.prems(2)]
      have ih: "same_names ?st st' \<and> reg_ok st' \<and> prevLoopMonitoredDBs st' = prevLoopMonitoredDBs ?st \<and>
          map (name_of ?st) is1 = map (name_of ?st) is \<and> set is1 \<subseteq> set is \<union> set (monitoredSources ?st) \<and>
          (\<forall>n i. worker_conn st' n = Some i \<longrightarrow> worker_conn ?st n = Some i \<and>
             (n \<in> set (map (name_of ?st) is) \<longrightarrow> i \<in> set is1))"
        using dist(1) Cons.prems(4,5) by (intro Cons.IH [OF rec(1)]) (simp_all add: nm reg names [unfolded same_names_def])
      have workers: "worker_conn st n = Some k \<and> (n \<in> set (map (name_of st) (i # is)) \<longrightarrow> k \<in> set is')"
        if w: "worker_conn st' n = Some k" for n k
      proof -
        have "worker_conn ?st n = Some k" "n \<in> set (map (name_of st) is) \<longrightarrow> k \<in> set is1"
          using ih w unfolding nm by blast+
        moreover from this(1) have "n \<noteq> ?n" "worker_conn st n = Some k"
          using reg(2) by (auto split: if_splits)
        ultimately show ?thesis using rec(2) by auto
      qed
      have "same_names st st'" "prevLoopMonitoredDBs st' = prevLoopMonitoredDBs st"
        using ih same_names_trans [OF names] by simp_all
      moreover have "map (name_of st) is' = map (name_of st) (i # is)"
          "set is' \<subseteq> set (i # is) \<union> set (monitoredSources st)" "reg_ok st'"
        using ih rec(2) unfolding nm by auto
      ultimately show ?thesis using workers by blast
    qed
  qed
qed simp

text \<open>The sources that discovery returns to an iteration.\<close>

definition resolved_now :: "loop_env \<Rightarrow> rconn list" where
  "resolved_now env =
     (case le_sources env of
        Inl _ \<Rightarrow> []
      | Inr srcs \<Rightarrow> fst (le_resolve env (selected_sources (le_opts env) srcs)))"

text \<open>
  What is assumed of an iteration: resolved sources have distinct names, connections that come from
  the resolver's cache were handed out before, and the sweep visits every monitored source once.
\<close>

definition env_ok :: "loop_env \<Rightarrow> rstate \<Rightarrow> bool" where
  "env_ok env st \<longleftrightarrow> distinct (map (rname st) (resolved_now env)) \<and>
     (\<forall>i. Known i \<in> set (resolved_now env) \<longrightarrow> i < nextConn st) \<and> (\<forall>xs. mset (le_order env xs) = mset xs)"

lemma LoadSources_mid_ok:
  assumes "loop_ok st" "env_ok env st"
  shows "mid_ok (fst (LoadSources env st)) \<and>
    prevLoopMonitoredDBs (fst (LoadSources env st)) = prevLoopMonitoredDBs st"
proof (cases "DoesEmergencyTriggerfileExist (le_stat env) (EmergencyPauseTriggerfile (le_mopts env))")
  case True
  then show ?thesis
    using assms(1) by (auto simp: LoadSources_def mid_ok_def loop_ok_def sources_ok_def reg_ok_def)
next
  case no_pause: False
  show ?thesis
  proof (cases "le_sources env")
    case (Inl e)
    then show ?thesis
      using assms(1) no_pause by (auto simp: LoadSources_def mid_ok_def loop_ok_def)
  next
    case (Inr srcs)
    obtain rs failed_names where res: "le_resolve env (selected_sources (le_opts env) srcs) = (rs, failed_names)"
      by fastforce
    define st0 where "st0 = fold (WriteInstanceDown (le_now env)) failed_names st"
    have q: "quiet st st0" unfolding st0_def by (rule quiet_fold) simp
    obtain is1 st1 where al: "alloc_conns rs st0 = (is1, st1)" by fastforce
    obtain is2 st2 where rk: "replace_known is1 st1 = (is2, st2)" by fastforce
    have load: "fst (LoadSources env st) = st2\<lparr>monitoredSources := is2\<rparr>"
      using no_pause Inr res al rk by (simp add: LoadSources_def st0_def)
    have now: "resolved_now env = rs" using Inr res by (simp add: resolved_now_def)
    have names0: "name_of st0 = name_of st" "nextConn st0 = nextConn st" "monitoredSources st0 = monitoredSources st"
      using q by (auto simp: quiet_def same_names_def)
    have rn: "rname st0 = rname st" using names0(1) by (intro ext) (metis rname.elims rname.simps)
    have "\<forall>i. Known i \<in> set rs \<longrightarrow> i < nextConn st0"
      using assms(2) by (simp add: env_ok_def now names0)
    note a = alloc_conns_spec [OF al this]
    have old: "\<forall>i\<in>set (monitoredSources st). i < nextConn st" "distinct (map (name_of st) (monitoredSources st))"
      using assms(1) by (auto simp: loop_ok_def sources_ok_def)
    have keep: "name_of st1 i = name_of st i" if "i < nextConn st" for i
      using a that names0 by (metis fun_upd_def)
    have reg1: "reg_ok st1" and wc1: "worker_conn st1 = worker_conn st"
      using assms(1) a q reg_ok_cong [of st1 st0] worker_conn_cong [of st1 st0] quiet_reg [OF q] quiet_worker [OF q]
      by (auto simp: loop_ok_def sources_ok_def)
    have m1: "monitoredSources st1 = monitoredSources st" using a names0 by simp
    have d1: "distinct (map (name_of st1) is1)"
      using a assms(2) by (simp add: env_ok_def now rn)
    have map1: "map (name_of st1) (monitoredSources st) = map (name_of st) (monitoredSources st)"
      using old(1) keep by simp
    have w1: "\<forall>n i. worker_conn st1 n = Some i \<longrightarrow> i \<in> set (monitoredSources st1) \<and> name_of st1 i = n"
      using assms(1) old(1) keep by (auto simp: wc1 m1 loop_ok_def)
    note r = replace_known_spec [OF rk reg1 d1 _ w1]
    have r': "same_names st1 st2" "reg_ok st2" "prevLoopMonitoredDBs st2 = prevLoopMonitoredDBs st1"
        "map (name_of st1) is2 = map (name_of st1) is1" "set is2 \<subseteq> set is1 \<union> set (monitoredSources st1)"
      and rw: "\<And>n i. worker_conn st2 n = Some i \<Longrightarrow> worker_conn st1 n = Some i \<and>
         (n \<in> set (map (name_of st1) is1) \<longrightarrow> i \<in> set is2)"
      using r old(2) by (simp_all add: m1 map1)
    have n2: "name_of st2 = name_of st1" "nextConn st2 = nextConn st1"
      using r'(1) by (auto simp: same_names_def)
    have bound: "\<forall>i\<in>set is2. i < nextConn st2"
      using r'(5) a old(1) names0 by (fastforce simp: n2 m1)
    have reg2: "reg_ok (st2\<lparr>monitoredSources := is2\<rparr>)"
      using r'(2) reg_ok_cong [of "st2\<lparr>monitoredSources := is2\<rparr>" st2] by simp
    have wc2: "worker_conn (st2\<lparr>monitoredSources := is2\<rparr>) = worker_conn st2"
      by (rule worker_conn_cong) simp_all
    have "mid_ok (st2\<lparr>monitoredSources := is2\<rparr>)"
    proof -
      have "i \<in> set is2 \<and> name_of st1 i = n"
        if "worker_conn st2 n = Some i" "n \<in> set (map (name_of st1) is2)" for n i
        using rw [OF that(1)] w1 that(2) unfolding r'(4) by blast
      with reg2 bound d1 r'(4) show ?thesis
        unfolding mid_ok_def sources_ok_def using r'(1) by (simp add: n2 wc2 same_names_def)
    qed
    then show ?thesis
      using load r'(3) a q by (simp add: quiet_def)
  qed
qed

text \<open>After the cleanup every worker that is left belongs to a monitored source.\<close>

lemma cleanup_fold:
  assumes "mid_ok st"
  shows "mid_ok (fold (cleanup_worker ctxErr) ns st) \<and> same_names st (fold (cleanup_worker ctxErr) ns st) \<and>
    prevLoopMonitoredDBs (fold (cleanup_worker ctxErr) ns st) = prevLoopMonitoredDBs st \<and>
    (\<forall>n i. worker_conn (fold (cleanup_worker ctxErr) ns st) n = Some i \<longrightarrow> worker_conn st n = Some i \<and>
       (n \<in> set ns \<longrightarrow> ctxErr = None \<and> n \<in> set (map (name_of st) (monitoredSources st))))"
  using assms
proof (induction ns arbitrary: st)
  case (Cons k ns)
  let ?st = "cleanup_worker ctxErr k st"
  have reg: "reg_ok st" using Cons.prems by (simp add: mid_ok_def sources_ok_def)
  have one: "mid_ok ?st" "same_names st ?st" "prevLoopMonitoredDBs ?st = prevLoopMonitoredDBs st"
    using Cons.prems by (simp_all add: cleanup_worker_def mid_ok_Shutdown)
  have wc: "worker_conn ?st n = Some i \<Longrightarrow> worker_conn st n = Some i \<and>
      (n = k \<longrightarrow> ctxErr = None \<and> k \<in> set (map (name_of st) (monitoredSources st)))" for n i
    using GetMonitored_None [of st "monitoredSources st" k]
    by (auto simp: cleanup_worker_def Shutdown_registry [OF reg] split: if_splits)
  have nm: "map (name_of ?st) (monitoredSources ?st) = map (name_of st) (monitoredSources st)"
    using one(2) by (simp add: same_names_def)
  from Cons.IH [OF one(1)] wc one(2,3) same_names_trans show ?case
    unfolding nm fold_simps list.set(2) by (metis (no_types, lifting) insert_iff)
qed simp

lemma quiet_cleanup_prev: "quiet st (cleanup_prev i st)"
proof (cases "GetMonitoredDatabase st (monitoredSources st) (name_of st i) = None")
  case True
  have "quiet st (upd_conn i (conn_Close (conns st i)) st)" by (rule quiet_upd) simp
  then have "quiet st (sync (name_of st i) [] DeleteOp (upd_conn i (conn_Close (conns st i)) st))"
    using quiet_sync quiet_trans by blast
  with True show ?thesis by (simp add: cleanup_prev_def)
qed (auto simp: cleanup_prev_def)

lemma Cleanup_loop_ok:
  assumes "mid_ok st"
  shows "loop_ok (CleanupRemovedWorkers ctxErr st)"
    and "ctxErr \<noteq> None \<or> monitoredSources st = [] \<Longrightarrow> worker_conn (CleanupRemovedWorkers ctxErr st) n = None"
proof -
  let ?ns = "gkeys (cancelFuncs st)"
  let ?st1 = "fold (cleanup_worker ctxErr) ?ns st"
  let ?st2 = "fold cleanup_prev (prevLoopMonitoredDBs ?st1) ?st1"
  have eq: "CleanupRemovedWorkers ctxErr st = ?st2\<lparr>prevLoopMonitoredDBs := monitoredSources ?st2\<rparr>"
    by (simp add: CleanupRemovedWorkers_def Let_def)
  note c = cleanup_fold [OF assms, of ctxErr ?ns]
  have q: "quiet ?st1 ?st2" by (rule quiet_fold) (rule quiet_cleanup_prev)
  have ok2: "mid_ok ?st2" using c q mid_ok_quiet by blast
  have names: "same_names st ?st2" using c q same_names_trans by (auto simp: quiet_def)
  have workers: "ctxErr = None \<and> n \<in> set (map (name_of st) (monitoredSources st))"
    if w: "worker_conn ?st2 n = Some i" for n i
  proof -
    have w1: "worker_conn ?st1 n = Some i" using w quiet_worker [OF q] by simp
    then have "worker_conn st n = Some i" using c by blast
    then have "n \<in> set ?ns" by (auto simp: worker_conn_def in_keys_iff simp del: set_map split: bind_splits)
    with w1 c show ?thesis by blast
  qed
  have wc: "worker_conn (CleanupRemovedWorkers ctxErr st) = worker_conn ?st2"
    unfolding eq by (rule worker_conn_cong) simp_all
  have "sources_ok (?st2\<lparr>prevLoopMonitoredDBs := monitoredSources ?st2\<rparr>)"
    using ok2 by (auto simp: mid_ok_def sources_ok_def reg_ok_def)
  moreover have "i \<in> set (monitoredSources ?st2) \<and> name_of ?st2 i = n" if w: "worker_conn ?st2 n = Some i" for n i
  proof -
    have "n \<in> set (map (name_of ?st2) (monitoredSources ?st2))"
      using workers [OF w] names by (simp add: same_names_def)
    with ok2 w show ?thesis unfolding mid_ok_def by blast
  qed
  ultimately show "loop_ok (CleanupRemovedWorkers ctxErr st)"
    unfolding loop_ok_def wc by (simp add: eq)
  show "worker_conn (CleanupRemovedWorkers ctxErr st) n = None" if "ctxErr \<noteq> None \<or> monitoredSources st = []"
    unfolding wc using workers [of n] that by (cases "worker_conn ?st2 n") auto
qed

lemma iteration_mid:
  assumes "loop_ok st" "env_ok env st" "iteration env st = Some st'"
  obtains st1 where "mid_ok st1" "st' = CleanupRemovedWorkers (le_ctxErr env) st1"
    "same_names (fst (LoadSources env st)) st1" "prevLoopMonitoredDBs st1 = prevLoopMonitoredDBs st"
proof -
  let ?a = "fst (LoadSources env st)" and ?b = "fst (LoadMetrics env (fst (LoadSources env st)))"
  have a: "mid_ok ?a" "prevLoopMonitoredDBs ?a = prevLoopMonitoredDBs st"
    using LoadSources_mid_ok [OF assms(1,2)] by auto
  have q: "quiet ?a ?b" by (rule quiet_LoadMetrics)
  have b: "mid_ok ?b" using a(1) q by (rule mid_ok_quiet)
  obtain st1 where sw: "sweep env (le_order env (monitoredSources ?b)) ?b = Some st1"
      "st' = CleanupRemovedWorkers (le_ctxErr env) st1"
    using assms(3) by (auto simp: iteration_def Let_def split: option.splits)
  have "set (le_order env (monitoredSources ?b)) \<subseteq> set (monitoredSources ?b)"
    using assms(2) by (metis env_ok_def set_mset_mset order_refl)
  from mid_ok_sweep [OF b this sw(1)] that sw(2) a(2) q same_names_trans show thesis
    by (auto simp: quiet_def)
qed

text \<open>The states between iterations that the program can reach.\<close>

inductive reachable :: "rstate \<Rightarrow> bool" where
  start: "reachable (start_Reap newReaper)"
| iterate: "reachable st \<Longrightarrow> env_ok env st \<Longrightarrow> iteration env st = Some st' \<Longrightarrow> reachable st'"

inductive_cases reachable_E: "reachable st"

lemma reachable_ok: "reachable st \<Longrightarrow> loop_ok st"
proof (induction rule: reachable.induct)
  case start
  then show ?case
    by (simp add: loop_ok_def sources_ok_def reg_ok_def start_Reap_def newReaper_def worker_conn_def)
next
  case (iterate st env st')
  then show ?case using iteration_mid [OF iterate.IH iterate.hyps(2,3)] Cleanup_loop_ok(1) by metis
qed


text \<open>An environment with one healthy database, which may be a standby.\<close>

definition up_pool :: pool_env where
  "up_pool = \<lparr>pgx_ParseConfig = (\<lambda>_. Inr \<lparr>Host = ''h'', Port = 5432, User = ''u'', Password = [], Database = ''d'',
       ConnectTimeout = 0, MaxConns = 4, SimpleProtocol = False, ShouldPing = True\<rparr>),
     pgx_NewPool = (\<lambda>_. None),
     pool_Ping = (\<lambda>p. if p = OpenPool then None else Some (ErrText ''closed pool'')),
     pool_Exec = (\<lambda>p _. if p = OpenPool then None else Some (ErrText ''closed pool''))\<rparr>"

definition up_info :: "bool \<Rightarrow> server_info" where
  "up_info standby = \<lparr>q_control = Inr (170000, ''17.0'', standby, ''d'', ''77'', True), q_platform = Inr ''AZURE'',
     q_size = Inr 0, q_extensions = Inr [], q_version = Inr ''17.0''\<rparr>"

definition one_env :: "source \<Rightarrow> bool \<Rightarrow> loop_env" where
  "one_env s standby = \<lparr>
     le_opts = \<lparr>Sources = [], Refresh = 120, Groups = [], MinDbSizeMB = 0, MaxParallelConnectionsPerDb = 0,
       TryCreateListedExtsIfMissing = [], CreateHelpers = False\<rparr>,
     le_mopts = cfgMetrics sample_cfg, le_stat = (\<lambda>_. False), le_sources = Inr [s],
     le_resolve = (\<lambda>srcs. (map (\<lambda>s. Fresh (Db (NewDbConn s))) srcs, [])),
     le_metrics = Inr \<lparr>MetricDefs = [], PresetDefs = []\<rparr>, le_order = id, le_pool = (\<lambda>_. up_pool),
     le_http = \<lparr>http_Parse = (\<lambda>_. Inl (ErrText ''no'')), http_ReadFile = (\<lambda>_. None), http_Get = (\<lambda>_ _. Inr 200)\<rparr>,
     le_info = (\<lambda>_. up_info standby), le_helper = (\<lambda>_. \<lparr>he_available = Inr [], he_Exec = (\<lambda>_. None)\<rparr>),
     le_ctxErr = None, le_now = 0\<rparr>"

definition one_source :: source where
  "one_source = zero_source\<lparr>Name := ''db1'', Kind := SourcePostgres, IsEnabled := True\<rparr>"

lemmas one_eval = iteration_def LoadSources_def LoadMetrics_def one_env_def one_source_def zero_source_def
  start_Reap_def newReaper_def DoesEmergencyTriggerfileExist_def selected_sources_def GetMonitoredDatabase_def apply_preset_def
  process_source_def upd_conn_def Connect_def ParseConfig_def NewDbConn_def up_pool_def pool_config_def Ping_def
  kind_defs FetchRuntimeInfo_def FetchControlInfo_def DiscoverPlatform_def FetchApproxSize_def FetchExtensions_def
  up_info_def errors_Join_def FilterSource_def CreateSourceHelpers_def TrackRecoveryStatus_def SyncMetricsToSinks_def
  ActiveMetrics_def oentries_def StartWorker_def IsPostgresSource_def CleanupRemovedWorkers_def cleanup_worker_def Let_def

lemma one_env_ok: "env_ok (one_env s b) st" if "IsEnabled s"
  using that by (simp add: env_ok_def resolved_now_def one_env_def selected_sources_def)


section \<open>The emergency pause\<close>

definition pool_closed :: "sconn \<Rightarrow> bool" where
  "pool_closed c = (case c of Db md \<Rightarrow> Conn md \<in> {None, Some ClosedPool} | Prom _ \<Rightarrow> True)"

lemma pool_closed_Close [simp]: "pool_closed (conn_Close c)"
  by (cases c) (auto simp: pool_closed_def Close_def split: option.splits)

lemma cleanup_prev_closes:
  assumes "monitoredSources st = []"
  shows "(i \<in> set is \<or> pool_closed (conns st i)) \<Longrightarrow> pool_closed (conns (fold cleanup_prev is st) i)"
  using assms
proof (induction "is" arbitrary: st)
  case (Cons j "is")
  have step: "monitoredSources (cleanup_prev j st) = []"
      "conns (cleanup_prev j st) = (conns st)(j := conn_Close (conns st j))"
    using Cons.prems(2) by (simp_all add: cleanup_prev_def GetMonitoredDatabase_def)
  show ?case
    using Cons.prems(1) step by (simp) (rule Cons.IH, auto)
qed simp

lemma reachable_prev: "reachable st \<Longrightarrow> prevLoopMonitoredDBs st = monitoredSources st"
  by (erule reachable_E)
     (auto simp: start_Reap_def newReaper_def iteration_def CleanupRemovedWorkers_def Let_def split: option.splits)

text \<open>
  C24: when the emergency trigger file exists, one iteration stops every worker, monitors nothing and
  closes the pool of every source that was monitored.
\<close>

theorem emergency_pause_stops_all:
  assumes "reachable st" "env_ok env st" "iteration env st = Some st'"
    and "EmergencyPauseTriggerfile (le_mopts env) \<noteq> []" "le_stat env (EmergencyPauseTriggerfile (le_mopts env))"
  shows "cancelFuncs st' = [] \<and> running st' = [] \<and> monitoredSources st' = [] \<and>
    (\<forall>i\<in>set (monitoredSources st). pool_closed (conns st' i))"
proof -
  have ok: "loop_ok st" using assms(1) by (rule reachable_ok)
  obtain st1 where st1: "mid_ok st1" "st' = CleanupRemovedWorkers (le_ctxErr env) st1"
      "same_names (fst (LoadSources env st)) st1" "prevLoopMonitoredDBs st1 = prevLoopMonitoredDBs st"
    using iteration_mid [OF ok assms(2,3)] by blast
  have none: "monitoredSources st1 = []"
    using st1(3) assms(4,5) by (simp add: same_names_def LoadSources_def DoesEmergencyTriggerfileExist_def)
  have ok': "loop_ok st'" and wn: "worker_conn st' n = None" for n
    using Cleanup_loop_ok [OF st1(1)] none st1(2) by simp_all
  then have reg: "reg_ok st'" by (simp add: loop_ok_def sources_ok_def)
  have "\<not> ghas (cancelFuncs st') n" for n
    using wn worker_conn_None_iff [OF reg] by blast
  then have c: "cancelFuncs st' = []"
    by (metis in_keys_iff list.set_intros(1) map_is_Nil_conv neq_Nil_conv)
  moreover have "running st' = []"
    using reg c by (simp add: reg_ok_def)
  moreover
  let ?f = "fold (cleanup_worker (le_ctxErr env)) (gkeys (cancelFuncs st1)) st1"
  have f: "monitoredSources ?f = []" "prevLoopMonitoredDBs ?f = prevLoopMonitoredDBs st"
    using cleanup_fold [OF st1(1)] none st1(4) by (auto simp: same_names_def)
  have eq: "st' = (fold cleanup_prev (prevLoopMonitoredDBs st) ?f)
      \<lparr>prevLoopMonitoredDBs := monitoredSources (fold cleanup_prev (prevLoopMonitoredDBs st) ?f)\<rparr>"
    using st1(2) f(2) by (simp add: CleanupRemovedWorkers_def Let_def)
  have "monitoredSources (fold cleanup_prev (prevLoopMonitoredDBs st) ?f) = []"
    using quiet_fold [of cleanup_prev ?f, OF quiet_cleanup_prev] f(1) by (simp add: quiet_def same_names_def)
  moreover have "pool_closed (conns st' i)" if "i \<in> set (monitoredSources st)" for i
    using cleanup_prev_closes [OF f(1)] that reachable_prev [OF assms(1)] eq by simp
  ultimately show ?thesis using eq by simp
qed

definition pause_env :: loop_env where
  "pause_env = (one_env one_source False)\<lparr>le_stat := (\<lambda>_. True),
     le_mopts := (cfgMetrics sample_cfg)\<lparr>EmergencyPauseTriggerfile := ''/pause''\<rparr>\<rparr>"

theorem emergency_pause_stops_all_witness:
  "\<exists>st st'. iteration (one_env one_source False) (start_Reap newReaper) = Some st \<and> cancelFuncs st \<noteq> [] \<and>
     iteration pause_env st = Some st' \<and> cancelFuncs st' = [] \<and> running st' = [] \<and> pool_closed (conns st' 0)"
proof -
  obtain st where it: "iteration (one_env one_source False) (start_Reap newReaper) = Some st"
      and reg: "cancelFuncs st \<noteq> []" "monitoredSources st = [0]"
    by (simp add: one_eval List.map_filter_simps)
  have en: "IsEnabled one_source" by (simp add: one_source_def)
  have r: "reachable st"
    using reachable.start reachable.iterate it one_env_ok [OF en] by blast
  have ok: "env_ok pause_env st"
    by (simp add: env_ok_def pause_env_def resolved_now_def one_env_def selected_sources_def one_source_def)
  obtain st' where st': "iteration pause_env st = Some st'"
    by (simp add: iteration_def LoadSources_def LoadMetrics_def pause_env_def one_env_def
        DoesEmergencyTriggerfileExist_def)
  have "EmergencyPauseTriggerfile (le_mopts pause_env) \<noteq> []" "le_stat pause_env (EmergencyPauseTriggerfile (le_mopts pause_env))"
    by (simp_all add: pause_env_def)
  from emergency_pause_stops_all [OF r ok st' this] it reg st' show ?thesis by auto
qed

section \<open>A pool that was closed\<close>

lemma Connect_Conn: "Connect env opts md = (md', None) \<Longrightarrow> Conn md' \<noteq> None"
  by (auto simp: Connect_def Let_def split: if_splits prod.splits option.splits)

lemma fetch_ext_rows_Conn [simp]: "Conn (fst (fetch_ext_rows rs md)) = Conn md"
  by (induction rs md rule: fetch_ext_rows.induct) auto

lemma fetch_Conn [simp]:
  "Conn (fst (FetchControlInfo q md)) = Conn md" "Conn (fst (FetchExtensions q md)) = Conn md"
  "Conn (fst (FetchVersion q md)) = Conn md" "Conn (fst (DiscoverPlatform q md)) = Conn md"
  "Conn (fst (FetchApproxSize q md)) = Conn md"
  by (simp_all add: FetchControlInfo_def FetchExtensions_def FetchVersion_def DiscoverPlatform_def
        FetchApproxSize_def split: sum.split prod.split)

lemma FetchRuntimeInfo_Conn [simp]: "Conn (fst (FetchRuntimeInfo q now force ctxErr md)) = Conn md"
  by (simp add: FetchRuntimeInfo_def Let_def split_beta)

text \<open>Processing the same source in one sweep after another.\<close>

fun revisit :: "loop_env list \<Rightarrow> nat \<Rightarrow> rstate \<Rightarrow> rstate option" where
  "revisit [] i st = Some st"
| "revisit (env # envs) i st =
     (case process_source env i st of None \<Rightarrow> None | Some st \<Rightarrow> revisit envs i st)"

lemma process_closed:
  assumes "conns st i = Db md" "Conn md = Some ClosedPool" "rejects_closed (le_pool env i)"
  shows "process_source env i st = Some (WriteInstanceDown (le_now env) (name_of st i) st)"
proof -
  obtain e where "Connect (le_pool env i) (le_opts env) md = (md, Some e)"
    using Connect_closed [OF assms(3,2)] by blast
  moreover have "upd_conn i (Db md) st = st"
    using assms(1) by (simp add: upd_conn_def fun_upd_idem)
  ultimately show ?thesis
    using assms(1) by (simp add: process_source_def)
qed

lemma revisit_closed:
  assumes "conns st i = Db md" "Conn md = Some ClosedPool" "\<forall>env\<in>set envs. rejects_closed (le_pool env i)"
  shows "\<exists>st'. revisit envs i st = Some st' \<and> conns st' = conns st \<and> cancelFuncs st' = cancelFuncs st \<and>
    map MetricName (rch st') = map MetricName (rch st) @ replicate (length envs) specialMetricInstanceUp"
  using assms
proof (induction envs arbitrary: st)
  case (Cons env envs)
  let ?st = "WriteInstanceDown (le_now env) (name_of st i) st"
  have step: "process_source env i st = Some ?st"
    using Cons.prems by (intro process_closed) auto
  have m: "map MetricName (rch ?st) = map MetricName (rch st) @ [specialMetricInstanceUp]"
    by (simp add: WriteInstanceDown_def)
  have "\<exists>st'. revisit envs i ?st = Some st' \<and> conns st' = conns ?st \<and> cancelFuncs st' = cancelFuncs ?st \<and>
      map MetricName (rch st') = map MetricName (rch ?st) @ replicate (length envs) specialMetricInstanceUp"
    using Cons.prems by (intro Cons.IH) simp_all
  with step m show ?case by (auto simp: replicate_append_same)
qed simp

text \<open>
  C38: a source that is to be monitored on primaries only, and is found to be a standby, loses its pool.
  From then on every sweep that visits the same connection reports the server as down and starts
  no worker, even after the server was promoted: \<open>Close\<close> leaves the closed pool in place, and
  \<open>Connect\<close> opens a new one only when there is none.
\<close>

theorem standby_never_returns:
  assumes "conns st i = Db md0" "GetMonitoredDatabase st (monitoredSources st) (Name (dbSource md0)) = Some i"
    and "Connect (le_pool env i) (le_opts env) md0 = (md1, None)"
    and "FetchRuntimeInfo (le_info env i) (le_now env) True (le_ctxErr env) md1 = (md2, None)"
    and "IsInRecovery md2" "OnlyIfMaster (dbSource md0)" "reg_ok st"
    and "\<forall>env\<in>set later. rejects_closed (le_pool env i)"
  shows "\<exists>st1 st'. process_source env i st = Some st1 \<and> revisit later i st1 = Some st' \<and>
    worker_conn st' (Name (dbSource md0)) = None \<and>
    map MetricName (rch st') = map MetricName (rch st) @ replicate (length later) specialMetricInstanceUp"
proof -
  have src: "dbSource md2 = dbSource md0" and conn: "Conn md2 \<noteq> None"
    using FetchRuntimeInfo_source [of "le_info env i" "le_now env" True "le_ctxErr env" md1]
      Connect_source [of "le_pool env i" "le_opts env" md0] assms(3,4)
      FetchRuntimeInfo_Conn [of "le_info env i" "le_now env" True "le_ctxErr env" md1] Connect_Conn [OF assms(3)]
    by auto
  let ?n = "Name (dbSource md0)"
  let ?s2 = "upd_conn i (Db md2) (upd_conn i (Db md1) st)"
  let ?st1 = "ShutdownWorker ?n ?s2"
  have proc: "process_source env i st = Some ?st1"
    using assms src by (simp add: process_source_def FilterSource_def Let_def)
  have q: "quiet st ?s2"
    using assms(1,3) src Connect_source [of "le_pool env i" "le_opts env" md0]
    by (intro quiet_trans [OF quiet_upd quiet_upd]) auto
  then have reg: "reg_ok ?s2" using assms(7) quiet_reg by blast
  have "GetMonitoredDatabase (cancel_worker ?n ?s2) (monitoredSources ?s2) ?n = Some i"
  proof -
    have "same_names st (cancel_worker ?n ?s2)"
      using q by (simp add: quiet_def same_names_def)
    from same_names_GetMonitored [OF this] assms(2) show ?thesis by simp
  qed
  then have st1: "conns ?st1 i = Db (Close md2)" "rch ?st1 = rch st"
    by (simp_all add: ShutdownWorker_def Let_def cancel_worker_def split: option.splits)
  have "Conn (Close md2) = Some ClosedPool"
    using conn by (auto simp: Close_def split: option.splits)
  from revisit_closed [OF st1(1) this assms(8)] obtain st' where
    st': "revisit later i ?st1 = Some st'" "cancelFuncs st' = cancelFuncs ?st1"
      "map MetricName (rch st') = map MetricName (rch ?st1) @ replicate (length later) specialMetricInstanceUp"
    by blast
  have "worker_conn ?st1 ?n = None" using Shutdown_registry [OF reg] by simp
  then have "\<not> ghas (cancelFuncs st') ?n"
    using Shutdown_registry(1) [OF reg] worker_conn_None_iff st'(2) by metis
  then have "worker_conn st' ?n = None" by (simp add: worker_conn_def)
  with proc st' st1(2) show ?thesis by auto
qed

definition master_source :: source where
  "master_source = one_source\<lparr>OnlyIfMaster := True\<rparr>"

definition seen_state :: rstate where
  "seen_state = newReaper\<lparr>conns := (\<lambda>_. Db (NewDbConn master_source)), nextConn := 1, monitoredSources := [0]\<rparr>"

theorem standby_never_returns_witness:
  "\<exists>st1 st'. process_source (one_env master_source True) 0 seen_state = Some st1 \<and>
     revisit [one_env master_source False, one_env master_source False] 0 st1 = Some st' \<and>
     worker_conn st' ''db1'' = None \<and> map MetricName (rch st') = [''instance_up'', ''instance_up'']"
proof -
  let ?e = "one_env master_source True" and ?md = "NewDbConn master_source"
  have name: "Name (dbSource ?md) = ''db1''"
    by (simp add: NewDbConn_def master_source_def one_source_def)
  have conns: "conns seen_state 0 = Db ?md" by (simp add: seen_state_def)
  have mon: "GetMonitoredDatabase seen_state (monitoredSources seen_state) (Name (dbSource ?md)) = Some 0"
    by (simp add: seen_state_def GetMonitoredDatabase_def)
  obtain md1 where c: "Connect (le_pool ?e 0) (le_opts ?e) ?md = (md1, None)" "ExecEnv md1 = []" "Kind (dbSource md1) = SourcePostgres"
    by (simp add: one_env_def Connect_def ParseConfig_def NewDbConn_def up_pool_def pool_config_def Ping_def
        master_source_def one_source_def kind_defs Let_def)
  obtain md2 where f: "FetchRuntimeInfo (le_info ?e 0) (le_now ?e) True (le_ctxErr ?e) md1 = (md2, None)" "IsInRecovery md2"
    using c(2,3)
    by (simp add: one_env_def FetchRuntimeInfo_def FetchControlInfo_def DiscoverPlatform_def FetchApproxSize_def
        FetchExtensions_def up_info_def errors_Join_def List.map_filter_simps kind_defs)
  have "OnlyIfMaster (dbSource ?md)" by (simp add: NewDbConn_def master_source_def)
  moreover have "reg_ok seen_state" by (simp add: seen_state_def reg_ok_def newReaper_def)
  moreover have "\<forall>env\<in>set [one_env master_source False, one_env master_source False]. rejects_closed (le_pool env 0)"
    by (simp add: one_env_def rejects_closed_def up_pool_def)
  moreover have "rch seen_state = []" by (simp add: seen_state_def newReaper_def)
  ultimately show ?thesis
    using standby_never_returns [OF conns mon c(1) f(1,2), of "[one_env master_source False, one_env master_source False]"]
    by (simp add: name special_defs numeral_2_eq_2)
qed

section \<open>A discovered database whose server changed\<close>

text \<open>
  when the connection string of a discovery source changes, a database that is found on the new
  server under the same name keeps the connection to the old server, and its worker with it: resolved
  sources carry no connection string, so old and new are equal.
\<close>

theorem moved_discovery_source_ignored:
  assumes "pgx_ParseConfig (wpool w) c1 = Inr cfg1" "pgx_ParseConfig (wpool w) c2 = Inr cfg2" "wf_source s"
    and "monitoredSources st = [i]" "conns st i = Db (resolved_conn w (s\<lparr>ConnStr := c1\<rparr>) d)" "i < nextConn st"
    and "\<not> DoesEmergencyTriggerfileExist (le_stat env) (EmergencyPauseTriggerfile (le_mopts env))"
    and "le_sources env = Inr srcs"
    and "le_resolve env (selected_sources (le_opts env) srcs) =
           ([Fresh (Db (resolved_conn w (s\<lparr>ConnStr := c2\<rparr>) d))], [])"
  shows "let st' = fst (LoadSources env st) in
    monitoredSources st' = [i] \<and> conns st' i = Db (resolved_conn w (s\<lparr>ConnStr := c1\<rparr>) d) \<and>
    ConnConfig (resolved_conn w (s\<lparr>ConnStr := c1\<rparr>) d) = Some (cfg1\<lparr>Database := d\<rparr>) \<and>
    cancelFuncs st' = cancelFuncs st \<and> running st' = running st"
proof -
  have eq: "Source_Equal (dbSource (resolved_conn w (s\<lparr>ConnStr := c1\<rparr>) d)) (dbSource (resolved_conn w (s\<lparr>ConnStr := c2\<rparr>) d))"
    using assms(1-3) by (rule resolved_conn_Equal)
  have cfg: "ConnConfig (resolved_conn w (s\<lparr>ConnStr := c1\<rparr>) d) = Some (cfg1\<lparr>Database := d\<rparr>)"
    using resolved_conn_source(2) [of w "s\<lparr>ConnStr := c1\<rparr>"] assms(1) by simp
  show ?thesis
    using assms(4-9) eq cfg by (simp add: LoadSources_def GetMonitoredDatabase_def Let_def)
qed

theorem moved_discovery_source_ignored_witness:
  "let old = resolved_conn up_world (sample_source\<lparr>ConnStr := ''postgresql://old''\<rparr>) ''app'';
       new = resolved_conn up_world (sample_source\<lparr>ConnStr := ''postgresql://new''\<rparr>) ''app'';
       st = newReaper\<lparr>conns := (\<lambda>_. Db old), nextConn := 1, monitoredSources := [0]\<rparr>;
       env = (one_env one_source False)\<lparr>le_resolve := (\<lambda>_. ([Fresh (Db new)], []))\<rparr>
   in monitoredSources (fst (LoadSources env st)) = [0] \<and> conns (fst (LoadSources env st)) 0 = Db old"
proof -
  let ?old = "resolved_conn up_world (sample_source\<lparr>ConnStr := ''postgresql://old''\<rparr>) ''app''"
  let ?new = "resolved_conn up_world (sample_source\<lparr>ConnStr := ''postgresql://new''\<rparr>) ''app''"
  let ?st = "newReaper\<lparr>conns := (\<lambda>_. Db ?old), nextConn := 1, monitoredSources := [0]\<rparr>"
  let ?env = "(one_env one_source False)\<lparr>le_resolve := (\<lambda>_. ([Fresh (Db ?new)], []))\<rparr>"
  obtain cfg1 where p1: "pgx_ParseConfig (wpool up_world) ''postgresql://old'' = Inr cfg1"
    by (simp add: sample_world_def sample_pool_env_def HasPrefix_def)
  obtain cfg2 where p2: "pgx_ParseConfig (wpool up_world) ''postgresql://new'' = Inr cfg2"
    by (simp add: sample_world_def sample_pool_env_def HasPrefix_def)
  have wf: "wf_source sample_source"
    by (simp add: wf_source_def sample_source_def oentries_def)
  have no: "\<not> DoesEmergencyTriggerfileExist (le_stat ?env) (EmergencyPauseTriggerfile (le_mopts ?env))"
    and srcs: "le_sources ?env = Inr [one_source]"
    and res: "le_resolve ?env (selected_sources (le_opts ?env) [one_source]) = ([Fresh (Db ?new)], [])"
    by (simp_all add: one_env_def DoesEmergencyTriggerfileExist_def)
  have st: "monitoredSources ?st = [0]" "conns ?st 0 = Db ?old" "0 < nextConn ?st" by simp_all
  show ?thesis
    using moved_discovery_source_ignored [OF p1 p2 wf st no srcs res] unfolding Let_def by blast
qed

section \<open>Readiness\<close>

text \<open>No step of the loop touches the flag, so that the program reports to be ready from the first iteration on.\<close>

lemma ready_fold: "(\<And>x st. ready_flag (f x st) = ready_flag st) \<Longrightarrow> ready_flag (fold f xs st) = ready_flag st"
  by (induction xs arbitrary: st) simp_all

lemma ready_steps [simp]:
  "ready_flag (upd_conn i c st) = ready_flag st" "ready_flag (sync d m p st) = ready_flag st"
  "ready_flag (WriteInstanceDown t n st) = ready_flag st" "ready_flag (StartWorker n i st) = ready_flag st"
  "ready_flag (cancel_worker n st) = ready_flag st" "ready_flag (TrackRecoveryStatus md st) = ready_flag st"
  by (simp_all add: upd_conn_def sync_def WriteInstanceDown_def StartWorker_def cancel_worker_def TrackRecoveryStatus_def split: option.split)

lemma ready_Shutdown [simp]: "ready_flag (ShutdownWorker n st) = ready_flag st"
  by (simp add: ShutdownWorker_def Let_def split: option.split)

lemma ready_sync_metrics [simp]: "ready_flag (sync_metrics d ms st) = ready_flag st"
  by (induction d ms st rule: sync_metrics.induct) (simp_all split: option.split)

lemma ready_helpers: "CreateSourceHelpers env i md st = Some st' \<Longrightarrow> ready_flag st' = ready_flag st"
  by (auto simp: CreateSourceHelpers_def Let_def split: if_splits option.splits prod.splits)

lemma ready_process: "process_source env i st = Some st' \<Longrightarrow> ready_flag st' = ready_flag st"
  by (auto simp: process_source_def FilterSource_def SyncMetricsToSinks_def Let_def dest!: ready_helpers
      split: if_splits option.splits prod.splits sconn.splits)

lemma ready_sweep: "sweep env is st = Some st' \<Longrightarrow> ready_flag st' = ready_flag st"
  by (induction env "is" st rule: sweep.induct) (auto dest: ready_process split: option.splits)

lemma ready_alloc: "alloc_conns rs st = (is, st') \<Longrightarrow> ready_flag st' = ready_flag st"
  by (induction rs st arbitrary: "is" st' rule: alloc_conns.induct) (auto simp: Let_def split: prod.splits)

lemma ready_replace: "replace_known js st = (is, st') \<Longrightarrow> ready_flag st' = ready_flag st"
  by (induction js st arbitrary: "is" st' rule: replace_known.induct) (auto simp: Let_def split: prod.splits option.splits if_splits)

lemma ready_LoadSources: "ready_flag (fst (LoadSources env st)) = ready_flag st"
  by (auto simp: LoadSources_def Let_def ready_fold dest!: ready_alloc ready_replace split: sum.splits prod.splits)

lemma ready_LoadMetrics: "ready_flag (fst (LoadMetrics env st)) = ready_flag st"
  by (auto simp: LoadMetrics_def Let_def apply_preset_def ready_fold split: sum.splits)

lemma ready_Cleanup: "ready_flag (CleanupRemovedWorkers ctxErr st) = ready_flag st"
  by (simp add: CleanupRemovedWorkers_def Let_def cleanup_worker_def cleanup_prev_def ready_fold)

lemma reachable_ready: "reachable st \<Longrightarrow> Ready st"
proof (induction rule: reachable.induct)
  case (iterate st env st')
  from iterate.hyps(3) obtain st1 where "sweep env (le_order env (monitoredSources (fst (LoadMetrics env (fst (LoadSources env st))))))
      (fst (LoadMetrics env (fst (LoadSources env st)))) = Some st1" "st' = CleanupRemovedWorkers (le_ctxErr env) st1"
    by (auto simp: iteration_def Let_def split: option.splits)
  with iterate.IH show ?case
    by (simp add: Ready_def ready_Cleanup ready_LoadMetrics ready_LoadSources ready_sweep)
qed (simp add: Ready_def start_Reap_def)

end
