(* ===== verification/Go_Float.thy ===== *)
theory Go_Float
  imports Metric_Types
begin

text \<open>
  Arithmetic on \<open>float64\<close>: an operation computes exactly and then rounds to the nearest number with
  53 significant bits, ties to even, with infinities, and with \<open>NaN\<close> for operations that have no result (IEEE 754, which the
  Go language prescribes). There is one zero: the modelled code divides by differences and by converted integers,
  which are never the negative zero.
\<close>

section \<open>Rounding\<close>

definition round_even :: "real \<Rightarrow> int" where
  "round_even x =
     (let f = \<lfloor>x\<rfloor>; d = x - of_int f
      in if d < 1 / 2 then f else if d > 1 / 2 then f + 1 else if even f then f else f + 1)"

definition unit_exp :: "real \<Rightarrow> int" where
  "unit_exp x = max (\<lfloor>log 2 \<bar>x\<bar>\<rfloor> - 52) (- 1074)"

definition float64 :: "real \<Rightarrow> gofloat" where
  "float64 x =
     (if x = 0 then Fin 0
      else
        (let u = 2 powr of_int (unit_exp x); r = of_int (round_even (x / u)) * u
         in if r \<ge> 2 ^ 1024 then PInf else if r \<le> - (2 ^ 1024) then NInf else Fin r))"

section \<open>Operations\<close>

fun fneg :: "gofloat \<Rightarrow> gofloat" where
  "fneg (Fin x) = Fin (- x)"
| "fneg NaN = NaN"
| "fneg PInf = NInf"
| "fneg NInf = PInf"

fun fadd :: "gofloat \<Rightarrow> gofloat \<Rightarrow> gofloat" where
  "fadd (Fin x) (Fin y) = float64 (x + y)"
| "fadd NaN _ = NaN"
| "fadd _ NaN = NaN"
| "fadd PInf NInf = NaN"
| "fadd NInf PInf = NaN"
| "fadd PInf _ = PInf"
| "fadd NInf _ = NInf"
| "fadd (Fin x) PInf = PInf"
| "fadd (Fin x) NInf = NInf"

definition fsub :: "gofloat \<Rightarrow> gofloat \<Rightarrow> gofloat" where
  "fsub x y = fadd x (fneg y)"

text \<open>The product of an infinity with a number of the given sign.\<close>

definition inf_times :: "real \<Rightarrow> gofloat" where
  "inf_times s = (if s > 0 then PInf else if s < 0 then NInf else NaN)"

fun fmul :: "gofloat \<Rightarrow> gofloat \<Rightarrow> gofloat" where
  "fmul (Fin x) (Fin y) = float64 (x * y)"
| "fmul NaN _ = NaN"
| "fmul _ NaN = NaN"
| "fmul PInf (Fin y) = inf_times y"
| "fmul NInf (Fin y) = inf_times (- y)"
| "fmul (Fin x) PInf = inf_times x"
| "fmul (Fin x) NInf = inf_times (- x)"
| "fmul PInf PInf = PInf"
| "fmul PInf NInf = NInf"
| "fmul NInf PInf = NInf"
| "fmul NInf NInf = PInf"

fun fdiv :: "gofloat \<Rightarrow> gofloat \<Rightarrow> gofloat" where
  "fdiv (Fin x) (Fin y) = (if y = 0 then inf_times x else float64 (x / y))"
| "fdiv NaN _ = NaN"
| "fdiv _ NaN = NaN"
| "fdiv PInf (Fin y) = (if y < 0 then NInf else PInf)"
| "fdiv NInf (Fin y) = (if y < 0 then PInf else NInf)"
| "fdiv (Fin x) _ = Fin 0"
| "fdiv _ _ = NaN"

text \<open>\<open>math.Round\<close>: to the nearest integer, halves away from zero. The result needs no further rounding.\<close>

fun math_Round :: "gofloat \<Rightarrow> gofloat" where
  "math_Round (Fin x) = Fin (if x \<ge> 0 then of_int \<lfloor>x + 1 / 2\<rfloor> else - of_int \<lfloor>- x + 1 / 2\<rfloor>)"
| "math_Round f = f"

text \<open>Conversion of an integer.\<close>

definition float_of :: "int \<Rightarrow> gofloat" where
  "float_of n = float64 (of_int n)"

section \<open>Exactness\<close>

lemma round_even_int [simp]: "round_even (of_int k) = k"
  by (simp add: round_even_def)

lemma float64_zero [simp]: "float64 0 = Fin 0"
  by (simp add: float64_def)

lemma float64_exact:
  assumes "x / 2 powr of_int (unit_exp x) = of_int k" "\<bar>x\<bar> < 2 ^ 1024"
  shows "float64 x = Fin x"
proof -
  have "of_int k * (2 powr of_int (unit_exp x)) = x" using assms(1) by (simp add: field_simps)
  with assms show ?thesis by (auto simp: float64_def Let_def)
qed

lemma unit_exp_int:
  assumes "n \<noteq> 0" "\<bar>n\<bar> \<le> 2 ^ 53"
  shows "\<exists>k::int. (of_int n :: real) / 2 powr of_int (unit_exp (of_int n)) = of_int k"
proof -
  define L where "L = \<lfloor>log 2 \<bar>of_int n :: real\<bar>\<rfloor>"
  have abs: "\<bar>of_int n :: real\<bar> = of_int \<bar>n\<bar>" by simp
  have pos: "1 \<le> \<bar>of_int n :: real\<bar>" using assms(1) unfolding abs by linarith
  then have L0: "0 \<le> L" by (simp add: L_def zero_le_log_cancel_iff)
  have le: "\<bar>of_int n :: real\<bar> \<le> 2 ^ 53" using assms(2) unfolding abs by (metis of_int_le_iff of_int_numeral of_int_power)
  then have "log 2 \<bar>of_int n :: real\<bar> \<le> log 2 (2 ^ 53)" using pos by (subst log_le_cancel_iff) auto
  also have "log 2 (2 ^ 53) = (53::real)" using log_pow_cancel [of 2 53] by (simp only: of_nat_numeral)
  finally have "log 2 \<bar>of_int n :: real\<bar> \<le> 53" .
  then have L53: "L \<le> 53" by (simp add: L_def floor_le_iff)
  have exp: "unit_exp (of_int n :: real) = L - 52" using L0 by (simp add: unit_exp_def L_def)
  show ?thesis
  proof (cases "L = 53")
    case False
    with L53 have "L \<le> 52" by simp
    then have "(2::real) powr of_int (L - 52) = inverse (2 ^ nat (52 - L))"
      by (simp add: powr_realpow [symmetric] powr_minus [symmetric])
    then have "(of_int n :: real) / 2 powr of_int (L - 52) = of_int (n * 2 ^ nat (52 - L))" by (simp add: field_simps)
    then show ?thesis unfolding exp by blast
  next
    case True
    then have "53 \<le> log 2 \<bar>of_int n :: real\<bar>" by (simp add: L_def floor_eq_iff)
    then have "2 powr 53 \<le> \<bar>of_int n :: real\<bar>" using pos by (subst (asm) le_log_iff) auto
    with le have "\<bar>of_int n :: real\<bar> = 2 ^ 53" by (simp add: powr_numeral)
    then have "n = 2 ^ 53 \<or> n = - (2 ^ 53)" using abs
      by (metis abs_if minus_minus of_int_eq_iff of_int_numeral of_int_power)
    then have "(of_int n :: real) / 2 powr of_int (L - 52) = of_int (n div 2)" using True by auto
    then show ?thesis unfolding exp by blast
  qed
qed

lemma float_of_exact: "\<bar>n\<bar> \<le> 2 ^ 53 \<Longrightarrow> float64 (of_int n) = Fin (of_int n)"
proof (cases "n = 0")
  case False
  assume le: "\<bar>n\<bar> \<le> 2 ^ 53"
  then have "\<bar>of_int n :: real\<bar> \<le> 2 ^ 53" by (metis of_int_abs of_int_le_iff of_int_numeral of_int_power)
  also have "\<dots> < 2 ^ 1024" by (rule power_strict_increasing) simp_all
  finally show ?thesis using unit_exp_int [OF False le] float64_exact by blast
qed simp

section \<open>Sums of integers\<close>

text \<open>What a sum of integers relies on: conversions and additions are exact up to a bound.\<close>

locale exact_sums =
  fixes plus :: "gofloat \<Rightarrow> gofloat \<Rightarrow> gofloat" and conv :: "int \<Rightarrow> gofloat" and bound :: int
  assumes conv_exact: "\<bar>n\<bar> \<le> bound \<Longrightarrow> conv n = Fin (of_int n)"
    and plus_exact: "\<bar>a + b\<bar> \<le> bound \<Longrightarrow> plus (Fin (of_int a)) (Fin (of_int b)) = Fin (of_int (a + b))"
begin

lemma sum_exact:
  assumes "\<forall>x\<in>set xs. 0 \<le> g x" "0 \<le> a" "a + sum_list (map g xs) \<le> bound"
  shows "foldl (\<lambda>acc x. plus acc (conv (g x))) (Fin (of_int a)) xs = Fin (of_int (a + sum_list (map g xs)))"
  using assms
proof (induction xs arbitrary: a)
  case (Cons x xs)
  have "0 \<le> sum_list (map g xs)" using Cons.prems(1) by (intro sum_list_nonneg) auto
  then have "conv (g x) = Fin (of_int (g x))" "plus (Fin (of_int a)) (Fin (of_int (g x))) = Fin (of_int (a + g x))"
    using Cons.prems by (auto intro!: conv_exact plus_exact simp del: of_int_add)
  then show ?case using Cons.IH [of "a + g x"] Cons.prems by (simp add: add.assoc)
qed simp

end

interpretation f64: exact_sums fadd float_of "2 ^ 53"
proof
  show "float_of n = Fin (of_int n)" if "\<bar>n\<bar> \<le> 2 ^ 53" for n
    using float_of_exact [OF that] by (simp add: float_of_def)
  show "fadd (Fin (of_int a)) (Fin (of_int b)) = Fin (of_int (a + b))" if "\<bar>a + b\<bar> \<le> 2 ^ 53" for a b
    using float_of_exact [OF that] by simp
qed

lemma fsub_self: "fsub x x = Fin 0 \<or> fsub x x = NaN"
  by (cases x) (simp_all add: fsub_def)

lemma fmul_zero: "x = Fin 0 \<or> x = NaN \<Longrightarrow> fmul y x = Fin 0 \<or> fmul y x = NaN"
  by (cases y) (auto simp: inf_times_def)

lemma fdiv_zeros: "x = Fin 0 \<or> x = NaN \<Longrightarrow> y = Fin 0 \<or> y = NaN \<Longrightarrow> fdiv x y = NaN"
  by (auto simp: inf_times_def)

lemma fsub_NaN [simp]: "fsub NaN y = NaN" "fsub x NaN = NaN"
  by (cases x; simp add: fsub_def)+

end
