(* ===== verification/Pg_Sink.thy ===== *)
theory Pg_Sink
  imports Sink_Types Db_Conn "HOL-Library.Multiset"
begin

text \<open>
  The PostgreSQL sink (\<open>internal/sinks/postgres.go\<close>): start-up checks, the cache of envelopes, the
  partitions a batch needs, and the loop that hands a batch to \<open>CopyFrom\<close> metric by metric through
  the cursor \<open>copyFromMeasurements\<close>.

  The driver is a parameter. A call of \<open>CopyFrom\<close> calls \<open>Next\<close> and \<open>Values\<close> of the cursor until \<open>Next\<close> returns
  false; a call that fails has stopped after some number of calls of \<open>Next\<close>. Its
  \<open>fate\<close> says which. The field \<open>err\<close> of the cursor, set when a row cannot be encoded as JSON, is one of the
  reasons for which a call fails and is cleared by \<open>SkipMetric\<close>, so it is not a field of the model. Sorting is a parameter too: \<open>slices.SortFunc\<close> is not stable, so any sorted
  permutation may come out.
\<close>

section \<open>Data\<close>

datatype schema_type = DbStorageSchemaPostgres | DbStorageSchemaTimescale

record part_info =
  StartTime :: int
  EndTime :: int

datatype pg_err = ConnectError | PgError string | OtherError

datatype fate = Done | FailAfter nat pg_err

record cfm =
  cEnvs :: "envelope list"
  envelopeIdx :: int
  measurementIdx :: int
  cMetricName :: string

definition newCopyFromMeasurements :: "envelope list \<Rightarrow> cfm" where
  "newCopyFromMeasurements rs =
     \<lparr>cEnvs = rs, envelopeIdx = -1, measurementIdx = -1, cMetricName = []\<rparr>"

section \<open>The cursor\<close>

definition cur_env :: "cfm \<Rightarrow> envelope" where
  "cur_env c = cEnvs c ! nat (envelopeIdx c)"

text \<open>
  \<open>len(c.envelopes[c.envelopeIdx].Data)\<close>. The cursor is not used any more once its index has reached
  the end, where the code would panic.
\<close>

definition cur_len :: "cfm \<Rightarrow> int" where
  "cur_len c = (if envelopeIdx c < int (length (cEnvs c)) then int (length (Data (cur_env c))) else 0)"

definition NextEnvelope :: "cfm \<Rightarrow> cfm \<times> bool" where
  "NextEnvelope c =
     (let c = c\<lparr>envelopeIdx := envelopeIdx c + 1, measurementIdx := -1\<rparr>
      in (c, envelopeIdx c < int (length (cEnvs c))))"

text \<open>The first half of the body of the loop of \<open>Next\<close>; false says that \<open>Next\<close> returns false.\<close>

definition next_envelope_step :: "cfm \<Rightarrow> cfm \<times> bool" where
  "next_envelope_step c =
     (if envelopeIdx c < 0 \<or> measurementIdx c + 1 \<ge> cur_len c
      then (let (c, ok) = NextEnvelope c
            in if \<not> ok then (c, False)
               else if cMetricName c = [] then (c\<lparr>cMetricName := MetricName (cur_env c)\<rparr>, True)
               else if cMetricName c \<noteq> MetricName (cur_env c)
               then (let c = c\<lparr>envelopeIdx := envelopeIdx c - 1\<rparr>
                     in (c\<lparr>measurementIdx := cur_len c, cMetricName := []\<rparr>, False))
               else (c, True))
      else (c, True))"

lemma next_envelope_step_advance:
  assumes "next_envelope_step c = (c1, True)" "\<not> measurementIdx c1 + 1 < cur_len c1"
  shows "envelopeIdx c1 = envelopeIdx c + 1" "cEnvs c1 = cEnvs c"
    "envelopeIdx c < int (length (cEnvs c))"
  using assms
  by (auto simp: next_envelope_step_def NextEnvelope_def Let_def split: if_splits)

function Next :: "cfm \<Rightarrow> cfm \<times> bool" where
  "Next c =
     (let (c1, ok) = next_envelope_step c
      in if \<not> ok then (c1, False)
         else (let c2 = c1\<lparr>measurementIdx := measurementIdx c1 + 1\<rparr>
               in if measurementIdx c2 < cur_len c2 then (c2, True) else Next c2))"
  by pat_completeness auto
termination
proof (relation "measure (\<lambda>c. nat (int (length (cEnvs c)) - envelopeIdx c))", goal_cases)
  case (2 c p c1 ok c2)
  then have "next_envelope_step c = (c1, True)" "\<not> measurementIdx c1 + 1 < cur_len c1"
    by (auto simp: cur_len_def cur_env_def split: if_splits)
  from next_envelope_step_advance [OF this] 2(4) show ?case by simp
qed simp

declare Next.simps [simp del]

definition EOF :: "cfm \<Rightarrow> bool" where
  "EOF c \<longleftrightarrow> envelopeIdx c \<ge> int (length (cEnvs c))"

text \<open>
  \<open>Values\<close> before it is encoded: columns with the prefix \<open>tag_\<close> move to the tags, and the time is
  the epoch of the envelope.
\<close>

type_synonym pg_row = "int \<times> string \<times> measurement \<times> (string, string) gomap"

fun split_tags :: "(gofloat \<Rightarrow> string) \<Rightarrow> measurement \<Rightarrow> measurement \<Rightarrow> (string, string) gomap
    \<Rightarrow> measurement \<times> (string, string) gomap" where
  "split_tags ff [] row tagRow = (row, tagRow)"
| "split_tags ff ((k, v) # kvs) row tagRow =
     (case CutPrefix k TagPrefix of
        Some after \<Rightarrow> split_tags ff kvs (gdel k row) (gset after (sprint_v ff v) tagRow)
      | None \<Rightarrow> split_tags ff kvs row tagRow)"

definition row_values :: "(gofloat \<Rightarrow> string) \<Rightarrow> int \<Rightarrow> envelope \<Rightarrow> measurement \<Rightarrow> pg_row" where
  "row_values ff now env m =
     (let (row, tagRow) = split_tags ff m m (oentries (CustomTags env))
      in (fst (GetEpoch now (Data env)), DBName env, row, tagRow))"

definition Values :: "(gofloat \<Rightarrow> string) \<Rightarrow> int \<Rightarrow> cfm \<Rightarrow> pg_row" where
  "Values ff now c = row_values ff now (cur_env c) (Data (cur_env c) ! nat (measurementIdx c))"

text \<open>The identifier of the table: the metric of the next envelope, or none.\<close>

definition next_metric :: "cfm \<Rightarrow> string option" where
  "next_metric c =
     (if envelopeIdx c + 1 < int (length (cEnvs c))
      then Some (MetricName (cEnvs c ! nat (envelopeIdx c + 1))) else None)"

function skip_same :: "string \<Rightarrow> cfm \<Rightarrow> cfm" where
  "skip_same name c =
     (if envelopeIdx c + 1 < int (length (cEnvs c)) \<and> MetricName (cEnvs c ! nat (envelopeIdx c + 1)) = name
      then skip_same name (c\<lparr>envelopeIdx := envelopeIdx c + 1\<rparr>) else c)"
  by pat_completeness auto
termination
  by (relation "measure (\<lambda>(_, c). nat (int (length (cEnvs c)) - envelopeIdx c))") auto

declare skip_same.simps [simp del]

definition SkipMetric :: "string option \<Rightarrow> cfm \<Rightarrow> cfm" where
  "SkipMetric name c =
     (case name of
        None \<Rightarrow> c
      | Some n \<Rightarrow>
          (let c = skip_same n c;
               c = (if envelopeIdx c + 1 \<ge> int (length (cEnvs c))
                    then c\<lparr>envelopeIdx := int (length (cEnvs c))\<rparr>
                    else c\<lparr>measurementIdx := cur_len c\<rparr>)
           in c\<lparr>cMetricName := []\<rparr>))"

section \<open>CopyFrom\<close>

fun next_calls :: "nat \<Rightarrow> cfm \<Rightarrow> cfm" where
  "next_calls 0 c = c"
| "next_calls (Suc k) c = (case Next c of (c, False) \<Rightarrow> c | (c, True) \<Rightarrow> next_calls k c)"

text \<open>A call that succeeds reads every row up to the point where \<open>Next\<close> returns false.\<close>

partial_function (option) copy_rows :: "(gofloat \<Rightarrow> string) \<Rightarrow> int \<Rightarrow> cfm \<Rightarrow> (cfm \<times> pg_row list) option" where
  "copy_rows ff now c =
     (let (c1, ok) = Next c
      in if \<not> ok then Some (c1, [])
         else Option.bind (copy_rows ff now c1) (\<lambda>(c', rs). Some (c', Values ff now c1 # rs)))"

declare copy_rows.simps [code]

text \<open>
  The loop of \<open>flush\<close>. The result lists the calls of \<open>CopyFrom\<close> in order, with the table and the rows
  that were written (\<open>None\<close> for a call that failed), and the flag \<open>forceRecreatePartitions\<close>.
\<close>

type_synonym copy_call = "string option \<times> pg_row list option"

partial_function (option) flush_loop ::
  "(gofloat \<Rightarrow> string) \<Rightarrow> int \<Rightarrow> (nat \<Rightarrow> fate) \<Rightarrow> nat \<Rightarrow> bool \<Rightarrow> cfm \<Rightarrow> (copy_call list \<times> bool) option" where
  "flush_loop ff now fates k force c =
     (if EOF c then Some ([], force)
      else case fates k of
             Done \<Rightarrow>
               Option.bind (copy_rows ff now c) (\<lambda>(c', rs).
                 Option.bind (flush_loop ff now fates (Suc k) force c') (\<lambda>(calls, force').
                   Some ((next_metric c, Some rs) # calls, force')))
           | FailAfter n err \<Rightarrow>
               (let c' = SkipMetric (next_metric c) (next_calls n c)
                in if err = ConnectError then Some ([(next_metric c, None)], force)
                   else
                     Option.bind
                       (flush_loop ff now fates (Suc k)
                          (case err of PgError code \<Rightarrow> code = ''23514'' | _ \<Rightarrow> force) c') (\<lambda>(calls, force').
                       Some ((next_metric c, None) # calls, force'))))"

declare flush_loop.simps [code]

section \<open>Partitions\<close>

type_synonym bounds = "(string, part_info) gomap"

definition add_bounds :: "int \<Rightarrow> envelope \<Rightarrow> bounds \<Rightarrow> bounds" where
  "add_bounds now msg pb =
     (if Data msg = [] then pb
      else
        (let epochTime = fst (GetEpoch now (Data msg))
         in case gget pb (MetricName msg) of
              None \<Rightarrow> gset (MetricName msg) \<lparr>StartTime = epochTime, EndTime = epochTime\<rparr> pb
            | Some b \<Rightarrow>
                (let b = (if epochTime < StartTime b then b\<lparr>StartTime := epochTime\<rparr> else b);
                     b = (if epochTime > EndTime b then b\<lparr>EndTime := epochTime\<rparr> else b)
                 in gset (MetricName msg) b pb)))"

definition part_bounds :: "int \<Rightarrow> envelope list \<Rightarrow> bounds" where
  "part_bounds now msgs = fold (add_bounds now) msgs []"

text \<open>
  \<open>EnsureMetricTimePartsExist\<close>: \<open>ensure metric time\<close> is the answer of the SQL function. The zero
  time of the check is not a time of an epoch in nanoseconds, so that check never fires here.
\<close>

definition ensure_metric ::
  "(string \<Rightarrow> int \<Rightarrow> goerr + part_info) \<Rightarrow> bool \<Rightarrow> string \<Rightarrow> part_info \<Rightarrow> bounds \<Rightarrow> bounds \<times> goerr option" where
  "ensure_metric ensure force metric pb parts =
     (let cached = gget parts metric;
          ask_start = (case cached of None \<Rightarrow> True | Some p \<Rightarrow> StartTime pb < StartTime p \<or> force)
      in case (if ask_start then ensure metric (StartTime pb) else Inr (the cached)) of
           Inl err \<Rightarrow> (parts, Some err)
         | Inr p \<Rightarrow>
             (let parts = (if ask_start then gset metric p parts else parts)
              in if EndTime pb > EndTime p \<or> EndTime pb = EndTime p \<or> force
                 then (case ensure metric (EndTime pb) of
                         Inl err \<Rightarrow> (parts, Some err)
                       | Inr p \<Rightarrow> (gset metric p parts, None))
                 else (parts, None)))"

fun ensure_parts ::
  "(string \<Rightarrow> int \<Rightarrow> goerr + part_info) \<Rightarrow> bool \<Rightarrow> (string \<times> part_info) list \<Rightarrow> bounds \<Rightarrow> bounds \<times> goerr option" where
  "ensure_parts ensure force [] parts = (parts, None)"
| "ensure_parts ensure force ((metric, pb) # rest) parts =
     (case ensure_metric ensure force metric pb parts of
        (parts, Some err) \<Rightarrow> (parts, Some err)
      | (parts, None) \<Rightarrow> ensure_parts ensure force rest parts)"

fun ensure_timescale ::
  "(string \<Rightarrow> goerr option) \<Rightarrow> string list \<Rightarrow> bounds \<Rightarrow> bounds \<times> goerr option" where
  "ensure_timescale ensure [] parts = (parts, None)"
| "ensure_timescale ensure (metric # rest) parts =
     (if ghas parts metric then ensure_timescale ensure rest parts
      else case ensure metric of
             Some err \<Rightarrow> (parts, Some err)
           | None \<Rightarrow> ensure_timescale ensure rest (gset metric \<lparr>StartTime = 0, EndTime = 0\<rparr> parts))"

section \<open>The writer\<close>

record pg_writer =
  metricSchema :: schema_type
  forceRecreatePartitions :: bool
  partitionMapMetric :: bounds

record pg_env =
  pg_now :: int
  pg_sort :: "envelope list \<Rightarrow> envelope list"
  pg_ensure :: "string \<Rightarrow> int \<Rightarrow> goerr + part_info"
  pg_ensure_ts :: "string \<Rightarrow> goerr option"
  pg_fates :: "nat \<Rightarrow> fate"
  pg_float :: "gofloat \<Rightarrow> string"

text \<open>
  \<open>flush\<close>: the writer afterwards and the calls of \<open>CopyFrom\<close>. Errors of the partitions are logged. Computing
  the bounds reads the epoch of every envelope and so stamps it.
\<close>

definition flush :: "pg_env \<Rightarrow> envelope list \<Rightarrow> pg_writer \<Rightarrow> (pg_writer \<times> copy_call list) option" where
  "flush env msgs w =
     (if msgs = [] then Some (w, [])
      else
        (let msgs = map (stamped (pg_now env)) (pg_sort env msgs);
             pb = part_bounds (pg_now env) msgs;
             (parts, err) =
               (case metricSchema w of
                  DbStorageSchemaPostgres \<Rightarrow>
                    ensure_parts (pg_ensure env) (forceRecreatePartitions w) pb (partitionMapMetric w)
                | DbStorageSchemaTimescale \<Rightarrow>
                    ensure_timescale (pg_ensure_ts env) (gkeys pb) (partitionMapMetric w));
             w = w\<lparr>partitionMapMetric := parts, forceRecreatePartitions := False\<rparr>
         in case flush_loop (pg_float env) (pg_now env) (pg_fates env) 0 False (newCopyFromMeasurements msgs) of
              None \<Rightarrow> None
            | Some (calls, force) \<Rightarrow> Some (w\<lparr>forceRecreatePartitions := force\<rparr>, calls)))"

text \<open>\<open>poll\<close>: what arrives at the loop, and the batches it flushes.\<close>

datatype poll_event = Arrives envelope | Tick

definition cacheLimit :: nat where "cacheLimit = 256"

fun poll :: "poll_event list \<Rightarrow> envelope list \<Rightarrow> envelope list list \<times> envelope list" where
  "poll [] cache = ([], cache)"
| "poll (Arrives entry # evs) cache =
     (let cache = cache @ [entry]
      in if length cache < cacheLimit then poll evs cache
         else (let (batches, rest) = poll evs [] in (cache # batches, rest)))"
| "poll (Tick # evs) cache = (let (batches, rest) = poll evs [] in (cache # batches, rest))"

text \<open>\<open>Write\<close>: refused after shutdown, else queued, or dropped silently when the queue stays full.\<close>

definition Pg_Write :: "goerr option \<Rightarrow> bool \<Rightarrow> envelope \<Rightarrow> envelope list \<Rightarrow> envelope list \<times> goerr option" where
  "Pg_Write ctxErr queue_full msg input =
     (case ctxErr of
        Some e \<Rightarrow> (input, Some e)
      | None \<Rightarrow> (if queue_full then (input, None) else (input @ [msg], None)))"

text \<open>
  Start-up. \<open>sql\<close> answers the statements: the two intervals in seconds with the check of the third, the
  test for the schema, each script of \<open>metricSchemaSQLs\<close> by its position, the storage schema and the
  two statements of \<open>SyncMetric\<close>.
\<close>

record pg_sql =
  ps_ping :: "nat \<Rightarrow> goerr option"
  ps_intervals :: "goerr + int \<times> int \<times> bool"
  ps_schemaExists :: "goerr + bool"
  ps_script :: "nat \<Rightarrow> goerr option"
  ps_isTimescale :: "goerr + bool"
  ps_listing :: "string \<Rightarrow> string \<Rightarrow> goerr option"
  ps_dummy :: "string \<Rightarrow> goerr option"

definition metricSchemaSQLs :: "nat list" where
  "metricSchemaSQLs = [0, 1, 2, 3, 4, 5]"

fun first_error :: "('a \<Rightarrow> goerr option) \<Rightarrow> 'a list \<Rightarrow> goerr option" where
  "first_error f [] = None"
| "first_error f (x # xs) = (case f x of Some err \<Rightarrow> Some err | None \<Rightarrow> first_error f xs)"

text \<open>\<open>init\<close>: the writer with its intervals, or the error.\<close>

definition init_checks :: "sink_opts \<Rightarrow> pg_sql \<Rightarrow> int \<times> int \<Rightarrow> (int \<times> int) \<times> goerr option" where
  "init_checks opts sql old =
     (case ps_intervals sql of
        Inl err \<Rightarrow> (old, Some err)
      | Inr (retention, maintenance, isValidPartitionInterval) \<Rightarrow>
          (let retentionInterval = seconds retention; maintenanceInterval = seconds maintenance;
               new = (retentionInterval, maintenanceInterval)
           in if \<not> isValidPartitionInterval
              then (new, Some (ErrText (''--partition-interval must be at least 1 hour, got: '' @ PartitionInterval opts)))
              else if maintenanceInterval < 0
              then (new, Some (ErrText ''--maintenance-interval must be a positive PostgreSQL interval or 0 to disable it''))
              else if retentionInterval < Hour \<and> retentionInterval \<noteq> 0
              then (new, Some (ErrText ''--retention must be at least 1 hour PostgreSQL interval or 0 to disable it''))
              else case ps_schemaExists sql of
                     Inl err \<Rightarrow> (new, Some err)
                   | Inr True \<Rightarrow> (new, None)
                   | Inr False \<Rightarrow> (new, first_error (ps_script sql) metricSchemaSQLs)))"

definition Pg_init :: "sink_opts \<Rightarrow> pg_sql \<Rightarrow> (int \<times> int) \<times> goerr option" where
  "Pg_init opts sql = Init (ps_ping sql) (init_checks opts sql) (0, 0)"

definition ReadMetricSchemaType :: "pg_sql \<Rightarrow> schema_type \<times> goerr option" where
  "ReadMetricSchemaType sql =
     (case ps_isTimescale sql of
        Inl err \<Rightarrow> (DbStorageSchemaPostgres, Some err)
      | Inr isTs \<Rightarrow> (if isTs then DbStorageSchemaTimescale else DbStorageSchemaPostgres, None))"

definition Pg_SyncMetric :: "pg_sql \<Rightarrow> string \<Rightarrow> string \<Rightarrow> sync_op \<Rightarrow> goerr option" where
  "Pg_SyncMetric sql sourceName metricName opr =
     (if opr = AddOp then errors_Join [ps_listing sql sourceName metricName, ps_dummy sql metricName] else None)"

definition EnsureBuiltinMetricDummies :: "pg_sql \<Rightarrow> goerr option" where
  "EnsureBuiltinMetricDummies sql =
     foldl (\<lambda>err name. errors_Join [err, ps_dummy sql name]) None GetDefaultBuiltInMetrics"

text \<open>
  \<open>NewWriterFromPostgresConn\<close>: the writer, and the interval of the maintenance job if
  \<open>scheduleJob\<close> starts one.
\<close>

definition scheduleJob :: "int \<Rightarrow> int option" where
  "scheduleJob interval = (if interval > 0 then Some interval else None)"

definition NewWriterFromPostgresConn :: "sink_opts \<Rightarrow> pg_sql \<Rightarrow> goerr + pg_writer \<times> int option" where
  "NewWriterFromPostgresConn opts sql =
     (case Pg_init opts sql of
        (_, Some err) \<Rightarrow> Inl err
      | ((retention, maintenance), None) \<Rightarrow>
          (case ReadMetricSchemaType sql of
             (_, Some err) \<Rightarrow> Inl err
           | (schema, None) \<Rightarrow>
               (case EnsureBuiltinMetricDummies sql of
                  Some err \<Rightarrow> Inl err
                | None \<Rightarrow>
                    Inr (\<lparr>metricSchema = schema, forceRecreatePartitions = False, partitionMapMetric = []\<rparr>,
                         scheduleJob maintenance))))"

section \<open>How the cursor moves\<close>

text \<open>
  The cursor at a boundary before envelope \<open>p\<close>: the previous envelope is finished and no metric is
  set, so the next call of \<open>Next\<close> enters \<open>p\<close>. And the cursor inside an envelope of metric \<open>n\<close>.
\<close>

definition boundary :: "envelope list \<Rightarrow> nat \<Rightarrow> cfm \<Rightarrow> bool" where
  "boundary es p c \<longleftrightarrow> cEnvs c = es \<and> envelopeIdx c = int p - 1 \<and> cMetricName c = [] \<and>
     (p = 0 \<or> measurementIdx c + 1 \<ge> cur_len c)"

definition inside :: "envelope list \<Rightarrow> nat \<Rightarrow> string \<Rightarrow> cfm \<Rightarrow> bool" where
  "inside es q n c \<longleftrightarrow> cEnvs c = es \<and> envelopeIdx c = int q \<and> q < length es \<and> cMetricName c = n \<and> n \<noteq> []"

text \<open>The length of the run of envelopes of one metric that starts at a position.\<close>

definition run_end :: "envelope list \<Rightarrow> nat \<Rightarrow> string \<Rightarrow> nat" where
  "run_end es p n = p + length (takeWhile (\<lambda>e. MetricName e = n) (drop p es))"

text \<open>Where the cursor is when a metric is finished: at the boundary after it, or at the end.\<close>

definition finished :: "envelope list \<Rightarrow> nat \<Rightarrow> cfm \<Rightarrow> bool" where
  "finished es p c \<longleftrightarrow> (if p < length es then boundary es p c
     else cEnvs c = es \<and> envelopeIdx c = int (length es))"

lemma run_end_le: "p \<le> length es \<Longrightarrow> run_end es p n \<le> length es"
proof -
  assume "p \<le> length es"
  moreover have "length (takeWhile (\<lambda>e. MetricName e = n) (drop p es)) \<le> length (drop p es)"
    by (rule length_takeWhile_le)
  ultimately show ?thesis by (simp add: run_end_def)
qed

lemma run_end_Suc: "p < length es \<Longrightarrow> MetricName (es ! p) = n \<Longrightarrow> run_end es p n = run_end es (Suc p) n"
  by (simp add: run_end_def Cons_nth_drop_Suc [symmetric])

lemma run_end_stop: "p < length es \<Longrightarrow> MetricName (es ! p) \<noteq> n \<Longrightarrow> run_end es p n = p"
  by (simp add: run_end_def Cons_nth_drop_Suc [symmetric])

lemma run_end_over: "p \<ge> length es \<Longrightarrow> run_end es p n = p"
  by (simp add: run_end_def)

lemma cur_len_inside: "inside es q n c \<Longrightarrow> cur_len c = int (length (Data (es ! q)))"
  by (simp add: inside_def cur_len_def cur_env_def)

text \<open>The step inside an envelope, and the three ways to leave a finished one.\<close>

lemma Next_row:
  assumes "inside es q n c" "measurementIdx c + 1 < cur_len c"
  shows "Next c = (c\<lparr>measurementIdx := measurementIdx c + 1\<rparr>, True)"
  using assms by (subst Next.simps) (auto simp: next_envelope_step_def inside_def cur_len_def cur_env_def)

lemma step_leave:
  assumes "inside es q n c" "measurementIdx c + 1 \<ge> cur_len c"
  shows "next_envelope_step c =
    (if Suc q = length es then (c\<lparr>envelopeIdx := int (Suc q), measurementIdx := -1\<rparr>, False)
     else if MetricName (es ! Suc q) \<noteq> n
     then (c\<lparr>measurementIdx := int (length (Data (es ! q))), cMetricName := []\<rparr>, False)
     else (c\<lparr>envelopeIdx := int (Suc q), measurementIdx := -1\<rparr>, True))"
proof -
  have "nat (int q + 1) = Suc q" by simp
  then show ?thesis
    using assms
    by (auto simp: next_envelope_step_def NextEnvelope_def inside_def cur_len_def cur_env_def Let_def)
qed

lemma step_enter:
  assumes "boundary es p c" "p < length es"
  shows "next_envelope_step c =
    (c\<lparr>envelopeIdx := int p, measurementIdx := -1, cMetricName := MetricName (es ! p)\<rparr>, True)"
  using assms
  by (auto simp: next_envelope_step_def NextEnvelope_def boundary_def cur_env_def Let_def)

text \<open>
  After an envelope is entered, its first row is next, or, when it has none, the search goes on
  from its end.
\<close>

lemma Next_entered:
  assumes "next_envelope_step c = (c1, True)" "inside es q n c1" "measurementIdx c1 = -1"
  shows "Next c = (if Data (es ! q) \<noteq> [] then (c1\<lparr>measurementIdx := 0\<rparr>, True) else Next (c1\<lparr>measurementIdx := 0\<rparr>))"
  using assms cur_len_inside [OF assms(2)]
  by (subst Next.simps) (auto simp: cur_len_def cur_env_def inside_def)

lemma inside_upd [simp]:
  "inside es q n (c\<lparr>measurementIdx := m\<rparr>) = inside es q n c"
  by (simp add: inside_def)

lemma finished_leave:
  assumes "inside es q n c" "next_envelope_step c = (c', False)" "measurementIdx c + 1 \<ge> cur_len c"
  shows "finished es (run_end es (Suc q) n) c'"
proof (cases "Suc q = length es")
  case True
  then show ?thesis
    using step_leave [OF assms(1,3)] assms(1,2)
    by (auto simp: finished_def run_end_over inside_def)
next
  case False
  then have "Suc q < length es" using assms(1) by (simp add: inside_def)
  moreover have ne: "MetricName (es ! Suc q) \<noteq> n"
    using step_leave [OF assms(1,3)] assms(2) False by (auto split: if_splits)
  moreover have "c' = c\<lparr>measurementIdx := int (length (Data (es ! q))), cMetricName := []\<rparr>"
    using step_leave [OF assms(1,3)] assms(2) False ne by simp
  ultimately show ?thesis
    using assms(1) by (simp add: finished_def run_end_stop boundary_def inside_def cur_len_def cur_env_def)
qed

section \<open>What a successful copy reads\<close>

definition env_rows :: "(gofloat \<Rightarrow> string) \<Rightarrow> int \<Rightarrow> envelope \<Rightarrow> pg_row list" where
  "env_rows ff now e = map (row_values ff now e) (Data e)"

definition run_rows :: "(gofloat \<Rightarrow> string) \<Rightarrow> int \<Rightarrow> envelope list \<Rightarrow> nat \<Rightarrow> string \<Rightarrow> pg_row list" where
  "run_rows ff now es p n = concat (map (env_rows ff now) (takeWhile (\<lambda>e. MetricName e = n) (drop p es)))"

lemma run_rows_Suc:
  "p < length es \<Longrightarrow> MetricName (es ! p) = n \<Longrightarrow>
     run_rows ff now es p n = env_rows ff now (es ! p) @ run_rows ff now es (Suc p) n"
  by (simp add: run_rows_def Cons_nth_drop_Suc [symmetric])

lemma run_rows_stop: "p < length es \<Longrightarrow> MetricName (es ! p) \<noteq> n \<Longrightarrow> run_rows ff now es p n = []"
  by (simp add: run_rows_def Cons_nth_drop_Suc [symmetric])

lemma run_rows_over: "p \<ge> length es \<Longrightarrow> run_rows ff now es p n = []"
  by (simp add: run_rows_def)

lemma copy_rows_Next: "Next c = Next c' \<Longrightarrow> copy_rows ff now c = copy_rows ff now c'"
  by (subst (1 2) copy_rows.simps) simp

lemma copy_rows_inside:
  assumes "inside es q n c" "measurementIdx c = int j - 1"
  shows "\<exists>c'. copy_rows ff now c =
      Some (c', map (row_values ff now (es ! q)) (drop j (Data (es ! q))) @ run_rows ff now es (Suc q) n) \<and>
    finished es (run_end es (Suc q) n) c'"
  using assms
proof (induction "length es - q" arbitrary: q c j rule: less_induct)
  case less
  then show ?case
  proof (induction "length (Data (es ! q)) - j" arbitrary: c j)
    case (Suc d)
    then have j: "j < length (Data (es ! q))" by simp
    let ?c = "c\<lparr>measurementIdx := int j\<rparr>"
    have "Next c = (?c, True)"
      using Next_row [OF Suc.prems(2)] Suc.prems(3) cur_len_inside [OF Suc.prems(2)] j by simp
    moreover obtain c' where "copy_rows ff now ?c =
        Some (c', map (row_values ff now (es ! q)) (drop (Suc j) (Data (es ! q))) @ run_rows ff now es (Suc q) n)"
        "finished es (run_end es (Suc q) n) c'"
    proof -
      have "d = length (Data (es ! q)) - Suc j" using Suc.hyps(2) by linarith
      from Suc.hyps(1) [OF this, of ?c] Suc.prems that show thesis by auto
    qed
    moreover have "Values ff now ?c = row_values ff now (es ! q) (Data (es ! q) ! j)"
      using Suc.prems(2) by (simp add: Values_def cur_env_def inside_def)
    ultimately show ?case
      using j by (subst copy_rows.simps) (simp add: Cons_nth_drop_Suc [symmetric])
  next
    case 0
    then have over: "measurementIdx c + 1 \<ge> cur_len c" and nil: "drop j (Data (es ! q)) = []"
      using cur_len_inside [OF 0(3)] by simp_all
    have q: "q < length es" "n \<noteq> []" using 0(3) by (simp_all add: inside_def)
    show ?case
    proof (cases "Suc q < length es \<and> MetricName (es ! Suc q) = n")
      case False
      then obtain c' where c': "next_envelope_step c = (c', False)"
        using step_leave [OF 0(3) over] q by (auto split: if_splits)
      then have "Next c = (c', False)" by (subst Next.simps) simp
      then have "copy_rows ff now c = Some (c', [])" by (subst copy_rows.simps) simp
      moreover have "run_rows ff now es (Suc q) n = []"
        using False q by (cases "Suc q < length es") (auto simp: run_rows_stop run_rows_over)
      ultimately show ?thesis
        using nil finished_leave [OF 0(3) c' over] by simp
    next
      case True
      let ?c1 = "c\<lparr>envelopeIdx := int (Suc q), measurementIdx := -1\<rparr>"
      let ?c2 = "c\<lparr>envelopeIdx := int (Suc q), measurementIdx := 0\<rparr>"
      have step: "next_envelope_step c = (?c1, True)"
        using step_leave [OF 0(3) over] True by simp
      have in1: "inside es (Suc q) n ?c1" using 0(3) True by (simp add: inside_def)
      have in2: "inside es (Suc q) n ?c2" using 0(3) True by (simp add: inside_def)
      have run: "run_end es (Suc q) n = run_end es (Suc (Suc q)) n"
          "run_rows ff now es (Suc q) n = env_rows ff now (es ! Suc q) @ run_rows ff now es (Suc (Suc q)) n"
        using True by (auto simp: run_end_Suc run_rows_Suc)
      have ih: "\<exists>c'. copy_rows ff now ?c2 =
          Some (c', map (row_values ff now (es ! Suc q)) (drop 1 (Data (es ! Suc q))) @ run_rows ff now es (Suc (Suc q)) n) \<and>
          finished es (run_end es (Suc (Suc q)) n) c'"
        using q in2 by (intro 0(2)) auto
      note enter = Next_entered [OF step in1]
      show ?thesis
      proof (cases "Data (es ! Suc q) = []")
        case True
        then have "copy_rows ff now c = copy_rows ff now ?c2"
          using enter by (intro copy_rows_Next) simp
        with ih True run nil show ?thesis by (simp add: env_rows_def)
      next
        case False
        then have "Next c = (?c2, True)" using enter by simp
        moreover have "Values ff now ?c2 = row_values ff now (es ! Suc q) (Data (es ! Suc q) ! 0)"
          using in2 by (simp add: Values_def cur_env_def inside_def del: of_nat_Suc)
        moreover have "map (row_values ff now (es ! Suc q)) (Data (es ! Suc q)) =
            row_values ff now (es ! Suc q) (Data (es ! Suc q) ! 0) #
            map (row_values ff now (es ! Suc q)) (drop 1 (Data (es ! Suc q)))"
          using False by (cases "Data (es ! Suc q)") auto
        moreover obtain c' where "copy_rows ff now ?c2 =
            Some (c', map (row_values ff now (es ! Suc q)) (drop 1 (Data (es ! Suc q))) @ run_rows ff now es (Suc (Suc q)) n)"
            "finished es (run_end es (Suc (Suc q)) n) c'"
          using ih by blast
        ultimately have "copy_rows ff now c = Some (c', env_rows ff now (es ! Suc q) @ run_rows ff now es (Suc (Suc q)) n)"
          unfolding env_rows_def by (subst copy_rows.simps) simp
        with \<open>finished es (run_end es (Suc (Suc q)) n) c'\<close> run nil show ?thesis by simp
      qed
    qed
  qed
qed

lemma copy_rows_boundary:
  assumes "boundary es p c" "p < length es" "MetricName (es ! p) \<noteq> []"
  shows "\<exists>c'. copy_rows ff now c = Some (c', run_rows ff now es p (MetricName (es ! p))) \<and>
    finished es (run_end es p (MetricName (es ! p))) c'"
proof -
  let ?n = "MetricName (es ! p)"
  define c1 where "c1 = c\<lparr>envelopeIdx := int p, measurementIdx := -1, cMetricName := ?n\<rparr>"
  define c2 where "c2 = c1\<lparr>measurementIdx := 0\<rparr>"
  have step: "next_envelope_step c = (c1, True)" using step_enter [OF assms(1,2)] by (simp add: c1_def)
  have in1: "inside es p ?n c1" and m1: "measurementIdx c1 = -1"
    using assms by (simp_all add: inside_def boundary_def c1_def)
  have in2: "inside es p ?n c2" and m2: "measurementIdx c2 = 0"
    using in1 by (simp_all add: c2_def)
  note len = cur_len_inside [OF in1] cur_len_inside [OF in2]
  have "measurementIdx c1 = int 0 - 1" using m1 by simp
  from copy_rows_inside [OF in1 this, of ff now] obtain c' where c':
    "copy_rows ff now c1 = Some (c', env_rows ff now (es ! p) @ run_rows ff now es (Suc p) ?n)"
    "finished es (run_end es (Suc p) ?n) c'"
    by (auto simp: env_rows_def)
  note enter = Next_entered [OF step in1 m1, folded c2_def]
  have same: "Next c = Next c1"
  proof (cases "Data (es ! p) = []")
    case False
    then have "Next c1 = (c2, True)"
      using Next_row [OF in1] len m1 by (simp add: c2_def)
    with False enter show ?thesis by simp
  next
    case True
    have "next_envelope_step c1 = next_envelope_step c2"
      using step_leave [OF in1] step_leave [OF in2] len True m1 m2 by (simp add: c2_def)
    then have "Next c1 = Next c2" by (subst (1 2) Next.simps) simp
    with True enter show ?thesis by simp
  qed
  show ?thesis
    using c' copy_rows_Next [OF same] assms(2) by (simp add: run_end_Suc run_rows_Suc)
qed

section \<open>Skipping a metric after a failure\<close>

text \<open>Wherever a call stopped, the cursor is before, inside or at the end of the run of its metric.\<close>

definition on_run :: "envelope list \<Rightarrow> nat \<Rightarrow> string \<Rightarrow> cfm \<Rightarrow> bool" where
  "on_run es p n c \<longleftrightarrow> boundary es p c \<or> (\<exists>q. p \<le> q \<and> q < run_end es p n \<and> inside es q n c) \<or>
     finished es (run_end es p n) c"

lemma run_end_same: "p \<le> q \<Longrightarrow> q < run_end es p n \<Longrightarrow> MetricName (es ! q) = n \<and> q < length es"
proof -
  assume pq: "p \<le> q" "q < run_end es p n"
  let ?t = "takeWhile (\<lambda>e. MetricName e = n) (drop p es)"
  have i: "q - p < length ?t" using pq by (simp add: run_end_def less_diff_conv2)
  then have "?t ! (q - p) \<in> set ?t" by (rule nth_mem)
  then have "MetricName (?t ! (q - p)) = n" by (blast dest: set_takeWhileD)
  moreover have "length ?t \<le> length (drop p es)" by (rule length_takeWhile_le)
  ultimately show ?thesis using i pq by (simp add: takeWhile_nth)
qed

lemma run_end_after: "run_end es p n < length es \<Longrightarrow> MetricName (es ! run_end es p n) \<noteq> n"
  using nth_length_takeWhile [of "\<lambda>e. MetricName e = n" "drop p es"] by (simp add: run_end_def)

lemma run_end_mid:
  assumes "p \<le> q" "q < run_end es p n"
  shows "run_end es (Suc q) n = run_end es p n"
  using assms
proof (induction "q - p" arbitrary: q)
  case 0
  then show ?case using run_end_same [of p q es n] by (simp add: run_end_Suc)
next
  case (Suc d)
  then have "run_end es (Suc (q - 1)) n = run_end es p n" by (intro Suc.hyps(1)) auto
  moreover have "Suc (q - 1) = q" using Suc.hyps(2) by simp
  ultimately show ?case using run_end_same [OF Suc.prems] by (simp add: run_end_Suc)
qed

lemma skip_same_run:
  assumes "cEnvs c = es" "int p - 1 \<le> envelopeIdx c" "envelopeIdx c < int (run_end es p n)" "p \<le> length es"
  shows "skip_same n c = c\<lparr>envelopeIdx := int (run_end es p n) - 1\<rparr>"
  using assms
proof (induction n c rule: skip_same.induct)
  case (1 n c)
  show ?case
  proof (cases "envelopeIdx c = int (run_end es p n) - 1")
    case True
    then have "\<not> (envelopeIdx c + 1 < int (length es) \<and> MetricName (es ! nat (envelopeIdx c + 1)) = n)"
      using run_end_after [of es p n] by auto
    with True 1 show ?thesis by (subst skip_same.simps) auto
  next
    case False
    define q where "q = nat (envelopeIdx c + 1)"
    have q: "int q = envelopeIdx c + 1" "p \<le> q" "q < run_end es p n"
      using 1(3,4) False by (auto simp: q_def)
    have go: "envelopeIdx c + 1 < int (length (cEnvs c)) \<and> MetricName (cEnvs c ! nat (envelopeIdx c + 1)) = n"
      using run_end_same [OF q(2,3)] q(1) 1(2) by (simp add: q_def [symmetric])
    have "skip_same n (c\<lparr>envelopeIdx := envelopeIdx c + 1\<rparr>) = c\<lparr>envelopeIdx := int (run_end es p n) - 1\<rparr>"
      using 1(1) [OF go] 1 False by simp
    with go show ?thesis by (subst skip_same.simps) simp
  qed
qed

lemma SkipMetric_finishes:
  assumes "on_run es p n c" "p < length es" "MetricName (es ! p) = n"
  shows "finished es (run_end es p n) (SkipMetric (Some n) c)"
proof -
  have gt: "p < run_end es p n"
    using assms(2,3) by (simp add: run_end_def Cons_nth_drop_Suc [symmetric])
  have le: "run_end es p n \<le> length es" using assms(2) run_end_le by simp
  have envs: "cEnvs c = es" and low: "int p - 1 \<le> envelopeIdx c"
    and high: "envelopeIdx c < int (run_end es p n) \<or> envelopeIdx c = int (length es) \<and> run_end es p n = length es"
    using assms(1) gt le by (auto simp: on_run_def boundary_def inside_def finished_def split: if_splits)
  show ?thesis
  proof (cases "envelopeIdx c < int (run_end es p n)")
    case True
    have skip: "skip_same n c = c\<lparr>envelopeIdx := int (run_end es p n) - 1\<rparr>"
      using skip_same_run [OF envs low True] assms(2) by simp
    show ?thesis
      using envs gt le unfolding SkipMetric_def option.case Let_def skip
      by (simp add: finished_def boundary_def cur_len_def cur_env_def)
  next
    case False
    then have "envelopeIdx c = int (length es)" "run_end es p n = length es" using high by auto
    moreover from this have "skip_same n c = c" using envs by (subst skip_same.simps) simp
    ultimately show ?thesis
      using envs by (simp add: SkipMetric_def finished_def)
  qed
qed

lemma inside_Next:
  assumes "inside es q n c" "p \<le> q" "q < run_end es p n" "Next c = (c', b)"
  shows "if b then \<exists>q'. p \<le> q' \<and> q' < run_end es p n \<and> inside es q' n c' else finished es (run_end es p n) c'"
  using assms
proof (induction "length es - q" arbitrary: q c rule: less_induct)
  case less
  have q: "q < length es" using less.prems(1) by (simp add: inside_def)
  have mid: "run_end es (Suc q) n = run_end es p n" using run_end_mid [OF less.prems(2,3)] .
  show ?case
  proof (cases "measurementIdx c + 1 < cur_len c")
    case True
    then have "Next c = (c\<lparr>measurementIdx := measurementIdx c + 1\<rparr>, True)"
      using Next_row [OF less.prems(1)] by simp
    with less.prems show ?thesis by auto
  next
    case False
    then have over: "measurementIdx c + 1 \<ge> cur_len c" by simp
    obtain c1 ok where step: "next_envelope_step c = (c1, ok)" by fastforce
    show ?thesis
    proof (cases ok)
      case no: False
      then have "Next c = (c1, False)" using step by (subst Next.simps) simp
      with less.prems(4) finished_leave [OF less.prems(1) _ over] step no mid show ?thesis by auto
    next
      case yes: True
      have c1: "c1 = c\<lparr>envelopeIdx := int (Suc q), measurementIdx := -1\<rparr>" "Suc q < length es"
          "MetricName (es ! Suc q) = n"
        using step_leave [OF less.prems(1) over] step yes q by (auto split: if_splits)
      have in1: "inside es (Suc q) n c1" and m1: "measurementIdx c1 = -1"
        using less.prems(1) c1 by (simp_all add: inside_def)
      have "Suc q < run_end es (Suc q) n"
        using c1(2,3) by (simp add: run_end_def Cons_nth_drop_Suc [symmetric])
      then have Suc: "Suc q < run_end es p n" using mid by simp
      have step': "next_envelope_step c = (c1, True)" using step yes by simp
      note enter = Next_entered [OF step' in1 m1]
      have in2: "inside es (Suc q) n (c1\<lparr>measurementIdx := 0\<rparr>)" using in1 by simp
      show ?thesis
      proof (cases "Data (es ! Suc q) = []")
        case False
        then have "b" "c' = c1\<lparr>measurementIdx := 0\<rparr>" using enter less.prems(4) by simp_all
        moreover have "p \<le> Suc q" using less.prems(2) by simp
        ultimately show ?thesis using in2 Suc by auto
      next
        case True
        then have "Next (c1\<lparr>measurementIdx := 0\<rparr>) = (c', b)" using enter less.prems(4) by simp
        from less.hyps [OF _ in2 _ Suc this] q less.prems(2) show ?thesis by simp
      qed
    qed
  qed
qed

lemma boundary_Next:
  assumes "boundary es p c" "p < length es" "MetricName (es ! p) = n" "n \<noteq> []" "Next c = (c', b)"
  shows "if b then \<exists>q'. p \<le> q' \<and> q' < run_end es p n \<and> inside es q' n c' else finished es (run_end es p n) c'"
proof -
  define c1 where "c1 = c\<lparr>envelopeIdx := int p, measurementIdx := -1, cMetricName := n\<rparr>"
  have step: "next_envelope_step c = (c1, True)"
    using step_enter [OF assms(1,2)] assms(3) by (simp add: c1_def)
  have in1: "inside es p n c1" and m1: "measurementIdx c1 = -1"
    using assms by (simp_all add: inside_def boundary_def c1_def)
  have in2: "inside es p n (c1\<lparr>measurementIdx := 0\<rparr>)" using in1 by simp
  have gt: "p < run_end es p n"
    using assms(2,3) by (simp add: run_end_def Cons_nth_drop_Suc [symmetric])
  note enter = Next_entered [OF step in1 m1]
  show ?thesis
  proof (cases "Data (es ! p) = []")
    case False
    then have "b" "c' = c1\<lparr>measurementIdx := 0\<rparr>" using enter assms(5) by simp_all
    with in2 gt show ?thesis by auto
  next
    case True
    then have "Next (c1\<lparr>measurementIdx := 0\<rparr>) = (c', b)" using enter assms(5) by simp
    from inside_Next [OF in2 _ gt this] show ?thesis by simp
  qed
qed

lemma next_calls_inside:
  assumes "inside es q n c" "p \<le> q" "q < run_end es p n"
  shows "on_run es p n (next_calls k c)"
  using assms
proof (induction k arbitrary: q c)
  case 0
  then show ?case by (auto simp: on_run_def)
next
  case (Suc k)
  obtain c' b where nx: "Next c = (c', b)" by fastforce
  note res = inside_Next [OF Suc.prems nx]
  show ?case
  proof (cases b)
    case True
    then obtain q' where "p \<le> q'" "q' < run_end es p n" "inside es q' n c'" using res by auto
    with Suc.IH nx True show ?thesis by simp
  next
    case False
    with res nx show ?thesis by (simp add: on_run_def)
  qed
qed

lemma next_calls_on_run:
  assumes "boundary es p c" "p < length es" "MetricName (es ! p) = n" "n \<noteq> []"
  shows "on_run es p n (next_calls k c)"
proof (cases k)
  case 0
  with assms(1) show ?thesis by (simp add: on_run_def)
next
  case (Suc k')
  obtain c' b where nx: "Next c = (c', b)" by fastforce
  note res = boundary_Next [OF assms nx]
  show ?thesis
  proof (cases b)
    case True
    then obtain q' where "p \<le> q'" "q' < run_end es p n" "inside es q' n c'" using res by auto
    with next_calls_inside nx True Suc show ?thesis by simp
  next
    case False
    with res nx Suc show ?thesis by (simp add: on_run_def)
  qed
qed

section \<open>The whole batch\<close>

text \<open>The calls that a batch leads to: one for each run of envelopes of one metric.\<close>

function runs :: "envelope list \<Rightarrow> nat \<Rightarrow> (string \<times> nat) list" where
  "runs es p =
     (if p < length es then (MetricName (es ! p), p) # runs es (run_end es p (MetricName (es ! p))) else [])"
  by pat_completeness auto
termination
proof (relation "measure (\<lambda>(es, p). length es - p)")
  fix es :: "envelope list" and p
  assume "p < length es"
  moreover from this have "p < run_end es p (MetricName (es ! p))"
    by (simp add: run_end_def Cons_nth_drop_Suc [symmetric])
  ultimately show "((es, run_end es p (MetricName (es ! p))), es, p) \<in> measure (\<lambda>(es, p). length es - p)"
    by simp
qed simp

declare runs.simps [simp del]

fun expected_calls ::
  "(gofloat \<Rightarrow> string) \<Rightarrow> int \<Rightarrow> (nat \<Rightarrow> fate) \<Rightarrow> envelope list \<Rightarrow> nat \<Rightarrow> (string \<times> nat) list \<Rightarrow> copy_call list" where
  "expected_calls ff now fates es k [] = []"
| "expected_calls ff now fates es k ((n, p) # rest) =
     (case fates k of
        Done \<Rightarrow> (Some n, Some (run_rows ff now es p n)) # expected_calls ff now fates es (Suc k) rest
      | FailAfter _ err \<Rightarrow>
          (Some n, None) # (if err = ConnectError then [] else expected_calls ff now fates es (Suc k) rest))"

fun expected_force :: "(nat \<Rightarrow> fate) \<Rightarrow> nat \<Rightarrow> bool \<Rightarrow> 'a list \<Rightarrow> bool" where
  "expected_force fates k force [] = force"
| "expected_force fates k force (_ # rest) =
     (case fates k of
        Done \<Rightarrow> expected_force fates (Suc k) force rest
      | FailAfter _ err \<Rightarrow>
          (if err = ConnectError then force
           else expected_force fates (Suc k) (case err of PgError code \<Rightarrow> code = ''23514'' | _ \<Rightarrow> force) rest))"

lemma finished_cases: "finished es p c \<Longrightarrow> EOF c \<and> p \<ge> length es \<or> boundary es p c \<and> p < length es \<and> \<not> EOF c"
  by (auto simp: finished_def EOF_def boundary_def split: if_splits)

lemma boundary_next_metric: "boundary es p c \<Longrightarrow> p < length es \<Longrightarrow> next_metric c = Some (MetricName (es ! p))"
  by (auto simp: boundary_def next_metric_def)

text \<open>The loop ends, and makes exactly these calls.\<close>

lemma flush_loop_runs:
  assumes "\<forall>e\<in>set es. MetricName e \<noteq> []" "finished es p c"
  shows "flush_loop ff now fates k force c =
    Some (expected_calls ff now fates es k (runs es p), expected_force fates k force (runs es p))"
  using assms(2)
proof (induction "length es - p" arbitrary: p c k force rule: less_induct)
  case less
  show ?case
  proof (cases "p < length es")
    case False
    then have "EOF c" using finished_cases [OF less.prems] by auto
    moreover have "runs es p = []" using False by (subst runs.simps) simp
    ultimately show ?thesis by (subst flush_loop.simps) simp
  next
    case True
    then have b: "boundary es p c" and ne: "\<not> EOF c" using finished_cases [OF less.prems] by auto
    let ?n = "MetricName (es ! p)"
    have n: "?n \<noteq> []" using assms(1) True by simp
    have nm: "next_metric c = Some ?n" using boundary_next_metric [OF b True] .
    have gt: "p < run_end es p ?n"
      using True by (simp add: run_end_def Cons_nth_drop_Suc [symmetric])
    then have rec: "length es - run_end es p ?n < length es - p" using True by simp
    have runs: "runs es p = (?n, p) # runs es (run_end es p ?n)"
      using True by (subst runs.simps) simp
    show ?thesis
    proof (cases "fates k")
      case Done
      obtain c' where c': "copy_rows ff now c = Some (c', run_rows ff now es p ?n)" "finished es (run_end es p ?n) c'"
        using copy_rows_boundary [OF b True n] by blast
      note ih = less.hyps [OF rec c'(2), of "Suc k" force]
      from ih ne Done c'(1) nm runs show ?thesis by (subst flush_loop.simps) simp
    next
      case (FailAfter m err)
      let ?c = "SkipMetric (Some ?n) (next_calls m c)"
      have fin: "finished es (run_end es p ?n) ?c"
        using SkipMetric_finishes [OF next_calls_on_run [OF b True refl n] True refl] .
      show ?thesis
      proof (cases "err = ConnectError")
        case True
        with ne FailAfter nm runs show ?thesis by (subst flush_loop.simps) simp
      next
        case False
        note ih = less.hyps [OF rec fin, of "Suc k" "case err of PgError code \<Rightarrow> code = ''23514'' | _ \<Rightarrow> force"]
        from ih ne FailAfter nm runs False show ?thesis by (subst flush_loop.simps) simp
      qed
    qed
  qed
qed

text \<open>In a sorted batch the envelopes of one metric are one run.\<close>

definition sorted_envs :: "envelope list \<Rightarrow> bool" where
  "sorted_envs es \<longleftrightarrow> sorted_wrt (\<lambda>a b. \<not> str_less (MetricName b) (MetricName a)) es"

lemma sorted_run:
  "sorted_envs xs \<Longrightarrow> (\<forall>x\<in>set xs. \<not> str_less (MetricName x) n) \<Longrightarrow>
     filter (\<lambda>x. MetricName x = n) xs = takeWhile (\<lambda>x. MetricName x = n) xs \<and>
     (\<forall>x\<in>set (dropWhile (\<lambda>x. MetricName x = n) xs). MetricName x \<noteq> n)"
proof (induction xs)
  case (Cons x xs)
  show ?case
  proof (cases "MetricName x = n")
    case True
    have "sorted_envs xs" using Cons.prems(1) by (simp add: sorted_envs_def)
    moreover have "\<forall>x\<in>set xs. \<not> str_less (MetricName x) n" using Cons.prems(2) by simp
    ultimately have ih: "filter (\<lambda>x. MetricName x = n) xs = takeWhile (\<lambda>x. MetricName x = n) xs"
        "\<forall>x\<in>set (dropWhile (\<lambda>x. MetricName x = n) xs). MetricName x \<noteq> n"
      using Cons.IH by blast+
    from True ih(2) show ?thesis
      unfolding filter.simps takeWhile.simps dropWhile.simps if_P [OF True] ih(1) by blast
  next
    case False
    moreover have "\<not> str_less (MetricName x) n" using Cons.prems(2) by simp
    ultimately have "str_less n (MetricName x)" using str_less_linear by blast
    then have "MetricName y \<noteq> n" if "y \<in> set xs" for y
      using Cons.prems(1) that by (auto simp: sorted_envs_def)
    with False show ?thesis by (auto simp: filter_empty_conv)
  qed
qed simp

lemma drop_run_end: "drop (run_end es p n) es = dropWhile (\<lambda>e. MetricName e = n) (drop p es)"
  unfolding run_end_def dropWhile_eq_drop drop_drop by (simp add: add.commute)

lemma take_run_end: "take (run_end es p n) es = take p es @ takeWhile (\<lambda>e. MetricName e = n) (drop p es)"
  unfolding run_end_def take_add by (simp flip: takeWhile_eq_take)

lemma runs_spec:
  assumes "sorted_envs es" "\<forall>a\<in>set (take p es). \<forall>b\<in>set (drop p es). MetricName a \<noteq> MetricName b"
  shows "distinct (map fst (runs es p)) \<and> set (map fst (runs es p)) = MetricName ` set (drop p es) \<and>
    (\<forall>(n, q)\<in>set (runs es p). takeWhile (\<lambda>e. MetricName e = n) (drop q es) = filter (\<lambda>e. MetricName e = n) es)"
  using assms
proof (induction es p rule: runs.induct)
  case (1 es p)
  show ?case
  proof (cases "p < length es")
    case False
    then show ?thesis by (subst (1 2 3) runs.simps) simp
  next
    case True
    let ?n = "MetricName (es ! p)" and ?r = "run_end es p (MetricName (es ! p))"
    let ?P = "\<lambda>e. MetricName e = ?n"
    have dp: "drop p es = es ! p # drop (Suc p) es" using True by (simp add: Cons_nth_drop_Suc)
    have sorted: "sorted_envs (drop p es)"
      using "1.prems"(1) unfolding sorted_envs_def by (rule sorted_wrt_drop)
    then have "\<forall>x\<in>set (drop p es). \<not> str_less (MetricName x) ?n"
      unfolding dp by (auto simp: sorted_envs_def)
    note run = sorted_run [OF sorted this]
    have apart: "\<forall>a\<in>set (take ?r es). \<forall>b\<in>set (drop ?r es). MetricName a \<noteq> MetricName b"
    proof (intro ballI)
      fix a b assume a: "a \<in> set (take ?r es)" and b: "b \<in> set (drop ?r es)"
      from b have b': "b \<in> set (dropWhile ?P (drop p es))" by (simp only: drop_run_end)
      then have bp: "b \<in> set (drop p es)" using set_dropWhileD by metis
      from a consider "a \<in> set (take p es)" | "a \<in> set (takeWhile ?P (drop p es))"
        unfolding take_run_end by auto
      then show "MetricName a \<noteq> MetricName b"
      proof cases
        case 1
        with "1.prems"(2) bp show ?thesis by blast
      next
        case 2
        then have "MetricName a = ?n" using set_takeWhileD by metis
        with run b' show ?thesis by metis
      qed
    qed
    note ih = "1.IH" [OF True "1.prems"(1) apart]
    have runs: "runs es p = (?n, p) # runs es ?r" using True by (subst runs.simps) simp
    have rest: "set (drop ?r es) = {x \<in> set (drop p es). MetricName x \<noteq> ?n}"
    proof -
      have "drop p es = takeWhile ?P (drop p es) @ dropWhile ?P (drop p es)" by simp
      then have "set (drop p es) = set (takeWhile ?P (drop p es)) \<union> set (dropWhile ?P (drop p es))"
        by (metis set_append)
      moreover have "MetricName x = ?n" if "x \<in> set (takeWhile ?P (drop p es))" for x
        using set_takeWhileD [OF that] by blast
      moreover have "MetricName x \<noteq> ?n" if "x \<in> set (dropWhile ?P (drop p es))" for x
        using run that by blast
      ultimately show ?thesis unfolding drop_run_end by blast
    qed
    have "filter ?P (take p es) = []"
      using "1.prems"(2) dp by (auto simp: filter_empty_conv)
    then have "filter ?P es = filter ?P (drop p es)"
      using filter_append [of ?P "take p es" "drop p es"] by simp
    then have first: "takeWhile ?P (drop p es) = filter ?P es"
      unfolding conjunct1 [OF run] by (rule sym)
    have names: "MetricName ` set (drop p es) = insert ?n (MetricName ` set (drop ?r es))"
    proof -
      have "es ! p \<in> set (drop p es)" unfolding dp by simp
      with rest show ?thesis by blast
    qed
    have new: "?n \<notin> MetricName ` set (drop ?r es)" unfolding rest by (simp add: image_iff) metis
    show ?thesis
      unfolding runs names using ih first new by simp
  qed
qed

lemma expected_calls_spec:
  assumes "\<forall>k n err. fates k = FailAfter n err \<longrightarrow> err \<noteq> ConnectError"
  shows "map fst (expected_calls ff now fates es k rs) = map (Some \<circ> fst) rs \<and>
    (\<forall>i<length rs. snd (expected_calls ff now fates es k rs ! i) =
       (if fates (k + i) = Done then Some (run_rows ff now es (snd (rs ! i)) (fst (rs ! i))) else None))"
proof (induction rs arbitrary: k)
  case (Cons r rs)
  obtain n p where r: "r = (n, p)" by fastforce
  note ih = Cons [of "Suc k"]
  have ex: "expected_calls ff now fates es k (r # rs) =
      (Some n, if fates k = Done then Some (run_rows ff now es p n) else None) # expected_calls ff now fates es (Suc k) rs"
    using assms r by (cases "fates k") auto
  have "snd (expected_calls ff now fates es k (r # rs) ! i) =
      (if fates (k + i) = Done then Some (run_rows ff now es (snd ((r # rs) ! i)) (fst ((r # rs) ! i))) else None)"
    if "i < length (r # rs)" for i
    using that ih r unfolding ex by (cases i) auto
  moreover have "map fst (expected_calls ff now fates es k (r # rs)) = map (Some \<circ> fst) (r # rs)"
    using ih r unfolding ex by simp
  ultimately show ?case by blast
qed simp

definition flushed :: "pg_env \<Rightarrow> envelope list \<Rightarrow> envelope list" where
  "flushed env msgs = map (stamped (pg_now env)) (pg_sort env msgs)"

lemma flushed_names:
  assumes "mset (pg_sort env msgs) = mset msgs"
  shows "MetricName ` set (flushed env msgs) = MetricName ` set msgs" "flushed env msgs = [] \<longleftrightarrow> msgs = []"
proof -
  have "set (pg_sort env msgs) = set msgs" using assms by (metis set_mset_mset)
  then show "MetricName ` set (flushed env msgs) = MetricName ` set msgs" by (simp add: flushed_def image_image)
  show "flushed env msgs = [] \<longleftrightarrow> msgs = []"
    using assms by (metis flushed_def list.map_disc_iff mset_zero_iff)
qed

lemma sorted_flushed: "sorted_envs (flushed env msgs) \<longleftrightarrow> sorted_envs (pg_sort env msgs)"
  by (simp add: flushed_def sorted_envs_def sorted_wrt_map)

lemma flush_runs:
  assumes "msgs \<noteq> []" "\<forall>e\<in>set msgs. MetricName e \<noteq> []" "mset (pg_sort env msgs) = mset msgs"
  defines "es \<equiv> flushed env msgs"
  shows "\<exists>w'. flush env msgs w =
      Some (w', expected_calls (pg_float env) (pg_now env) (pg_fates env) es 0 (runs es 0)) \<and>
    forceRecreatePartitions w' = expected_force (pg_fates env) 0 False (runs es 0)"
proof -
  have ne: "es \<noteq> []" using assms(1) flushed_names(2) [OF assms(3)] by (simp add: es_def)
  have names: "\<forall>e\<in>set es. MetricName e \<noteq> []"
    using assms(2) flushed_names(1) [OF assms(3)] by (metis es_def imageE imageI)
  have "finished es 0 (newCopyFromMeasurements es)"
    using ne by (simp add: finished_def boundary_def newCopyFromMeasurements_def)
  from flush_loop_runs [OF names this] show ?thesis
    using assms(1) by (simp add: flush_def es_def flushed_def Let_def split_beta)
qed

text \<open>The calls of a flush, whatever their outcome short of a lost connection.\<close>

lemma flush_calls:
  assumes "msgs \<noteq> []" "\<forall>e\<in>set msgs. MetricName e \<noteq> []"
    and "mset (pg_sort env msgs) = mset msgs" "sorted_envs (pg_sort env msgs)"
    and "\<forall>k n err. pg_fates env k = FailAfter n err \<longrightarrow> err \<noteq> ConnectError"
  shows "\<exists>w' calls. flush env msgs w = Some (w', calls) \<and>
    distinct (map fst calls) \<and> set (map fst calls) = Some ` MetricName ` set msgs \<and>
    (\<forall>i<length calls. \<exists>n. fst (calls ! i) = Some n \<and> snd (calls ! i) =
       (if pg_fates env i = Done
        then Some (concat (map (env_rows (pg_float env) (pg_now env)) (filter (\<lambda>e. MetricName e = n) (flushed env msgs))))
        else None))"
proof -
  let ?es = "flushed env msgs"
  let ?calls = "expected_calls (pg_float env) (pg_now env) (pg_fates env) ?es 0 (runs ?es 0)"
  have names: "MetricName ` set ?es = MetricName ` set msgs" using flushed_names(1) [OF assms(3)] .
  have sorted: "sorted_envs ?es" using assms(4) by (simp add: sorted_flushed)
  obtain w' where fl: "flush env msgs w = Some (w', ?calls)"
    using flush_runs [OF assms(1-3)] by blast
  have r: "distinct (map fst (runs ?es 0))" "set (map fst (runs ?es 0)) = MetricName ` set ?es"
    "\<forall>(n, q)\<in>set (runs ?es 0). takeWhile (\<lambda>e. MetricName e = n) (drop q ?es) = filter (\<lambda>e. MetricName e = n) ?es"
    using runs_spec [OF sorted, of 0] by auto
  note ec = expected_calls_spec [OF assms(5), of "pg_float env" "pg_now env" ?es 0 "runs ?es 0"]
  have fsts: "map fst ?calls = map Some (map fst (runs ?es 0))" using ec by simp
  then have len: "length ?calls = length (runs ?es 0)" by (metis length_map)
  have "\<exists>n. fst (?calls ! i) = Some n \<and> snd (?calls ! i) =
       (if pg_fates env i = Done
        then Some (concat (map (env_rows (pg_float env) (pg_now env)) (filter (\<lambda>e. MetricName e = n) ?es))) else None)"
    if i: "i < length ?calls" for i
  proof -
    obtain n q where nq: "runs ?es 0 ! i = (n, q)" by fastforce
    have mem: "(n, q) \<in> set (runs ?es 0)" using i len nq by (metis nth_mem)
    have "fst (?calls ! i) = Some n" using fsts i len nq by (metis fst_conv length_map nth_map)
    moreover have "run_rows (pg_float env) (pg_now env) ?es q n =
        concat (map (env_rows (pg_float env) (pg_now env)) (filter (\<lambda>e. MetricName e = n) ?es))"
      using r(3) mem by (auto simp: run_rows_def)
    ultimately show ?thesis using ec i len nq by auto
  qed
  moreover have "distinct (map fst ?calls)" unfolding fsts distinct_map [of Some] using r(1) by simp
  moreover have "set (map fst ?calls) = Some ` MetricName ` set msgs"
    unfolding fsts set_map [of Some] r(2) names by (rule refl)
  ultimately show ?thesis using fl by blast
qed


definition sample_envelope :: "string \<Rightarrow> string \<Rightarrow> envelope" where
  "sample_envelope db metric = \<lparr>DBName = db, MetricName = metric, SourceKind = ''postgres'', CustomTags = None,
     Data = [[(EpochColumnName, VInt64 7), (''tag_host'', VString db)]]\<rparr>"

definition sample_env :: pg_env where
  "sample_env = \<lparr>pg_now = 1, pg_sort = id, pg_ensure = (\<lambda>_ t. Inr \<lparr>StartTime = t, EndTime = t + 1\<rparr>),
     pg_ensure_ts = (\<lambda>_. None), pg_fates = (\<lambda>k. if k = 0 then FailAfter 1 (PgError ''23514'') else Done),
     pg_float = (\<lambda>_. [])\<rparr>"

definition sample_batch :: "envelope list" where
  "sample_batch = [sample_envelope ''db1'' ''cpu'', sample_envelope ''db2'' ''cpu'', sample_envelope ''db1'' ''wal'']"

definition sample_writer :: pg_writer where
  "sample_writer = \<lparr>metricSchema = DbStorageSchemaPostgres, forceRecreatePartitions = False, partitionMapMetric = []\<rparr>"


section \<open>The flag forceRecreatePartitions\<close>

lemma expected_force_last:
  assumes "\<forall>k n err. fates k = FailAfter n err \<longrightarrow> err \<noteq> ConnectError"
    and "fates (k + length rs) = FailAfter n (PgError code)"
  shows "expected_force fates k force (r # rs) = (code = ''23514'')"
  using assms(2)
proof (induction rs arbitrary: k force r)
  case Nil
  then show ?case by simp
next
  case (Cons r' rs)
  have ih: "expected_force fates (Suc k) f (r' # rs) = (code = ''23514'')" for f
    using Cons.IH [of "Suc k" f r'] Cons.prems by simp
  show ?case
    using assms(1) ih by (cases "fates k") (auto simp del: expected_force.simps(2) simp: expected_force.simps(2) [of _ _ _ r])
qed

text \<open>
  the request to re-create all partitions does not survive the batch. Whatever calls for the first
  metrics reported, when the call for the last metric of a batch fails with another error of the
  server the flag is cleared, and the next batch trusts the cached partitions again.
\<close>

theorem force_recreate_lost:
  assumes "msgs \<noteq> []" "\<forall>e\<in>set msgs. MetricName e \<noteq> []"
    and "mset (pg_sort env msgs) = mset msgs" "sorted_envs (pg_sort env msgs)"
    and "\<forall>k n err. pg_fates env k = FailAfter n err \<longrightarrow> err \<noteq> ConnectError"
    and "pg_fates env (card (MetricName ` set msgs) - 1) = FailAfter n (PgError code)" "code \<noteq> ''23514''"
  shows "\<exists>w' calls. flush env msgs w = Some (w', calls) \<and> \<not> forceRecreatePartitions w'"
proof -
  let ?rs = "runs (flushed env msgs) 0"
  have sorted: "sorted_envs (flushed env msgs)" using assms(4) by (simp add: sorted_flushed)
  have "distinct (map fst ?rs)" "set (map fst ?rs) = MetricName ` set msgs"
    using runs_spec [OF sorted, of 0] flushed_names(1) [OF assms(3)] by auto
  then have len: "length ?rs = card (MetricName ` set msgs)"
    by (metis distinct_card length_map)
  then have "?rs \<noteq> []" using assms(1) by auto
  then obtain r rs where rs: "?rs = r # rs" by (cases ?rs) auto
  then have "card (MetricName ` set msgs) - 1 = 0 + length rs" using len by simp
  then have "pg_fates env (0 + length rs) = FailAfter n (PgError code)" using assms(6) by (simp only:)
  then have "\<not> expected_force (pg_fates env) 0 False ?rs"
    unfolding rs using expected_force_last [OF assms(5), of 0 rs n code False r] assms(7) by blast
  with flush_runs [OF assms(1-3)] show ?thesis by metis
qed

definition lossy_env :: pg_env where
  "lossy_env = sample_env\<lparr>pg_fates := (\<lambda>k. FailAfter 1 (PgError (if k = 0 then ''23514'' else ''42P01'')))\<rparr>"

theorem force_recreate_lost_witness:
  "pg_fates lossy_env 0 = FailAfter 1 (PgError ''23514'') \<and>
   (\<exists>w' calls. flush lossy_env sample_batch sample_writer = Some (w', calls) \<and> \<not> forceRecreatePartitions w')"
proof
  show "pg_fates lossy_env 0 = FailAfter 1 (PgError ''23514'')" by (simp add: lossy_env_def)
  have c: "card (MetricName ` set sample_batch) - 1 = 1" by (simp add: sample_batch_def sample_envelope_def)
  show "\<exists>w' calls. flush lossy_env sample_batch sample_writer = Some (w', calls) \<and> \<not> forceRecreatePartitions w'"
    by (rule force_recreate_lost [where n = 1 and code = "''42P01''"], unfold c)
       (auto simp: sample_batch_def sample_envelope_def lossy_env_def sample_env_def sorted_envs_def)
qed

section \<open>The cache of envelopes\<close>

fun arrivals :: "poll_event list \<Rightarrow> envelope list" where
  "arrivals [] = []"
| "arrivals (Arrives e # evs) = e # arrivals evs"
| "arrivals (Tick # evs) = arrivals evs"

text \<open>
  the loop of the sink loses, repeats and reorders nothing: the batches it flushes followed by the
  cache are what arrived, every batch has at most 256 envelopes, and fewer than 256 are in the cache when
  the loop waits, which is all that a shutdown drops.
\<close>

theorem poll_batches:
  assumes "length cache < cacheLimit"
  shows "concat (fst (poll evs cache)) @ snd (poll evs cache) = cache @ arrivals evs \<and>
    list_all (\<lambda>b. length b \<le> cacheLimit) (fst (poll evs cache)) \<and> length (snd (poll evs cache)) < cacheLimit"
  using assms
proof (induction evs cache rule: poll.induct)
  case (2 entry evs cache)
  have pos: "length ([] :: envelope list) < cacheLimit" by (simp add: cacheLimit_def)
  show ?case
  proof (cases "length (cache @ [entry]) < cacheLimit")
    case True
    with 2(1) [OF refl] show ?thesis by simp
  next
    case False
    with 2(2) [OF refl] 2(3) pos show ?thesis by (simp add: Let_def split_beta)
  qed
next
  case (3 evs cache)
  then show ?case by (simp add: Let_def split_beta cacheLimit_def)
qed simp

theorem poll_batches_witness:
  "length ([] :: envelope list) < cacheLimit \<and>
   concat (fst (poll (map Arrives sample_batch @ [Tick]) [])) @ snd (poll (map Arrives sample_batch @ [Tick]) []) =
     sample_batch"
  using poll_batches [of "[]" "map Arrives sample_batch @ [Tick]"]
  by (simp add: cacheLimit_def sample_batch_def)

section \<open>Partitions of a batch\<close>

text \<open>The times of the envelopes of one metric that carry rows.\<close>

definition metric_times :: "int \<Rightarrow> envelope list \<Rightarrow> string \<Rightarrow> int list" where
  "metric_times now msgs m =
     map (\<lambda>e. fst (GetEpoch now (Data e))) (filter (\<lambda>e. MetricName e = m \<and> Data e \<noteq> []) msgs)"

fun times_bound :: "int list \<Rightarrow> part_info option \<Rightarrow> bool" where
  "times_bound ts None = (ts = [])"
| "times_bound ts (Some b) =
     (StartTime b \<in> set ts \<and> EndTime b \<in> set ts \<and> (\<forall>t\<in>set ts. StartTime b \<le> t \<and> t \<le> EndTime b))"

definition bounds_ok :: "int \<Rightarrow> envelope list \<Rightarrow> bounds \<Rightarrow> bool" where
  "bounds_ok now msgs pb \<longleftrightarrow> gwf pb \<and> (\<forall>m. times_bound (metric_times now msgs m) (gget pb m))"

lemma metric_times_snoc:
  "metric_times now (msgs @ [e]) m =
     metric_times now msgs m @ (if MetricName e = m \<and> Data e \<noteq> [] then [fst (GetEpoch now (Data e))] else [])"
  by (simp add: metric_times_def)

lemma times_bound_snoc:
  assumes "times_bound ts ob"
  shows "times_bound (ts @ [t]) (Some (case ob of None \<Rightarrow> \<lparr>StartTime = t, EndTime = t\<rparr>
    | Some b \<Rightarrow> b\<lparr>StartTime := min t (StartTime b), EndTime := max t (EndTime b)\<rparr>))"
  using assms by (cases ob) (auto simp: min_def max_def)

lemma gget_add_bounds:
  assumes "Data e \<noteq> []"
  shows "gget (add_bounds now e pb) m =
    (if m = MetricName e
     then Some (let t = fst (GetEpoch now (Data e)) in case gget pb m of None \<Rightarrow> \<lparr>StartTime = t, EndTime = t\<rparr>
            | Some b \<Rightarrow> b\<lparr>StartTime := min t (StartTime b), EndTime := max t (EndTime b)\<rparr>)
     else gget pb m)"
  using assms by (cases "gget pb (MetricName e)") (simp_all add: add_bounds_def Let_def map_of_gset min_def max_def)

lemma add_bounds_ok:
  assumes "bounds_ok now msgs pb"
  shows "bounds_ok now (msgs @ [e]) (add_bounds now e pb)"
proof (cases "Data e = []")
  case True
  then have "metric_times now (msgs @ [e]) = metric_times now msgs"
    by (simp add: fun_eq_iff metric_times_snoc)
  with assms True show ?thesis by (simp add: bounds_ok_def add_bounds_def)
next
  case False
  have wf: "gwf (add_bounds now e pb)"
    using assms False
    by (cases "gget pb (MetricName e)") (simp_all add: bounds_ok_def add_bounds_def Let_def)
  have "times_bound (metric_times now (msgs @ [e]) m) (gget (add_bounds now e pb) m)" for m
  proof -
    have "times_bound (metric_times now msgs m) (gget pb m)" using assms by (simp add: bounds_ok_def)
    from this times_bound_snoc [OF this, of "fst (GetEpoch now (Data e))"] show ?thesis
      unfolding gget_add_bounds [OF False] metric_times_snoc Let_def using False
      by (cases "m = MetricName e") (simp_all del: times_bound.simps)
  qed
  with wf show ?thesis by (simp add: bounds_ok_def)
qed

text \<open>
  the bounds of a batch are exact: a metric has bounds just when one of its envelopes carries rows,
  and then they are the earliest and the latest epoch of these envelopes.
\<close>

theorem part_bounds_exact:
  "gwf (part_bounds now msgs) \<and> gget (part_bounds now msgs) m =
     (if metric_times now msgs m = [] then None
      else Some \<lparr>StartTime = Min (set (metric_times now msgs m)), EndTime = Max (set (metric_times now msgs m))\<rparr>)"
proof -
  have ok: "bounds_ok now msgs (part_bounds now msgs)"
  proof (induction msgs rule: rev_induct)
    case Nil
    then show ?case by (simp add: part_bounds_def bounds_ok_def metric_times_def)
  next
    case (snoc e msgs)
    then show ?case using add_bounds_ok by (simp add: part_bounds_def)
  qed
  then have wf: "gwf (part_bounds now msgs)" by (simp add: bounds_ok_def)
  have tb: "times_bound (metric_times now msgs m) (gget (part_bounds now msgs) m)"
    using ok by (simp add: bounds_ok_def)
  show ?thesis
  proof (cases "gget (part_bounds now msgs) m")
    case None
    with tb wf show ?thesis by simp
  next
    case (Some b)
    let ?T = "set (metric_times now msgs m)"
    from tb Some have b: "StartTime b \<in> ?T" "EndTime b \<in> ?T" "\<forall>t\<in>?T. StartTime b \<le> t \<and> t \<le> EndTime b"
      by auto
    then have "Min ?T = StartTime b" "Max ?T = EndTime b"
      by (auto intro: Min_eqI Max_eqI)
    moreover have "metric_times now msgs m \<noteq> []" using b(1) by auto
    ultimately show ?thesis using wf Some by simp
  qed
qed

text \<open>What a partition must satisfy so that the latest row of a metric can be stored in it.\<close>

definition covers :: "bounds \<Rightarrow> string \<Rightarrow> int \<Rightarrow> bool" where
  "covers parts m t \<longleftrightarrow> (case gget parts m of None \<Rightarrow> False | Some p \<Rightarrow> StartTime p \<le> t \<and> t < EndTime p)"

lemma ensure_metric_frame: "m \<noteq> metric \<Longrightarrow> gget (fst (ensure_metric ensure force metric pb parts)) m = gget parts m"
  unfolding ensure_metric_def Let_def by (simp add: map_of_gset split: sum.split)

lemma ensure_metric_covers:
  assumes "\<And>t p. ensure metric t = Inr p \<Longrightarrow> StartTime p \<le> t \<and> t < EndTime p"
    and "StartTime pb \<le> EndTime pb" "ensure_metric ensure force metric pb parts = (parts', None)"
  shows "covers parts' metric (EndTime pb)"
proof -
  let ?ask = "case gget parts metric of None \<Rightarrow> True | Some p \<Rightarrow> StartTime pb < StartTime p \<or> force"
  obtain p where p: "(if ?ask then ensure metric (StartTime pb) else Inr (the (gget parts metric))) = Inr p"
    using assms(3) unfolding ensure_metric_def Let_def by (auto split: sum.splits)
  define parts1 where "parts1 = (if ?ask then gset metric p parts else parts)"
  have p1: "gget parts1 metric = Some p" and low: "StartTime p \<le> StartTime pb"
    using p assms(1) [of "StartTime pb" p]
    by (auto simp: parts1_def map_of_gset split: if_splits option.splits)
  have rest: "(if EndTime pb > EndTime p \<or> EndTime pb = EndTime p \<or> force
      then (case ensure metric (EndTime pb) of Inl err \<Rightarrow> (parts1, Some err) | Inr p \<Rightarrow> (gset metric p parts1, None))
      else (parts1, None)) = (parts', None)"
    using assms(3) unfolding ensure_metric_def Let_def p sum.case parts1_def by simp
  show ?thesis
  proof (cases "EndTime pb > EndTime p \<or> EndTime pb = EndTime p \<or> force")
    case True
    with rest obtain q where q: "ensure metric (EndTime pb) = Inr q" "parts' = gset metric q parts1"
      by (auto split: sum.splits)
    with assms(1) [OF q(1)] show ?thesis by (simp add: covers_def map_of_gset)
  next
    case False
    with rest p1 low assms(2) show ?thesis by (simp add: covers_def)
  qed
qed

text \<open>
  when the partitions of a batch could be ensured, every metric of the batch has a cached partition
  that holds its latest row, for every cache and every order of the metrics, if the SQL function
  returns a partition that contains the time it was asked for.
\<close>

theorem ensure_parts_covers:
  assumes "gwf bs" "\<And>m t p. ensure m t = Inr p \<Longrightarrow> StartTime p \<le> t \<and> t < EndTime p"
    and "\<And>m b. (m, b) \<in> set bs \<Longrightarrow> StartTime b \<le> EndTime b"
    and "ensure_parts ensure force bs parts = (parts', None)"
  shows "(\<forall>m b. gget bs m = Some b \<longrightarrow> covers parts' m (EndTime b)) \<and>
    (\<forall>m. gget bs m = None \<longrightarrow> gget parts' m = gget parts m)"
  using assms
proof (induction bs arbitrary: parts)
  case (Cons mb bs)
  obtain metric pb where mb: "mb = (metric, pb)" by fastforce
  obtain parts1 where one: "ensure_metric ensure force metric pb parts = (parts1, None)"
      and rest: "ensure_parts ensure force bs parts1 = (parts', None)"
    using Cons.prems(4) unfolding mb by (auto split: prod.splits option.splits)
  have fresh: "gget bs metric = None" using Cons.prems(1) mb by (simp add: map_of_eq_None_iff)
  have ih: "(\<forall>m b. gget bs m = Some b \<longrightarrow> covers parts' m (EndTime b)) \<and>
      (\<forall>m. gget bs m = None \<longrightarrow> gget parts' m = gget parts1 m)"
  proof (rule Cons.IH)
    show "gwf bs" using Cons.prems(1) by simp
    show "StartTime b \<le> EndTime b" if "(m, b) \<in> set bs" for m b using Cons.prems(3) [of m b] that by simp
  qed (use Cons.prems(2) rest in blast)+
  have "covers parts1 metric (EndTime pb)"
    using ensure_metric_covers [where ensure = ensure and metric = metric, OF Cons.prems(2) _ one]
      Cons.prems(3) [of metric pb] mb by simp
  then have own: "covers parts' metric (EndTime pb)" using ih fresh by (simp add: covers_def)
  have other: "gget parts1 m = gget parts m" if "m \<noteq> metric" for m
    using ensure_metric_frame [OF that] one by (metis fst_conv)
  show ?case
    using ih own other unfolding mb by auto
qed simp

theorem ensure_parts_covers_witness:
  "covers [(''wal'', \<lparr>StartTime = 4, EndTime = 14\<rparr>)] ''wal'' (EndTime \<lparr>StartTime = 2, EndTime = 4\<rparr>)"
proof -
  have "ensure_parts (\<lambda>m t. Inr \<lparr>StartTime = t, EndTime = t + (if t < 3 then 1 else 10)\<rparr>) False
      [(''wal'', \<lparr>StartTime = 2, EndTime = 4\<rparr>)] [] = ([(''wal'', \<lparr>StartTime = 4, EndTime = 14\<rparr>)], None)"
    by (simp add: ensure_metric_def)
  from ensure_parts_covers [OF _ _ _ this]
  have "\<forall>m b. gget [(''wal'', \<lparr>StartTime = 2, EndTime = 4\<rparr>)] m = Some b \<longrightarrow>
      covers [(''wal'', \<lparr>StartTime = 4, EndTime = 14\<rparr>)] m (EndTime b)"
    by auto
  from this [rule_format, of "''wal''" "\<lparr>StartTime = 2, EndTime = 4\<rparr>"] show ?thesis by simp
qed

end
