(* ===== verification/Prom_Sink.thy ===== *)
theory Prom_Sink
  imports Sink_Types
begin

text \<open>
  The Prometheus sink (\<open>internal/sinks/prometheus.go\<close>): the cache of the last envelope of each metric of
  each source, and the scrape that turns it into samples.

  The client library is a parameter: \<open>pe_const\<close> says whether \<open>NewConstMetric\<close> accepts a name with its
  labels. The two memo tables of \<open>WritePromMetrics\<close> (meta data by field, descriptors by name and label
  keys) only save work, since what they hold is a function of their keys; they are not modelled.
\<close>

section \<open>Data\<close>

datatype value_type = CounterValue | GaugeValue | UntypedValue

record prom_sample =
  fqName :: string
  ps_help :: string
  ps_type :: value_type
  ps_value :: gofloat
  labelKeys :: "string list"
  labelValues :: "string list"
  ps_time :: int

type_synonym prom_cache = "(string, (string, envelope) gomap) gomap"

record prom_writer =
  pw_gauges :: "(string, string list) gomap"
  Namespace :: string
  Cache :: prom_cache
  totalScrapes :: nat
  lastScrapeErrors :: nat

record prom_env =
  pe_float :: "gofloat \<Rightarrow> string"
  pe_const :: "string \<Rightarrow> string list \<Rightarrow> string list \<Rightarrow> goerr option"

definition promInstanceUpStateMetric :: string where "promInstanceUpStateMetric = ''instance_up''"

definition promCacheTTL :: int where "promCacheTTL = Minute * 10"

definition notSupportedMetrics :: "string list" where
  "notSupportedMetrics =
     [''change_events'', ''pgbouncer_stats'', ''pgbouncer_clients'', ''pgpool_processes'', ''pgpool_stats'']"

section \<open>The cache\<close>

text \<open>\<open>NewPrometheusWriter\<close> without the HTTP server: the namespace follows the address.\<close>

definition prom_namespace :: "string \<Rightarrow> string" where
  "prom_namespace connstr =
     (let (addr, namespace, found) = Cut connstr ''/''
      in if \<not> found \<or> namespace = [] then ''pgwatch'' else namespace)"

definition NewPrometheusWriter :: "goerr option \<Rightarrow> goerr option \<Rightarrow> string \<Rightarrow> goerr + prom_writer" where
  "NewPrometheusWriter register listen connstr =
     (case register of
        Some err \<Rightarrow> Inl err
      | None \<Rightarrow>
          (case listen of
             Some err \<Rightarrow> Inl err
           | None \<Rightarrow> Inr \<lparr>pw_gauges = [], Namespace = prom_namespace connstr, Cache = [], totalScrapes = 0,
                          lastScrapeErrors = 0\<rparr>))"

definition Prom_DefineMetrics :: "metrics \<Rightarrow> prom_writer \<Rightarrow> prom_writer" where
  "Prom_DefineMetrics ms w = w\<lparr>pw_gauges := gcopy [] (map (\<lambda>(name, m). (name, Gauges m)) (MetricDefs ms))\<rparr>"

definition InitCacheEntry :: "string \<Rightarrow> prom_writer \<Rightarrow> prom_writer" where
  "InitCacheEntry dbUnique w =
     (if ghas (Cache w) dbUnique then w else w\<lparr>Cache := gset dbUnique [] (Cache w)\<rparr>)"

definition AddCacheEntry :: "string \<Rightarrow> string \<Rightarrow> envelope \<Rightarrow> prom_writer \<Rightarrow> prom_writer" where
  "AddCacheEntry dbUnique metric msgArr w =
     (if metric \<in> set notSupportedMetrics \<and> SourceKind msgArr \<noteq> ''prometheus'' then w
      else
        (let m = (case gget (Cache w) dbUnique of None \<Rightarrow> [] | Some m \<Rightarrow> m)
         in w\<lparr>Cache := gset dbUnique (gset metric msgArr m) (Cache w)\<rparr>))"

definition PurgeCacheEntry :: "string \<Rightarrow> string \<Rightarrow> prom_writer \<Rightarrow> prom_writer" where
  "PurgeCacheEntry dbUnique metric w =
     (if metric = [] then w\<lparr>Cache := gdel dbUnique (Cache w)\<rparr>
      else case gget (Cache w) dbUnique of
             None \<Rightarrow> w
           | Some m \<Rightarrow> w\<lparr>Cache := gset dbUnique (gdel metric m) (Cache w)\<rparr>)"

definition Prom_Write :: "envelope \<Rightarrow> prom_writer \<Rightarrow> prom_writer" where
  "Prom_Write msg w = (if Data msg = [] then w else AddCacheEntry (DBName msg) (MetricName msg) msg w)"

definition Prom_SyncMetric :: "string \<Rightarrow> string \<Rightarrow> sync_op \<Rightarrow> prom_writer \<Rightarrow> prom_writer" where
  "Prom_SyncMetric sourceName metricName opr w =
     (case opr of
        DeleteOp \<Rightarrow> PurgeCacheEntry sourceName metricName w
      | AddOp \<Rightarrow> InitCacheEntry sourceName w
      | _ \<Rightarrow> w)"

section \<open>Samples\<close>

text \<open>\<open>float64(i)\<close>: to nearest, ties to even, with a significand of 53 bits.\<close>

fun excess_bits :: "nat \<Rightarrow> nat" where
  "excess_bits n = (if n < 2 ^ 53 then 0 else Suc (excess_bits (n div 2)))"

declare excess_bits.simps [simp del]

definition round53 :: "nat \<Rightarrow> nat" where
  "round53 n =
     (let e = excess_bits n; q = n div 2 ^ e; r = n mod 2 ^ e
      in (if 2 * r > 2 ^ e \<or> 2 * r = 2 ^ e \<and> odd q then Suc q else q) * 2 ^ e)"

definition f64_of_int :: "int \<Rightarrow> gofloat" where
  "f64_of_int i = Fin (of_int (sgn i * int (round53 (nat \<bar>i\<bar>))))"

fun field_value :: "goval \<Rightarrow> gofloat option" where
  "field_value (VInt t) = Some (f64_of_int t)"
| "field_value (VInt32 t) = Some (f64_of_int t)"
| "field_value (VInt64 t) = Some (f64_of_int t)"
| "field_value (VFloat32 t) = Some t"
| "field_value (VFloat64 t) = Some t"
| "field_value (VBool t) = Some (Fin (if t then 1 else 0))"
| "field_value _ = None"

text \<open>The loop over the columns of a row: labels, fields and the time of the row.\<close>

fun scan_columns :: "(gofloat \<Rightarrow> string) \<Rightarrow> bool \<Rightarrow> measurement
    \<Rightarrow> (string, string) gomap \<times> (string, gofloat) gomap \<times> int
    \<Rightarrow> (string, string) gomap \<times> (string, gofloat) gomap \<times> int" where
  "scan_columns ff isPromSource [] st = st"
| "scan_columns ff isPromSource ((k, v) # rest) (labels, flds, rowEpochTime) =
     scan_columns ff isPromSource rest
       (if k = EpochColumnName
        then (labels, flds,
              if isPromSource then (case v of VInt64 ns \<Rightarrow> if ns \<noteq> 0 then ns else rowEpochTime | _ \<Rightarrow> rowEpochTime)
              else rowEpochTime)
        else if v = VNil \<or> v = VString [] then (labels, flds, rowEpochTime)
        else case CutPrefix k TagPrefix of
               Some tag \<Rightarrow> (gset tag (sprint_v ff v) labels, flds, rowEpochTime)
             | None \<Rightarrow>
                 (case field_value v of
                    Some x \<Rightarrow> (labels, gset k x flds, rowEpochTime)
                  | None \<Rightarrow> (labels, flds, rowEpochTime)))"

text \<open>The name and type of the samples of a field; none for a column that a proxied family does not have.\<close>

definition field_meta :: "prom_writer \<Rightarrow> envelope \<Rightarrow> string \<Rightarrow> (string \<times> value_type) option" where
  "field_meta w msg field =
     (if SourceKind msg = ''prometheus''
      then (if field \<noteq> MetricName msg then None else Some (field, UntypedValue))
      else
        (let gauges = (case gget (pw_gauges w) (MetricName msg) of None \<Rightarrow> [] | Some g \<Rightarrow> g);
             vt = (if MetricName msg = promInstanceUpStateMetric \<or>
                      gauges \<noteq> [] \<and> (hd gauges = ''*'' \<or> field \<in> set gauges) then GaugeValue else CounterValue)
         in Some (if MetricName msg = promInstanceUpStateMetric then Namespace w @ ''_'' @ MetricName msg
                  else Namespace w @ ''_'' @ MetricName msg @ ''_'' @ field, vt)))"

type_synonym emission = "string list \<times> prom_sample list \<times> nat"

definition identity :: "string \<Rightarrow> string list \<Rightarrow> string" where
  "identity fq vals = fq @ ''_'' @ Join vals ''_''"

text \<open>One round of the loop over the fields of a row.\<close>

definition emit_field :: "prom_env \<Rightarrow> prom_writer \<Rightarrow> envelope \<Rightarrow> string list \<Rightarrow> string list \<Rightarrow> int
    \<Rightarrow> string \<times> gofloat \<Rightarrow> emission \<Rightarrow> emission" where
  "emit_field env w msg keys vals rowEpochTime fv st =
     (case fv of (field, value) \<Rightarrow> case st of (seen, out, errorCount) \<Rightarrow>
      case field_meta w msg field of
        None \<Rightarrow> st
      | Some (fq, vt) \<Rightarrow>
          (if identity fq vals \<in> set seen then (seen, out, Suc errorCount)
           else if pe_const env fq keys vals \<noteq> None then (identity fq vals # seen, out, Suc errorCount)
           else (identity fq vals # seen,
                 out @ [\<lparr>fqName = fq, ps_help = MetricName msg, ps_type = vt, ps_value = value, labelKeys = keys,
                         labelValues = vals, ps_time = rowEpochTime\<rparr>], errorCount)))"

definition row_scan :: "prom_env \<Rightarrow> envelope \<Rightarrow> int \<Rightarrow> measurement
    \<Rightarrow> (string, string) gomap \<times> (string, gofloat) gomap \<times> int" where
  "row_scan env msg baseEpochTime measurement =
     scan_columns (pe_float env) (SourceKind msg = ''prometheus'') measurement
       (gset ''dbname'' (DBName msg) (oentries (CustomTags msg)), [], baseEpochTime)"

definition emit_row :: "prom_env \<Rightarrow> prom_writer \<Rightarrow> envelope \<Rightarrow> int \<Rightarrow> measurement \<Rightarrow> emission \<Rightarrow> emission" where
  "emit_row env w msg baseEpochTime measurement st =
     (let (labels, flds, rowEpochTime) = row_scan env msg baseEpochTime measurement;
          keys = sort_strs (gkeys labels);
          vals = map (\<lambda>k. the (gget labels k)) keys
      in fold (emit_field env w msg keys vals rowEpochTime) flds st)"

text \<open>The samples of an envelope that is not stale, with the number of errors.\<close>

definition env_emission :: "prom_env \<Rightarrow> prom_writer \<Rightarrow> int \<Rightarrow> envelope \<Rightarrow> emission" where
  "env_emission env w now msg =
     fold (emit_row env w msg (fst (GetEpoch now (Data msg)))) (Data (stamped now msg)) ([], [], 0)"

definition is_stale :: "int \<Rightarrow> envelope \<Rightarrow> bool" where
  "is_stale now msg \<longleftrightarrow> fst (GetEpoch now (Data msg)) < now - promCacheTTL"

text \<open>Rows are shared with the cache, so stamping the envelope shows in its entry.\<close>

definition stamp_entry :: "int \<Rightarrow> envelope \<Rightarrow> prom_writer \<Rightarrow> prom_writer" where
  "stamp_entry now msg w =
     (case gget (Cache w) (DBName msg) of
        None \<Rightarrow> w
      | Some m \<Rightarrow>
          (if gget m (MetricName msg) = Some msg
           then w\<lparr>Cache := gset (DBName msg) (gset (MetricName msg) (stamped now msg) m) (Cache w)\<rparr> else w))"

definition WritePromMetrics :: "prom_env \<Rightarrow> int \<Rightarrow> envelope \<Rightarrow> prom_writer \<Rightarrow> prom_writer \<times> prom_sample list \<times> nat" where
  "WritePromMetrics env now msg w =
     (if Data msg = [] then (w, [], 0)
      else
        (let w' = stamp_entry now msg w
         in if is_stale now msg then (PurgeCacheEntry (DBName msg) (MetricName msg) w', [], 0)
            else (let (_, out, errorCount) = env_emission env w' now msg in (w', out, errorCount))))"

definition cache_entries :: "prom_cache \<Rightarrow> envelope list" where
  "cache_entries c = concat (map (\<lambda>(_, m). map snd m) c)"

fun collect_envs :: "prom_env \<Rightarrow> int \<Rightarrow> envelope list \<Rightarrow> prom_writer \<Rightarrow> prom_writer \<times> prom_sample list \<times> nat" where
  "collect_envs env now [] w = (w, [], 0)"
| "collect_envs env now (msg # msgs) w =
     (let (w, out, errors) = WritePromMetrics env now msg w;
          (w, outs, errorss) = collect_envs env now msgs w
      in (w, out @ outs, errors + errorss))"

text \<open>\<open>Collect\<close>: the writer afterwards and the samples of the cache (the three counters of the sink come on top).\<close>

definition Collect_samples :: "prom_env \<Rightarrow> int \<Rightarrow> prom_writer \<Rightarrow> prom_writer \<times> prom_sample list" where
  "Collect_samples env now w =
     (let w = w\<lparr>totalScrapes := Suc (totalScrapes w)\<rparr>
      in if Cache w = [] then (w\<lparr>lastScrapeErrors := 0\<rparr>, [])
         else (let (w, out, errors) = collect_envs env now (cache_entries (Cache w)) w
               in (w\<lparr>lastScrapeErrors := errors\<rparr>, out)))"

section \<open>Identities of samples\<close>

abbreviation sample_id :: "prom_sample \<Rightarrow> string" where
  "sample_id s \<equiv> identity (fqName s) (labelValues s)"

definition emission_ok :: "nat \<Rightarrow> emission \<Rightarrow> bool" where
  "emission_ok n st \<longleftrightarrow> (case st of (seen, out, errorCount) \<Rightarrow>
     distinct (map sample_id out) \<and> sample_id ` set out \<subseteq> set seen \<and> length out + errorCount = n)"

text \<open>The fields of a row that have a name.\<close>

definition named_fields :: "prom_env \<Rightarrow> prom_writer \<Rightarrow> envelope \<Rightarrow> int \<Rightarrow> measurement \<Rightarrow> string list" where
  "named_fields env w msg baseEpochTime m =
     filter (\<lambda>f. field_meta w msg f \<noteq> None) (gkeys (fst (snd (row_scan env msg baseEpochTime m))))"

lemma emit_field_ok:
  assumes "emission_ok n st"
  shows "emission_ok (n + (if field_meta w msg (fst fv) = None then 0 else 1)) (emit_field env w msg keys vals ts fv st)"
proof (cases "field_meta w msg (fst fv)")
  case None
  with assms show ?thesis by (simp add: emit_field_def split_beta)
next
  case (Some meta)
  obtain fq vt where meta: "meta = (fq, vt)" by fastforce
  obtain seen out ec where st: "st = (seen, out, ec)" by (cases st) auto
  show ?thesis
    using assms unfolding emit_field_def st split_beta Some meta
    by (auto simp: emission_ok_def image_subset_iff Some meta)
qed

lemma emit_fields_ok:
  "emission_ok n st \<Longrightarrow>
   emission_ok (n + length (filter (\<lambda>f. field_meta w msg f \<noteq> None) (map fst flds)))
     (fold (emit_field env w msg keys vals ts) flds st)"
proof (induction flds arbitrary: n st)
  case (Cons fv flds)
  note step = emit_field_ok [OF Cons.prems, of w msg fv env keys vals ts]
  from Cons.IH [OF step] show ?case
    by (cases "field_meta w msg (fst fv)") (simp_all add: add.assoc)
qed simp

lemma emit_row_ok:
  assumes "emission_ok n st"
  shows "emission_ok (n + length (named_fields env w msg base m)) (emit_row env w msg base m st)"
proof -
  obtain labels flds ts where scan: "row_scan env msg base m = (labels, flds, ts)" by (cases "row_scan env msg base m") auto
  show ?thesis
    using emit_fields_ok [OF assms, of w msg flds env] by (simp add: emit_row_def named_fields_def scan Let_def)
qed

lemma emit_rows_ok:
  "emission_ok n st \<Longrightarrow>
   emission_ok (n + sum_list (map (\<lambda>m. length (named_fields env w msg base m)) ms)) (fold (emit_row env w msg base) ms st)"
proof (induction ms arbitrary: n st)
  case (Cons m ms)
  from Cons.IH [OF emit_row_ok [OF Cons.prems]] show ?case by (simp add: add.assoc)
qed simp

text \<open>
  C25: within one envelope no two samples share a name and label values, and nothing is lost silently:
  every field with a name either becomes a sample or is counted as an error.
\<close>

theorem env_emission_distinct:
  assumes "env_emission env w now msg = (seen, out, errorCount)"
  shows "distinct (map (\<lambda>s. (fqName s, labelValues s)) out) \<and>
    length out + errorCount =
      sum_list (map (\<lambda>m. length (named_fields env w msg (fst (GetEpoch now (Data msg))) m)) (Data (stamped now msg)))"
proof -
  have "emission_ok 0 ([], [], 0)" by (simp add: emission_ok_def)
  from emit_rows_ok [OF this, of env w msg "fst (GetEpoch now (Data msg))" "Data (stamped now msg)"]
  have ok: "emission_ok (sum_list (map (\<lambda>m. length (named_fields env w msg (fst (GetEpoch now (Data msg))) m))
      (Data (stamped now msg)))) (seen, out, errorCount)"
    using assms by (simp add: env_emission_def)
  then have "distinct (map (case_prod identity) (map (\<lambda>s. (fqName s, labelValues s)) out))"
    by (simp add: emission_ok_def comp_def)
  then have "distinct (map (\<lambda>s. (fqName s, labelValues s)) out)" by (simp only: distinct_map)
  with ok show ?thesis by (simp add: emission_ok_def)
qed

definition sample_env :: prom_env where
  "sample_env = \<lparr>pe_float = (\<lambda>_. []), pe_const = (\<lambda>_ _ _. None)\<rparr>"

definition empty_writer :: prom_writer where
  "empty_writer = \<lparr>pw_gauges = [], Namespace = ''ns'', Cache = [], totalScrapes = 0, lastScrapeErrors = 0\<rparr>"

definition sample_msg :: "string \<Rightarrow> measurements \<Rightarrow> envelope" where
  "sample_msg metric ms = \<lparr>DBName = ''db'', MetricName = metric, SourceKind = ''postgres'', CustomTags = None, Data = ms\<rparr>"

lemmas sample_defs = sample_env_def empty_writer_def sample_msg_def
lemmas scan_defs = EpochColumnName_def TagPrefix_def CutPrefix_def HasPrefix_def
lemmas epoch_defs = GetEpoch_def Measurement_GetEpoch_def stamped_def
lemmas emission_defs = env_emission_def emit_row_def row_scan_def emit_field_def field_meta_def Let_def identity_def
  sort_by_def oentries_def promInstanceUpStateMetric_def

theorem env_emission_distinct_witness:
  "let msg = sample_msg ''m'' [[(''epoch_ns'', VInt64 5), (''x'', VBool True)], [(''x'', VBool False)]];
       (_, out, errorCount) = env_emission sample_env empty_writer 7 msg
   in length out = 1 \<and> errorCount = 1 \<and> distinct (map (\<lambda>s. (fqName s, labelValues s)) out)"
proof -
  let ?msg = "sample_msg ''m'' [[(''epoch_ns'', VInt64 5), (''x'', VBool True)], [(''x'', VBool False)]]"
  obtain seen out ec where e: "env_emission sample_env empty_writer 7 ?msg = (seen, out, ec)"
    by (cases "env_emission sample_env empty_writer 7 ?msg") auto
  have "length out = 1" "ec = 1"
    using e by (auto simp: emission_defs sample_defs scan_defs epoch_defs)
  with e env_emission_distinct [OF e] show ?thesis by (simp add: Let_def)
qed

section \<open>The cache over scrapes\<close>

text \<open>Entries lie under their own names, and only envelopes with rows are kept.\<close>

definition entry_ok :: "string \<Rightarrow> string \<Rightarrow> envelope \<Rightarrow> bool" where
  "entry_ok db k e \<longleftrightarrow> DBName e = db \<and> MetricName e = k \<and> k \<noteq> [] \<and> Data e \<noteq> []"

definition cache_ok :: "prom_cache \<Rightarrow> bool" where
  "cache_ok c \<longleftrightarrow> gwf c \<and> (\<forall>db m. gget c db = Some m \<longrightarrow> gwf m \<and> (\<forall>k e. gget m k = Some e \<longrightarrow> entry_ok db k e))"

lemma cache_ok_gset:
  "cache_ok c \<Longrightarrow> gwf m \<Longrightarrow> (\<And>k e. gget m k = Some e \<Longrightarrow> entry_ok db k e) \<Longrightarrow> cache_ok (gset db m c)"
  by (auto simp: cache_ok_def map_of_gset split: if_splits)

lemma cache_ok_gdel: "cache_ok c \<Longrightarrow> cache_ok (gdel db c)"
  by (auto simp: cache_ok_def map_of_gdel split: if_splits)

lemma cache_ok_get: "cache_ok c \<Longrightarrow> gget c db = Some m \<Longrightarrow> gwf m \<and> (\<forall>k e. gget m k = Some e \<longrightarrow> entry_ok db k e)"
  by (simp add: cache_ok_def)

text \<open>The fold over a scrape: the entries under the names in \<open>K\<close> were visited.\<close>

definition visit :: "int \<Rightarrow> (string \<times> string) set \<Rightarrow> string \<Rightarrow> (string, envelope) gomap \<Rightarrow> (string, envelope) gomap" where
  "visit now K db m =
     map (\<lambda>(k, e). (k, if (db, k) \<in> K then stamped now e else e))
       (filter (\<lambda>(k, e). (db, k) \<in> K \<longrightarrow> \<not> is_stale now e) m)"

definition visited :: "int \<Rightarrow> (string \<times> string) set \<Rightarrow> prom_cache \<Rightarrow> prom_cache" where
  "visited now K c = map (\<lambda>(db, m). (db, visit now K db m)) c"

lemma gset_known: "gwf c \<Longrightarrow> gget c k = Some v \<Longrightarrow> gset k v' c = map (\<lambda>(d, x). (d, if d = k then v' else x)) c"
proof (induction c)
  case (Cons dx c)
  obtain d x where dx: "dx = (d, x)" by fastforce
  show ?case
  proof (cases "d = k")
    case True
    have "map (\<lambda>(d, x). (d, if d = k then v' else x)) c = c"
      using Cons.prems(1) True dx by (intro map_idI) (auto simp: image_iff)
    with True dx show ?thesis by simp
  next
    case False
    with Cons dx show ?thesis by simp
  qed
qed simp

lemma visited_get: "gget (visited now K c) db = map_option (visit now K db) (gget c db)"
  by (induction c) (auto simp: visited_def)

lemma visit_get_new: "(db, k) \<notin> K \<Longrightarrow> gget (visit now K db m) k = gget m k"
  by (induction m) (auto simp: visit_def)

lemma gwf_visit: "gwf m \<Longrightarrow> gwf (visit now K db m)"
  by (simp add: visit_def comp_def case_prod_beta distinct_map_filter)

lemma gwf_visited: "gwf c \<Longrightarrow> gwf (visited now K c)"
  by (simp add: visited_def comp_def case_prod_beta)

lemma visit_other: "db \<noteq> d \<Longrightarrow> visit now (insert (db, k) K) d m = visit now K d m"
  by (simp add: visit_def)

lemma visited_insert:
  assumes "gwf c" "gget c db = Some m"
  shows "visited now (insert (db, k) K) c = gset db (visit now (insert (db, k) K) db m) (visited now K c)"
proof -
  have known: "gget (visited now K c) db = Some (visit now K db m)" using assms(2) by (simp add: visited_get)
  have same: "x = m" if "(db, x) \<in> set c" for x
    using that assms by (metis map_of_is_SomeI option.inject)
  show ?thesis
    unfolding gset_known [OF gwf_visited [OF assms(1)] known]
    unfolding visited_def map_map comp_def
    using same by (auto simp: visit_other)
qed

lemma visit_insert_fresh:
  assumes "gwf m" "gget m k = Some e" "(db, k) \<notin> K" "\<not> is_stale now e"
  shows "visit now (insert (db, k) K) db m = gset k (stamped now e) (visit now K db m)"
proof -
  have known: "gget (visit now K db m) k = Some e" using assms by (simp add: visit_get_new)
  have same: "x = e" if "(k, x) \<in> set m" for x
    using that assms by (metis map_of_is_SomeI option.inject)
  have filt: "filter (\<lambda>(k', e'). (db, k') \<in> insert (db, k) K \<longrightarrow> \<not> is_stale now e') m =
      filter (\<lambda>(k', e'). (db, k') \<in> K \<longrightarrow> \<not> is_stale now e') m"
    by (rule filter_cong) (use same assms(3,4) in auto)
  show ?thesis
    unfolding gset_known [OF gwf_visit [OF assms(1)] known]
    unfolding visit_def map_map comp_def filt
    using same assms(3) by auto
qed

lemma visit_insert_stale:
  assumes "gwf m" "gget m k = Some e" "(db, k) \<notin> K" "is_stale now e"
  shows "visit now (insert (db, k) K) db m = gdel k (visit now K db m)"
proof -
  have same: "x = e" if "(k, x) \<in> set m" for x
    using that assms by (metis map_of_is_SomeI option.inject)
  then have "\<forall>x. (k, x) \<in> set m \<longrightarrow> is_stale now x" using assms(4) by blast
  then show ?thesis by (induction m) (auto simp: visit_def)
qed

lemma env_emission_cong:
  assumes "pw_gauges w' = pw_gauges w" "Namespace w' = Namespace w"
  shows "env_emission env w' now msg = env_emission env w now msg"
proof -
  have "field_meta w' = field_meta w" using assms by (simp add: field_meta_def fun_eq_iff)
  then have "emit_field env w' = emit_field env w" by (simp add: emit_field_def fun_eq_iff)
  then have "emit_row env w' msg b m st = emit_row env w msg b m st" for msg b m st by (simp only: emit_row_def)
  then have "emit_row env w' = emit_row env w" by (intro ext)
  then show ?thesis by (simp add: env_emission_def)
qed

text \<open>What a scrape emits for one entry.\<close>

definition env_samples :: "prom_env \<Rightarrow> prom_writer \<Rightarrow> int \<Rightarrow> envelope \<Rightarrow> prom_sample list" where
  "env_samples env w now msg = (if is_stale now msg then [] else fst (snd (env_emission env w now msg)))"

lemma WritePromMetrics_visit:
  assumes "cache_ok c" "Cache w = visited now K c" "gget c db = Some m" "gget m k = Some e" "(db, k) \<notin> K"
  shows "Cache (fst (WritePromMetrics env now e w)) = visited now (insert (db, k) K) c \<and>
    pw_gauges (fst (WritePromMetrics env now e w)) = pw_gauges w \<and>
    Namespace (fst (WritePromMetrics env now e w)) = Namespace w \<and>
    fst (snd (WritePromMetrics env now e w)) = env_samples env w now e"
proof -
  have wf: "gwf c" "gwf m" and e: "DBName e = db" "MetricName e = k" "k \<noteq> []" "Data e \<noteq> []"
    using assms(1,3,4) by (auto simp: cache_ok_def entry_ok_def)
  let ?m = "visit now K db m"
  have get: "gget (Cache w) db = Some ?m" "gget ?m k = Some e"
    using assms(2-5) by (simp_all add: visited_get visit_get_new)
  have stamp: "stamp_entry now e w = w\<lparr>Cache := gset db (gset k (stamped now e) ?m) (Cache w)\<rparr>"
    using get e by (simp add: stamp_entry_def)
  have twice: "gdel k (gset k (stamped now e) ?m) = gdel k ?m" by (simp add: delete_update_same)
  note ins = visited_insert [OF wf(1) assms(3), of now k K]
  show ?thesis
  proof (cases "is_stale now e")
    case True
    have "Cache (fst (WritePromMetrics env now e w)) = gset db (gdel k ?m) (visited now K c)"
      using True e by (simp add: WritePromMetrics_def stamp PurgeCacheEntry_def map_of_gset assms(2) Let_def twice)
    then show ?thesis
      using True e ins visit_insert_stale [OF wf(2) assms(4,5) True]
      by (simp add: WritePromMetrics_def stamp PurgeCacheEntry_def map_of_gset env_samples_def Let_def)
  next
    case False
    have cong: "env_emission env (stamp_entry now e w) now e = env_emission env w now e"
      by (rule env_emission_cong) (simp_all add: stamp)
    show ?thesis
      using False e ins visit_insert_fresh [OF wf(2) assms(4,5) False] cong assms(2)
      by (simp add: WritePromMetrics_def env_samples_def split_beta Let_def stamp)
  qed
qed

lemma env_samples_cong:
  "pw_gauges w' = pw_gauges w \<Longrightarrow> Namespace w' = Namespace w \<Longrightarrow> env_samples env w' = env_samples env w"
  by (intro ext) (simp add: env_samples_def env_emission_cong [of w' w])

abbreviation entry_name :: "envelope \<Rightarrow> string \<times> string" where
  "entry_name e \<equiv> (DBName e, MetricName e)"

lemma collect_envs_visit:
  assumes "cache_ok c" "Cache w = visited now K c" "distinct (map entry_name es)" "entry_name ` set es \<inter> K = {}"
    and "\<forall>e\<in>set es. \<exists>m. gget c (DBName e) = Some m \<and> gget m (MetricName e) = Some e"
  shows "Cache (fst (collect_envs env now es w)) = visited now (K \<union> entry_name ` set es) c \<and>
    pw_gauges (fst (collect_envs env now es w)) = pw_gauges w \<and>
    Namespace (fst (collect_envs env now es w)) = Namespace w \<and>
    fst (snd (collect_envs env now es w)) = concat (map (env_samples env w now) es)"
  using assms(2-5)
proof (induction es arbitrary: w K)
  case (Cons e es)
  obtain m where m: "gget c (DBName e) = Some m" "gget m (MetricName e) = Some e" using Cons.prems(4) by auto
  obtain w1 out n where wr: "WritePromMetrics env now e w = (w1, out, n)"
    by (cases "WritePromMetrics env now e w") auto
  have "entry_name e \<notin> K" using Cons.prems(3) by auto
  from WritePromMetrics_visit [OF assms(1) Cons.prems(1) m this, of env] wr
  have w1: "Cache w1 = visited now (insert (entry_name e) K) c" "pw_gauges w1 = pw_gauges w"
      "Namespace w1 = Namespace w" "out = env_samples env w now e"
    by auto
  have ih: "Cache (fst (collect_envs env now es w1)) = visited now (insert (entry_name e) K \<union> entry_name ` set es) c \<and>
      pw_gauges (fst (collect_envs env now es w1)) = pw_gauges w1 \<and>
      Namespace (fst (collect_envs env now es w1)) = Namespace w1 \<and>
      fst (snd (collect_envs env now es w1)) = concat (map (env_samples env w1 now) es)"
    using Cons.prems by (intro Cons.IH [OF w1(1)]) auto
  then show ?case
    using wr w1 env_samples_cong [OF w1(2,3)] by (simp add: split_beta Let_def)
qed simp

lemma cache_entries_entry:
  assumes "cache_ok c" "e \<in> set (cache_entries c)"
  shows "\<exists>m. gget c (DBName e) = Some m \<and> gget m (MetricName e) = Some e"
proof -
  from assms(2) obtain db m k where m: "(db, m) \<in> set c" "(k, e) \<in> set m"
    by (auto simp: cache_entries_def)
  have c: "gget c db = Some m" using assms(1) m(1) by (simp add: cache_ok_def)
  then have "gwf m" using assms(1) by (simp add: cache_ok_def)
  then have "gget m k = Some e" using m(2) by simp
  moreover from this have "DBName e = db" "MetricName e = k"
    using cache_ok_get [OF assms(1) c] by (auto simp: entry_ok_def)
  ultimately show ?thesis using c by blast
qed

lemma cache_ok_Cons:
  assumes "cache_ok ((db, m) # c)"
  shows "cache_ok c" "gwf m" "map (\<lambda>(k, e). entry_name e) m = map (\<lambda>k. (db, k)) (gkeys m)" "db \<notin> set (gkeys c)"
proof -
  have wf: "db \<notin> set (gkeys c)" "gwf c" using assms by (auto simp: cache_ok_def)
  have "gget c d = Some x \<Longrightarrow> gget ((db, m) # c) d = Some x" for d x
    using wf(1) by (cases "d = db") (auto simp: map_of_eq_None_iff [symmetric])
  then show "cache_ok c" using assms wf(2) unfolding cache_ok_def by blast
  have m: "gwf m" "\<And>k e. gget m k = Some e \<Longrightarrow> entry_ok db k e"
    using cache_ok_get [OF assms, of db m] by auto
  then show "gwf m" by simp
  have "entry_name e = (db, k)" if "(k, e) \<in> set m" for k e
    using m(2) [of k e] m(1) that by (simp add: entry_ok_def)
  then show "map (\<lambda>(k, e). entry_name e) m = map (\<lambda>k. (db, k)) (gkeys m)" by auto
  show "db \<notin> set (gkeys c)" using wf(1) .
qed

lemma distinct_entry_names: "cache_ok c \<Longrightarrow> distinct (map entry_name (cache_entries c))"
proof (induction c)
  case (Cons dm c)
  obtain db m where dm: "dm = (db, m)" by fastforce
  note c = cache_ok_Cons [OF Cons.prems [unfolded dm]]
  have head: "map entry_name (map snd m) = map (\<lambda>k. (db, k)) (gkeys m)"
    using c(3) by (simp add: comp_def case_prod_beta)
  have "DBName e \<noteq> db" if "e \<in> set (cache_entries c)" for e
    using cache_entries_entry [OF c(1) that] c(4) by (metis map_of_eq_None_iff set_map option.distinct(1))
  then have "set (map entry_name (map snd m)) \<inter> set (map entry_name (cache_entries c)) = {}"
    unfolding head by auto
  moreover have "distinct (map entry_name (map snd m))"
    unfolding head distinct_map [of "\<lambda>k. (db, k)"] using c(2) by (auto simp: inj_on_def)
  ultimately show ?case
    using Cons.IH [OF c(1)] unfolding dm cache_entries_def by simp
qed (simp add: cache_entries_def)

lemma visited_empty: "visited now {} c = c"
  by (simp add: visited_def visit_def case_prod_beta)

lemma visited_all:
  assumes "cache_ok c"
  shows "cache_entries (visited now (entry_name ` set (cache_entries c)) c) =
    map (stamped now) (filter (\<lambda>e. \<not> is_stale now e) (cache_entries c))"
proof -
  have "map snd (visit now (entry_name ` set (cache_entries c)) db m) =
      map (stamped now) (filter (\<lambda>e. \<not> is_stale now e) (map snd m))" if dm: "(db, m) \<in> set c" for db m
  proof -
    have c: "gget c db = Some m" using assms dm by (simp add: cache_ok_def)
    have "(db, k) \<in> entry_name ` set (cache_entries c)" if ke: "(k, e) \<in> set m" for k e
    proof -
      have "e \<in> set (cache_entries c)" using ke dm by (force simp: cache_entries_def)
      moreover have "entry_name e = (db, k)"
        using cache_ok_get [OF assms c] ke by (simp add: entry_ok_def)
      ultimately show ?thesis by force
    qed
    then have K: "\<forall>(k, e)\<in>set m. (db, k) \<in> entry_name ` set (cache_entries c)" by blast
    then show ?thesis by (induction m) (auto simp: visit_def)
  qed
  then have "concat (map (\<lambda>x. map snd (visit now (entry_name ` set (cache_entries c)) (fst x) (snd x))) c) =
      concat (map (\<lambda>x. map (stamped now) (filter (\<lambda>e. \<not> is_stale now e) (map snd (snd x)))) c)"
    by (intro arg_cong [where f = concat] map_cong) auto
  then show ?thesis
    by (simp add: visited_def cache_entries_def comp_def case_prod_unfold map_concat filter_concat)
qed

lemma env_samples_stamped:
  assumes "Data e \<noteq> []"
  shows "env_samples env w t2 (stamped t1 e) = (if is_stale t2 (stamped t1 e) then [] else fst (snd (env_emission env w t1 e)))"
proof -
  have meta: "field_meta w (stamped t1 e) = field_meta w e" by (simp add: field_meta_def fun_eq_iff)
  have "emit_field env w (stamped t1 e) keys vals ts fv st = emit_field env w e keys vals ts fv st" for keys vals ts fv st
    unfolding emit_field_def meta stamped_simps by (rule refl)
  then have field: "emit_field env w (stamped t1 e) = emit_field env w e" by (intro ext)
  have "row_scan env (stamped t1 e) = row_scan env e" by (simp add: row_scan_def fun_eq_iff)
  then have "emit_row env w (stamped t1 e) b m st = emit_row env w e b m st" for b m st
    by (simp only: emit_row_def field)
  then have "emit_row env w (stamped t1 e) = emit_row env w e" by (intro ext)
  then have "env_emission env w t2 (stamped t1 e) = env_emission env w t1 e"
    unfolding env_emission_def using assms by simp
  then show ?thesis by (simp add: env_samples_def)
qed

lemma Collect_samples_cache:
  assumes "cache_ok (Cache w)"
  shows "snd (Collect_samples env now w) = concat (map (env_samples env w now) (cache_entries (Cache w)))"
    and "cache_entries (Cache (fst (Collect_samples env now w))) =
      map (stamped now) (filter (\<lambda>e. \<not> is_stale now e) (cache_entries (Cache w)))"
    and "pw_gauges (fst (Collect_samples env now w)) = pw_gauges w"
    and "Namespace (fst (Collect_samples env now w)) = Namespace w"
    and "Cache (fst (Collect_samples env now w)) = visited now (entry_name ` set (cache_entries (Cache w))) (Cache w)"
proof -
  let ?w = "w\<lparr>totalScrapes := Suc (totalScrapes w)\<rparr>" and ?es = "cache_entries (Cache w)"
  have start: "Cache ?w = visited now {} (Cache w)" by (simp add: visited_empty)
  have "\<forall>e\<in>set ?es. \<exists>m. gget (Cache w) (DBName e) = Some m \<and> gget m (MetricName e) = Some e"
    using cache_entries_entry [OF assms] by blast
  note run = collect_envs_visit [OF assms start distinct_entry_names [OF assms] Int_empty_right this, of env]
  have samples: "env_samples env ?w = env_samples env w" by (rule env_samples_cong) simp_all
  show "snd (Collect_samples env now w) = concat (map (env_samples env w now) ?es)"
    using run samples by (auto simp: Collect_samples_def Let_def split_beta cache_entries_def)
  show cache: "Cache (fst (Collect_samples env now w)) = visited now (entry_name ` set ?es) (Cache w)"
    using run by (auto simp: Collect_samples_def Let_def split_beta visited_def)
  show "cache_entries (Cache (fst (Collect_samples env now w))) = map (stamped now) (filter (\<lambda>e. \<not> is_stale now e) ?es)"
    unfolding cache using visited_all [OF assms] .
  show "pw_gauges (fst (Collect_samples env now w)) = pw_gauges w"
    "Namespace (fst (Collect_samples env now w)) = Namespace w"
    using run by (auto simp: Collect_samples_def Let_def split_beta)
qed

text \<open>
  Every operation keeps the cache well-formed: what a sink does between two scrapes is a sequence of
  these.
\<close>

datatype prom_op = OpWrite envelope | OpSync string string sync_op | OpDefine metrics | OpCollect int

fun prom_step :: "prom_env \<Rightarrow> prom_op \<Rightarrow> prom_writer \<Rightarrow> prom_writer" where
  "prom_step env (OpWrite msg) w = Prom_Write msg w"
| "prom_step env (OpSync sourceName metricName opr) w = Prom_SyncMetric sourceName metricName opr w"
| "prom_step env (OpDefine ms) w = Prom_DefineMetrics ms w"
| "prom_step env (OpCollect now) w = fst (Collect_samples env now w)"

fun op_named :: "prom_op \<Rightarrow> bool" where
  "op_named (OpWrite msg) = (MetricName msg \<noteq> [])"
| "op_named _ = True"

lemma cache_ok_visited:
  assumes "cache_ok c"
  shows "cache_ok (visited now K c)"
proof -
  have "entry_ok db k e'" if m: "gget c db = Some m" and e': "gget (visit now K db m) k = Some e'" for db m k e'
  proof -
    from cache_ok_get [OF assms m] have wf: "gwf m" and ok: "\<And>k e. gget m k = Some e \<Longrightarrow> entry_ok db k e" by auto
    from e' have "(k, e') \<in> set (visit now K db m)" by (rule map_of_SomeD)
    then obtain e where e: "(k, e) \<in> set m" "e' = (if (db, k) \<in> K then stamped now e else e)"
      by (auto simp: visit_def)
    then have "entry_ok db k e" using wf by (intro ok) simp
    with e(2) show ?thesis by (simp add: entry_ok_def)
  qed
  moreover have "gwf (visited now K c)" using assms by (simp add: cache_ok_def gwf_visited)
  moreover have "gwf (visit now K db m)" if "gget c db = Some m" for db m
    using cache_ok_get [OF assms that] by (simp add: gwf_visit)
  ultimately show ?thesis unfolding cache_ok_def visited_get by auto
qed

lemma prom_step_ok:
  assumes "cache_ok (Cache w)" "op_named opn"
  shows "cache_ok (Cache (prom_step env opn w))"
proof (cases opn)
  case (OpWrite msg)
  let ?m = "case gget (Cache w) (DBName msg) of None \<Rightarrow> [] | Some m \<Rightarrow> m"
  have m: "gwf ?m" "\<And>k e. gget ?m k = Some e \<Longrightarrow> entry_ok (DBName msg) k e"
    using cache_ok_get [OF assms(1), of "DBName msg"] by (cases "gget (Cache w) (DBName msg)"; simp)+
  have "cache_ok (gset (DBName msg) (gset (MetricName msg) msg ?m) (Cache w))" if data: "Data msg \<noteq> []"
  proof (rule cache_ok_gset [OF assms(1) gwf_gset [OF m(1)]])
    fix k e assume "gget (gset (MetricName msg) msg ?m) k = Some e"
    then have "k = MetricName msg \<and> e = msg \<or> gget ?m k = Some e"
      unfolding map_of_gset by (cases "k = MetricName msg") simp_all
    then show "entry_ok (DBName msg) k e"
    proof
      assume "k = MetricName msg \<and> e = msg"
      then show ?thesis using data assms(2) OpWrite by (simp add: entry_ok_def)
    qed (rule m(2))
  qed
  then show ?thesis using OpWrite assms(1) by (simp add: Prom_Write_def AddCacheEntry_def Let_def)
next
  case (OpSync sourceName metricName opr)
  have purge: "cache_ok (Cache (PurgeCacheEntry sourceName metricName w))"
  proof (cases "gget (Cache w) sourceName")
    case None
    then show ?thesis using assms(1) cache_ok_gdel by (simp add: PurgeCacheEntry_def)
  next
    case (Some m)
    from cache_ok_get [OF assms(1) Some]
    have "cache_ok (gset sourceName (gdel metricName m) (Cache w))"
      by (intro cache_ok_gset [OF assms(1)]) (auto simp: map_of_gdel split: if_splits)
    then show ?thesis using Some assms(1) cache_ok_gdel by (simp add: PurgeCacheEntry_def)
  qed
  have "cache_ok (Cache (InitCacheEntry sourceName w))"
    using assms(1) by (auto simp: InitCacheEntry_def intro: cache_ok_gset)
  with purge assms(1) OpSync show ?thesis by (cases opr) (simp_all add: Prom_SyncMetric_def)
next
  case (OpDefine ms)
  with assms(1) show ?thesis by (simp add: Prom_DefineMetrics_def)
next
  case (OpCollect now)
  with Collect_samples_cache(5) [OF assms(1)] cache_ok_visited [OF assms(1)] show ?thesis by simp
qed

lemma prom_run_ok:
  "cache_ok (Cache w) \<Longrightarrow> list_all op_named ops \<Longrightarrow> cache_ok (Cache (fold (prom_step env) ops w))"
  by (induction ops arbitrary: w) (auto intro: prom_step_ok)

lemma concat_map_filter: "concat (map f (filter P xs)) = concat (map (\<lambda>x. if P x then f x else []) xs)"
  by (induction xs) auto

text \<open>
  scraping consumes nothing. After any sequence of writes, synchronisations, definitions and
  scrapes on a new sink, a scrape emits the samples of every cached envelope that is not stale, and the
  next scrape emits the same samples again, except those of envelopes that have become stale since.
\<close>

theorem scrapes_repeat:
  assumes "NewPrometheusWriter register listen connstr = Inr w0" "list_all op_named ops"
    and "w = fold (prom_step env) ops w0"
  shows "snd (Collect_samples env t1 w) = concat (map (env_samples env w t1) (cache_entries (Cache w))) \<and>
    snd (Collect_samples env t2 (fst (Collect_samples env t1 w))) =
      concat (map (\<lambda>e. if is_stale t2 (stamped t1 e) then [] else env_samples env w t1 e) (cache_entries (Cache w)))"
proof -
  have "cache_ok (Cache w0)"
    using assms(1) by (auto simp: NewPrometheusWriter_def cache_ok_def split: option.splits)
  then have ok: "cache_ok (Cache w)" using assms(2) assms(3) prom_run_ok by simp
  let ?w1 = "fst (Collect_samples env t1 w)" and ?es = "cache_entries (Cache w)"
  have ok1: "cache_ok (Cache ?w1)" using Collect_samples_cache(5) [OF ok] cache_ok_visited [OF ok] by simp
  have same: "env_samples env ?w1 = env_samples env w"
    using Collect_samples_cache(3,4) [OF ok] by (rule env_samples_cong)
  have data: "Data e \<noteq> []" if "e \<in> set ?es" for e
    using cache_entries_entry [OF ok that] cache_ok_get [OF ok] by (auto simp: entry_ok_def)
  have pt: "(if \<not> is_stale t1 e then env_samples env w t2 (stamped t1 e) else []) =
      (if is_stale t2 (stamped t1 e) then [] else env_samples env w t1 e)" if "e \<in> set ?es" for e
    using env_samples_stamped [OF data [OF that], of env w t2 t1] by (simp add: env_samples_def [of env w t1])
  have "snd (Collect_samples env t2 ?w1) =
      concat (map (\<lambda>e. env_samples env w t2 (stamped t1 e)) (filter (\<lambda>e. \<not> is_stale t1 e) ?es))"
    using Collect_samples_cache(1) [OF ok1] Collect_samples_cache(2) [OF ok] same by (simp add: comp_def)
  also have "\<dots> = concat (map (\<lambda>e. if is_stale t2 (stamped t1 e) then [] else env_samples env w t1 e) ?es)"
    unfolding concat_map_filter by (intro arg_cong [where f = concat] map_cong refl pt)
  finally show ?thesis using Collect_samples_cache(1) [OF ok] by simp
qed

theorem scrapes_repeat_witness:
  "let msg = sample_msg ''m'' [[(''epoch_ns'', VInt64 5), (''x'', VBool True)]];
       w = Prom_Write msg empty_writer
   in length (snd (Collect_samples sample_env 7 w)) = 1 \<and>
      snd (Collect_samples sample_env 9 (fst (Collect_samples sample_env 7 w))) = snd (Collect_samples sample_env 7 w)"
proof -
  let ?msg = "sample_msg ''m'' [[(''epoch_ns'', VInt64 5), (''x'', VBool True)]]"
  let ?w = "Prom_Write ?msg empty_writer"
  have new: "NewPrometheusWriter None None ''host:9187/ns'' = Inr empty_writer"
    by (simp add: NewPrometheusWriter_def prom_namespace_def Cut_def HasPrefix_def empty_writer_def)
  have w: "?w = fold (prom_step sample_env) [OpWrite ?msg] empty_writer" by simp
  note rep = scrapes_repeat [OF new _ w, of 7 9]
  have es: "cache_entries (Cache ?w) = [?msg]"
    by (simp add: Prom_Write_def AddCacheEntry_def sample_defs notSupportedMetrics_def cache_entries_def)
  have fresh: "\<not> is_stale 9 (stamped 7 ?msg)"
    by (simp add: is_stale_def epoch_defs sample_defs scan_defs promCacheTTL_def Minute_def Second_def)
  have one: "length (env_samples sample_env ?w 7 ?msg) = 1"
    by (simp add: env_samples_def is_stale_def promCacheTTL_def Minute_def Second_def emission_defs sample_defs
        scan_defs epoch_defs)
  show ?thesis
    using rep fresh one by (simp add: es Let_def) (simp add: sample_defs)
qed

section \<open>Collisions of identities\<close>

text \<open>
  samples are told apart within an envelope only. One scrape emits two samples with the same name
  and labels when a metric and a field of one envelope concatenate to the same name as those of another.
\<close>

theorem Collect_duplicates:
  "let w = Prom_Write (sample_msg ''a_b'' [[(''c'', VBool True)]])
             (Prom_Write (sample_msg ''a'' [[(''b_c'', VBool False)]]) empty_writer)
   in map (\<lambda>s. (fqName s, labelKeys s, labelValues s, ps_value s)) (snd (Collect_samples sample_env 7 w)) =
      [(''ns_a_b_c'', [''dbname''], [''db''], Fin 0), (''ns_a_b_c'', [''dbname''], [''db''], Fin 1)]"
proof -
  let ?m1 = "sample_msg ''a'' [[(''b_c'', VBool False)]]" and ?m2 = "sample_msg ''a_b'' [[(''c'', VBool True)]]"
  define w where "w = Prom_Write ?m2 (Prom_Write ?m1 empty_writer)"
  have cache: "Cache w = [(''db'', [(''a'', ?m1), (''a_b'', ?m2)])]"
    by (simp add: w_def Prom_Write_def AddCacheEntry_def sample_defs notSupportedMetrics_def)
  have rest: "pw_gauges w = []" "Namespace w = ''ns''"
    by (simp_all add: w_def Prom_Write_def AddCacheEntry_def sample_defs notSupportedMetrics_def)
  have "cache_ok (Cache w)"
    unfolding cache by (simp add: cache_ok_def entry_ok_def sample_msg_def)
  from Collect_samples_cache(1) [OF this, of sample_env 7]
  have "snd (Collect_samples sample_env 7 w) = env_samples sample_env w 7 ?m1 @ env_samples sample_env w 7 ?m2"
    by (simp add: cache cache_entries_def)
  moreover have "map (\<lambda>s. (fqName s, labelKeys s, labelValues s, ps_value s)) (env_samples sample_env w 7 ?m1) =
      [(''ns_a_b_c'', [''dbname''], [''db''], Fin 0)]"
    by (simp add: env_samples_def is_stale_def promCacheTTL_def Minute_def Second_def emission_defs rest
        sample_env_def sample_msg_def scan_defs epoch_defs)
  moreover have "map (\<lambda>s. (fqName s, labelKeys s, labelValues s, ps_value s)) (env_samples sample_env w 7 ?m2) =
      [(''ns_a_b_c'', [''dbname''], [''db''], Fin 1)]"
    by (simp add: env_samples_def is_stale_def promCacheTTL_def Minute_def Second_def emission_defs rest
        sample_env_def sample_msg_def scan_defs epoch_defs)
  ultimately show ?thesis by (simp add: Let_def w_def)
qed

text \<open>
  two series of one metric whose labels differ count as the same sample when their label values
  join to the same text, and the second one is dropped.
\<close>

theorem label_collision_drops:
  "let msg = sample_msg ''m'' [[(''tag_a'', VString ''x_y''), (''tag_b'', VString ''z''), (''v'', VBool True)],
                               [(''tag_a'', VString ''x''), (''tag_b'', VString ''y_z''), (''v'', VBool False)]];
       (_, out, errorCount) = env_emission sample_env empty_writer 7 msg
   in map (\<lambda>s. (labelKeys s, labelValues s)) out = [([''a'', ''b'', ''dbname''], [''x_y'', ''z'', ''db''])] \<and> errorCount = 1"
  by (simp add: emission_defs sample_defs scan_defs epoch_defs)

end
