(* ===== verification/Multi_Writer.thy ===== *)
theory Multi_Writer
  imports Pg_Sink Prom_Sink
begin

text \<open>
  Several sinks at once (\<open>internal/sinks/multiwriter.go\<close>), with the file sink (\<open>json.go\<close>) and the
  gRPC sink (\<open>rpc.go\<close>). The contract that the multi-writer relies on is the locale \<open>sink_contract\<close>, interpreted on
  the write operations of the four sinks.

  Encoders and the remote server are parameters: the fields of \<open>sink_env\<close>.
\<close>

section \<open>The file sink\<close>

record json_line =
  jl_metric :: string
  jl_data :: measurements
  jl_dbname :: string
  jl_custom_tags :: tags

record json_writer =
  jw_ctxErr :: "goerr option"
  jw_lines :: "json_line list"
  jw_closed :: bool

definition json_row :: "envelope \<Rightarrow> json_line" where
  "json_row msg = \<lparr>jl_metric = MetricName msg, jl_data = Data msg, jl_dbname = DBName msg, jl_custom_tags = CustomTags msg\<rparr>"

definition NewJSONWriter :: "goerr + json_writer" where
  "NewJSONWriter = Inr \<lparr>jw_ctxErr = None, jw_lines = [], jw_closed = False\<rparr>"

definition JSON_Write :: "(json_line \<Rightarrow> goerr option) \<Rightarrow> envelope \<Rightarrow> json_writer \<Rightarrow> json_writer \<times> goerr option" where
  "JSON_Write encode msg jw =
     (if jw_ctxErr jw \<noteq> None then (jw, jw_ctxErr jw)
      else if Data msg = [] then (jw, None)
      else case encode (json_row msg) of
             Some err \<Rightarrow> (jw, Some err)
           | None \<Rightarrow> (jw\<lparr>jw_lines := jw_lines jw @ [json_row msg]\<rparr>, None))"

text \<open>The goroutine that waits for the end of the context and closes the file; \<open>RPC_watchCtx\<close> below does it for the connection.\<close>

definition JSON_watchCtx :: "json_writer \<Rightarrow> json_writer" where
  "JSON_watchCtx jw = (if jw_ctxErr jw = None then jw else jw\<lparr>jw_closed := True\<rparr>)"

definition JSON_SyncMetric :: "json_writer \<Rightarrow> goerr option" where
  "JSON_SyncMetric jw = jw_ctxErr jw"

section \<open>The gRPC sink\<close>

record pb_envelope =
  pb_DBName :: string
  pb_MetricName :: string
  pb_CustomTags :: tags
  pb_Data :: measurements

datatype pb_sync_op = SyncOp_InvalidOp | SyncOp_AddOp | SyncOp_DeleteOp | SyncOp_DefineOp

datatype rpc_call =
    UpdateMeasurements pb_envelope
  | RpcSyncMetric string string pb_sync_op
  | RpcDefineMetrics metrics

text \<open>\<open>rw_calls\<close> are the calls that the server answered without an error.\<close>

record rpc_writer =
  rw_ctxErr :: "goerr option"
  rw_calls :: "rpc_call list"
  rw_closed :: bool

text \<open>
  The environment of a write. \<open>se_pgFull\<close> says which PostgreSQL sinks have a queue that stays full until the timeout.
\<close>

record pg_sink =
  pk_ctxErr :: "goerr option"
  pk_input :: "envelope list"

record sink_env =
  se_encode :: "json_line \<Rightarrow> goerr option"
  se_struct :: "measurement \<Rightarrow> bool"
  se_rpc :: "rpc_call \<Rightarrow> goerr option"
  se_define :: "metrics \<Rightarrow> goerr option"
  se_unavailable :: "goerr \<Rightarrow> bool"
  se_sql :: pg_sql
  se_pgFull :: "pg_sink \<Rightarrow> bool"
  se_migrate :: "goerr option"
  se_needsMigration :: "goerr + bool"

definition convertSyncOp :: "sync_op \<Rightarrow> pb_sync_op" where
  "convertSyncOp opr =
     (case opr of AddOp \<Rightarrow> SyncOp_AddOp | DeleteOp \<Rightarrow> SyncOp_DeleteOp | DefineOp \<Rightarrow> SyncOp_DefineOp
      | InvalidOp \<Rightarrow> SyncOp_InvalidOp)"

definition rpc_send :: "sink_env \<Rightarrow> rpc_call \<Rightarrow> rpc_writer \<Rightarrow> rpc_writer \<times> goerr option" where
  "rpc_send env call rw =
     (case se_rpc env call of Some err \<Rightarrow> (rw, Some err) | None \<Rightarrow> (rw\<lparr>rw_calls := rw_calls rw @ [call]\<rparr>, None))"

text \<open>Rows that cannot be encoded are left out of the message.\<close>

definition pb_message :: "sink_env \<Rightarrow> envelope \<Rightarrow> pb_envelope" where
  "pb_message env msg = \<lparr>pb_DBName = DBName msg, pb_MetricName = MetricName msg, pb_CustomTags = CustomTags msg,
     pb_Data = filter (se_struct env) (Data msg)\<rparr>"

definition RPC_watchCtx :: "rpc_writer \<Rightarrow> rpc_writer" where
  "RPC_watchCtx rw = (if rw_ctxErr rw = None then rw else rw\<lparr>rw_closed := True\<rparr>)"

definition RPC_Write :: "sink_env \<Rightarrow> envelope \<Rightarrow> rpc_writer \<Rightarrow> rpc_writer \<times> goerr option" where
  "RPC_Write env msg rw =
     (if rw_ctxErr rw \<noteq> None then (rw, rw_ctxErr rw)
      else rpc_send env (UpdateMeasurements (pb_message env msg)) rw)"

definition RPC_SyncMetric :: "sink_env \<Rightarrow> string \<Rightarrow> string \<Rightarrow> sync_op \<Rightarrow> rpc_writer \<Rightarrow> rpc_writer \<times> goerr option" where
  "RPC_SyncMetric env sourceName metricName opr rw =
     rpc_send env (RpcSyncMetric sourceName metricName (convertSyncOp opr)) rw"

text \<open>\<open>se_define\<close> is the conversion of the definitions to a message, by way of JSON.\<close>

definition RPC_DefineMetrics :: "sink_env \<Rightarrow> metrics \<Rightarrow> rpc_writer \<Rightarrow> rpc_writer \<times> goerr option" where
  "RPC_DefineMetrics env ms rw =
     (case se_define env ms of Some err \<Rightarrow> (rw, Some err) | None \<Rightarrow> rpc_send env (RpcDefineMetrics ms) rw)"

definition RPC_Ping :: "sink_env \<Rightarrow> rpc_writer \<Rightarrow> rpc_writer \<times> goerr option" where
  "RPC_Ping env rw =
     (case RPC_SyncMetric env [] [] InvalidOp rw of
        (rw, Some err) \<Rightarrow> (rw, if se_unavailable env err then Some err else None)
      | (rw, None) \<Rightarrow> (rw, None))"

section \<open>A sink\<close>

datatype sink = JSONSink json_writer | PgSink pg_sink | PromSink prom_writer | RPCSink rpc_writer

text \<open>Calls through the interfaces \<open>Writer\<close>, \<open>MetricsDefiner\<close> and \<open>Migrator\<close>; \<open>None\<close> says that the sink lacks the interface.\<close>

fun sink_Write :: "sink_env \<Rightarrow> envelope \<Rightarrow> sink \<Rightarrow> sink \<times> goerr option" where
  "sink_Write env msg (JSONSink jw) = apfst JSONSink (JSON_Write (se_encode env) msg jw)"
| "sink_Write env msg (PgSink pk) =
     (let (input, err) = Pg_Write (pk_ctxErr pk) (se_pgFull env pk) msg (pk_input pk) in (PgSink (pk\<lparr>pk_input := input\<rparr>), err))"
| "sink_Write env msg (PromSink w) = (PromSink (Prom_Write msg w), None)"
| "sink_Write env msg (RPCSink rw) = apfst RPCSink (RPC_Write env msg rw)"

fun sink_SyncMetric :: "sink_env \<Rightarrow> string \<Rightarrow> string \<Rightarrow> sync_op \<Rightarrow> sink \<Rightarrow> sink \<times> goerr option" where
  "sink_SyncMetric env src m opr (JSONSink jw) = (JSONSink jw, JSON_SyncMetric jw)"
| "sink_SyncMetric env src m opr (PgSink pk) = (PgSink pk, Pg_SyncMetric (se_sql env) src m opr)"
| "sink_SyncMetric env src m opr (PromSink w) = (PromSink (Prom_SyncMetric src m opr w), None)"
| "sink_SyncMetric env src m opr (RPCSink rw) = apfst RPCSink (RPC_SyncMetric env src m opr rw)"

fun sink_DefineMetrics :: "sink_env \<Rightarrow> metrics \<Rightarrow> sink \<Rightarrow> (sink \<times> goerr option) option" where
  "sink_DefineMetrics env ms (PromSink w) = Some (PromSink (Prom_DefineMetrics ms w), None)"
| "sink_DefineMetrics env ms (RPCSink rw) = Some (apfst RPCSink (RPC_DefineMetrics env ms rw))"
| "sink_DefineMetrics env ms _ = None"

fun sink_Migrate :: "sink_env \<Rightarrow> sink \<Rightarrow> goerr option option" where
  "sink_Migrate env (PgSink _) = Some (se_migrate env)"
| "sink_Migrate env _ = None"

fun sink_NeedsMigration :: "sink_env \<Rightarrow> sink \<Rightarrow> (goerr + bool) option" where
  "sink_NeedsMigration env (PgSink _) = Some (se_needsMigration env)"
| "sink_NeedsMigration env _ = None"

section \<open>Several sinks\<close>

text \<open>The loop that all operations of the multi-writer share.\<close>

fun each_writer :: "('w \<Rightarrow> 'w \<times> goerr option) \<Rightarrow> goerr option \<Rightarrow> 'w list \<Rightarrow> 'w list \<times> goerr option" where
  "each_writer f err [] = ([], err)"
| "each_writer f err (w # ws) =
     (let (w', e) = f w; (ws', err') = each_writer f (errors_Join [err, e]) ws in (w' # ws', err'))"

definition mw_Write :: "sink_env \<Rightarrow> envelope \<Rightarrow> sink list \<Rightarrow> sink list \<times> goerr option" where
  "mw_Write env msg ws = each_writer (sink_Write env msg) None ws"

definition mw_SyncMetric :: "sink_env \<Rightarrow> string \<Rightarrow> string \<Rightarrow> sync_op \<Rightarrow> sink list \<Rightarrow> sink list \<times> goerr option" where
  "mw_SyncMetric env src m opr ws = each_writer (sink_SyncMetric env src m opr) None ws"

definition mw_DefineMetrics :: "sink_env \<Rightarrow> metrics \<Rightarrow> sink list \<Rightarrow> sink list \<times> goerr option" where
  "mw_DefineMetrics env ms ws =
     each_writer (\<lambda>w. case sink_DefineMetrics env ms w of None \<Rightarrow> (w, None) | Some r \<Rightarrow> r) None ws"

definition mw_Migrate :: "sink_env \<Rightarrow> sink list \<Rightarrow> goerr option" where
  "mw_Migrate env ws =
     snd (each_writer (\<lambda>w. (w, case sink_Migrate env w of None \<Rightarrow> None | Some e \<Rightarrow> e)) None ws)"

fun mw_NeedsMigration :: "sink_env \<Rightarrow> sink list \<Rightarrow> goerr + bool" where
  "mw_NeedsMigration env [] = Inr False"
| "mw_NeedsMigration env (w # ws) =
     (case sink_NeedsMigration env w of
        None \<Rightarrow> mw_NeedsMigration env ws
      | Some (Inl err) \<Rightarrow> Inl err
      | Some (Inr needs) \<Rightarrow> if needs then Inr True else mw_NeedsMigration env ws)"

section \<open>Opening the sinks\<close>

record sink_open =
  open_pg :: "string \<Rightarrow> goerr + pg_sink"
  open_prom :: "string \<Rightarrow> goerr + prom_writer"
  open_rpc :: "string \<Rightarrow> goerr + rpc_writer"

fun wrap_sink :: "('a \<Rightarrow> sink) \<Rightarrow> goerr + 'a \<Rightarrow> goerr + sink" where
  "wrap_sink C (Inl err) = Inl err"
| "wrap_sink C (Inr w) = Inr (C w)"

definition open_sink :: "sink_open \<Rightarrow> string \<Rightarrow> goerr + sink" where
  "open_sink opn sinkConnStr =
     (let (scheme, target, found) = Cut sinkConnStr ''://''
      in if \<not> found \<or> scheme = [] \<or> target = [] then Inl (ErrText (''malformed sink URI '' @ sinkConnStr))
         else if scheme = ''jsonfile'' then wrap_sink JSONSink NewJSONWriter
         else if scheme = ''postgres'' \<or> scheme = ''postgresql'' then wrap_sink PgSink (open_pg opn sinkConnStr)
         else if scheme = ''prometheus'' then wrap_sink PromSink (open_prom opn target)
         else if scheme = ''rpc'' \<or> scheme = ''grpc'' then wrap_sink RPCSink (open_rpc opn sinkConnStr)
         else Inl (ErrText (''unknown schema '' @ scheme @ '' in sink URI '' @ sinkConnStr)))"

definition AddWriter :: "sink \<Rightarrow> sink list \<Rightarrow> sink list" where [simp]:
  "AddWriter w ws = ws @ [w]"

definition Count :: "sink list \<Rightarrow> int" where
  "Count ws = int (length ws)"

fun open_sinks :: "sink_open \<Rightarrow> string list \<Rightarrow> sink list \<Rightarrow> goerr + sink list" where
  "open_sinks opn [] ws = Inr ws"
| "open_sinks opn (s # ss) ws =
     (case open_sink opn s of Inl err \<Rightarrow> Inl err | Inr w \<Rightarrow> open_sinks opn ss (AddWriter w ws))"

datatype sink_writer = SingleWriter sink | MultiWriter "sink list"

definition NewSinkWriter :: "sink_open \<Rightarrow> sink_opts \<Rightarrow> goerr + sink_writer" where
  "NewSinkWriter opn opts =
     (if Sinks opts = [] then Inl (ErrText ''no sinks specified for measurements'')
      else case open_sinks opn (Sinks opts) [] of
             Inl err \<Rightarrow> Inl err
           | Inr ws \<Rightarrow> Inr (case ws of [w] \<Rightarrow> SingleWriter w | _ \<Rightarrow> MultiWriter ws))"

fun writer_Write :: "sink_env \<Rightarrow> envelope \<Rightarrow> sink_writer \<Rightarrow> sink_writer \<times> goerr option" where
  "writer_Write env msg (SingleWriter w) = apfst SingleWriter (sink_Write env msg w)"
| "writer_Write env msg (MultiWriter ws) = apfst MultiWriter (mw_Write env msg ws)"

section \<open>Closed sinks\<close>

text \<open>Once the goroutine has closed the file or the connection, a message is refused with the error of the context.\<close>

lemma closed_refuses:
  "\<not> jw_closed jw \<Longrightarrow> jw_closed (JSON_watchCtx jw) \<Longrightarrow> JSON_Write encode msg (JSON_watchCtx jw) = (JSON_watchCtx jw, jw_ctxErr jw) \<and> jw_ctxErr jw \<noteq> None"
  "\<not> rw_closed rw \<Longrightarrow> rw_closed (RPC_watchCtx rw) \<Longrightarrow> RPC_Write env msg (RPC_watchCtx rw) = (RPC_watchCtx rw, rw_ctxErr rw) \<and> rw_ctxErr rw \<noteq> None"
  by (auto simp: JSON_watchCtx_def RPC_watchCtx_def JSON_Write_def RPC_Write_def split: if_splits)

section \<open>The shared loop\<close>

lemma each_states: "fst (each_writer f err ws) = map (fst \<circ> f) ws"
  by (induction ws arbitrary: err) (auto simp: Let_def split_beta)

lemma each_none: "snd (each_writer f err ws) = None \<longleftrightarrow> err = None \<and> (\<forall>w\<in>set ws. snd (f w) = None)"
proof (induction ws arbitrary: err)
  case (Cons w ws)
  then show ?case by (auto simp: Let_def split_beta errors_Join_None_iff)
qed simp

lemma each_is:
  "snd (each_writer f err ws) = Some x \<Longrightarrow>
   errors_Is x s \<longleftrightarrow> (\<exists>e. (err = Some e \<or> (\<exists>w\<in>set ws. snd (f w) = Some e)) \<and> errors_Is e s)"
proof (induction ws arbitrary: err)
  case (Cons w ws)
  let ?j = "errors_Join [err, snd (f w)]"
  have "errors_Is x s \<longleftrightarrow> (\<exists>e. (?j = Some e \<or> (\<exists>w\<in>set ws. snd (f w) = Some e)) \<and> errors_Is e s)"
    using Cons.prems by (intro Cons.IH) (simp add: Let_def split_beta)
  moreover have "(\<exists>e. ?j = Some e \<and> errors_Is e s) \<longleftrightarrow> (\<exists>e. (err = Some e \<or> snd (f w) = Some e) \<and> errors_Is e s)"
  proof (cases ?j)
    case None
    then have "err = None" "snd (f w) = None" by (simp_all add: errors_Join_None_iff)
    with None show ?thesis by simp
  next
    case (Some y)
    then show ?thesis using errors_Join_Is [OF Some, of s] by (auto; metis)
  qed
  ultimately show ?case by auto
qed simp

section \<open>The contract of a sink\<close>

text \<open>
  What a client may rely on: a write that fails changes nothing, and after a write that succeeds
  the sink holds the message if it keeps messages of that kind.
\<close>

locale sink_contract =
  fixes put :: "'m \<Rightarrow> 'w \<Rightarrow> 'w \<times> goerr option"
    and keeps :: "'m \<Rightarrow> 'w \<Rightarrow> bool"
    and holds :: "'m \<Rightarrow> 'w \<Rightarrow> bool"
  assumes failed_write: "put m w = (w', Some e) \<Longrightarrow> w' = w"
    and kept_write: "put m w = (w', None) \<Longrightarrow> keeps m w \<Longrightarrow> holds m w'"
begin

text \<open>The outcome for one writer does not depend on the others.\<close>

lemma fan_out:
  assumes "each_writer (put m) None ws = (ws', err)" "i < length ws"
  shows "ws' ! i = fst (put m (ws ! i)) \<and> length ws' = length ws \<and>
    (snd (put m (ws ! i)) \<noteq> None \<longrightarrow> ws' ! i = ws ! i) \<and>
    (snd (put m (ws ! i)) = None \<longrightarrow> keeps m (ws ! i) \<longrightarrow> holds m (ws' ! i))"
proof -
  have ws': "ws' = map (fst \<circ> put m) ws" using each_states [of "put m" None ws] assms(1) by simp
  obtain w' e where w: "put m (ws ! i) = (w', e)" by fastforce
  show ?thesis
    using assms(2) w failed_write [of m "ws ! i"] kept_write [of m "ws ! i"] by (cases e) (auto simp: ws')
qed

end

section \<open>The sinks fulfil it\<close>

fun sink_keeps :: "sink_env \<Rightarrow> envelope \<Rightarrow> sink \<Rightarrow> bool" where
  "sink_keeps env msg (JSONSink _) = (Data msg \<noteq> [])"
| "sink_keeps env msg (PgSink pk) = (\<not> se_pgFull env pk)"
| "sink_keeps env msg (PromSink _) =
     (Data msg \<noteq> [] \<and> (MetricName msg \<in> set notSupportedMetrics \<longrightarrow> SourceKind msg = ''prometheus''))"
| "sink_keeps env msg (RPCSink _) = True"

fun sink_holds :: "sink_env \<Rightarrow> envelope \<Rightarrow> sink \<Rightarrow> bool" where
  "sink_holds env msg (JSONSink jw) = (json_row msg \<in> set (jw_lines jw))"
| "sink_holds env msg (PgSink pk) = (msg \<in> set (pk_input pk))"
| "sink_holds env msg (PromSink w) =
     (\<exists>m. gget (Cache w) (DBName msg) = Some m \<and> gget m (MetricName msg) = Some msg)"
| "sink_holds env msg (RPCSink rw) = (UpdateMeasurements (pb_message env msg) \<in> set (rw_calls rw))"

interpretation sinks: sink_contract "sink_Write env" "sink_keeps env" "sink_holds env" for env
proof
  show "w' = w" if "sink_Write env m w = (w', Some e)" for m w w' e
    using that
    by (cases w)
       (auto simp: JSON_Write_def Pg_Write_def RPC_Write_def rpc_send_def split: if_splits option.splits)
  show "sink_holds env m w'" if "sink_Write env m w = (w', None)" "sink_keeps env m w" for m w w'
    using that
    by (cases w)
       (auto simp: JSON_Write_def Pg_Write_def RPC_Write_def rpc_send_def Prom_Write_def AddCacheEntry_def
         map_of_gset split: if_splits option.splits)
qed

text \<open>
  C10: a message written through the multi-writer reaches every sink, whatever the other sinks answer: each
  sink ends in the state its own write leads to, a sink that fails is unchanged, one that succeeds holds
  the message if it keeps messages of that kind, and the error is nil exactly when every sink succeeded
  and matches a sentinel exactly when the error of a sink does.
\<close>

theorem MultiWriter_delivers:
  assumes "mw_Write env msg ws = (ws', err)"
  shows "length ws' = length ws \<and>
    (\<forall>i<length ws. ws' ! i = fst (sink_Write env msg (ws ! i)) \<and>
       (snd (sink_Write env msg (ws ! i)) \<noteq> None \<longrightarrow> ws' ! i = ws ! i) \<and>
       (snd (sink_Write env msg (ws ! i)) = None \<longrightarrow> sink_keeps env msg (ws ! i) \<longrightarrow> sink_holds env msg (ws' ! i))) \<and>
    (err = None \<longleftrightarrow> (\<forall>w\<in>set ws. snd (sink_Write env msg w) = None)) \<and>
    (\<forall>x s. err = Some x \<longrightarrow> (errors_Is x s \<longleftrightarrow> (\<exists>w\<in>set ws. \<exists>e. snd (sink_Write env msg w) = Some e \<and> errors_Is e s)))"
proof -
  have each: "each_writer (sink_Write env msg) None ws = (ws', err)" using assms by (simp add: mw_Write_def)
  have "length ws' = length ws"
    using each_states [of "sink_Write env msg" None ws] each by simp
  moreover have "err = None \<longleftrightarrow> (\<forall>w\<in>set ws. snd (sink_Write env msg w) = None)"
    using each_none [of "sink_Write env msg" None ws] each by simp
  moreover have "errors_Is x s \<longleftrightarrow> (\<exists>w\<in>set ws. \<exists>e. snd (sink_Write env msg w) = Some e \<and> errors_Is e s)"
    if "err = Some x" for x s
    using each_is [of "sink_Write env msg" None ws x s] each that by auto
  ultimately show ?thesis using sinks.fan_out [OF each] by blast
qed

definition quiet_env :: sink_env where
  "quiet_env = \<lparr>se_encode = (\<lambda>_. None), se_struct = (\<lambda>_. True), se_rpc = (\<lambda>_. Some (ErrText ''unavailable'')),
     se_define = (\<lambda>_. None), se_unavailable = (\<lambda>_. True),
     se_sql = \<lparr>ps_ping = (\<lambda>_. None), ps_intervals = Inr (0, 0, True), ps_schemaExists = Inr True, ps_script = (\<lambda>_. None),
       ps_isTimescale = Inr False, ps_listing = (\<lambda>_ _. None), ps_dummy = (\<lambda>_. None)\<rparr>,
     se_pgFull = (\<lambda>_. False), se_migrate = None, se_needsMigration = Inr False\<rparr>"

definition two_sinks :: "sink list" where
  "two_sinks = [RPCSink \<lparr>rw_ctxErr = None, rw_calls = [], rw_closed = False\<rparr>, JSONSink \<lparr>jw_ctxErr = None, jw_lines = [], jw_closed = False\<rparr>]"

theorem MultiWriter_delivers_witness:
  "let msg = sample_msg ''m'' [[(''x'', VBool True)]]; (ws', err) = mw_Write quiet_env msg two_sinks
   in err \<noteq> None \<and> sink_holds quiet_env msg (ws' ! 1)"
proof -
  let ?msg = "sample_msg ''m'' [[(''x'', VBool True)]]"
  obtain ws' err where w: "mw_Write quiet_env ?msg two_sinks = (ws', err)" by fastforce
  have "snd (sink_Write quiet_env ?msg (two_sinks ! 1)) = None" "sink_keeps quiet_env ?msg (two_sinks ! 1)"
    "1 < length two_sinks" "snd (sink_Write quiet_env ?msg (two_sinks ! 0)) \<noteq> None" "two_sinks ! 0 \<in> set two_sinks"
    by (simp_all add: two_sinks_def quiet_env_def sample_msg_def JSON_Write_def RPC_Write_def rpc_send_def)
  with MultiWriter_delivers [OF w] show ?thesis unfolding w Let_def by auto
qed

section \<open>Opening\<close>

lemma open_sinks_spec:
  "open_sinks opn ss ws = Inr ws' \<longleftrightarrow> (\<exists>ts. ws' = ws @ ts \<and> list_all2 (\<lambda>s w. open_sink opn s = Inr w) ss ts)"
proof (induction ss arbitrary: ws)
  case (Cons s ss)
  show ?case
  proof (cases "open_sink opn s")
    case (Inl err)
    then show ?thesis by (auto simp: list_all2_Cons1)
  next
    case (Inr w)
    with Cons.IH [of "ws @ [w]"] show ?thesis by (auto simp: list_all2_Cons1)
  qed
qed auto

text \<open>
  opening the configured sinks succeeds exactly when there is one at least and every URI can be opened,
  and the writer then has one sink for each URI, in the order of the options.
\<close>

theorem NewSinkWriter_opens:
  "((\<exists>w. NewSinkWriter opn opts = Inr w) \<longleftrightarrow>
      Sinks opts \<noteq> [] \<and> list_all (\<lambda>s. \<exists>w. open_sink opn s = Inr w) (Sinks opts)) \<and>
   (case NewSinkWriter opn opts of
      Inl _ \<Rightarrow> True
    | Inr w \<Rightarrow> list_all2 (\<lambda>s k. open_sink opn s = Inr k) (Sinks opts)
        (case w of SingleWriter k \<Rightarrow> [k] | MultiWriter ws \<Rightarrow> ws))"
proof -
  have ex: "(\<exists>ts. list_all2 (\<lambda>s w. open_sink opn s = Inr w) ss ts) \<longleftrightarrow> list_all (\<lambda>s. \<exists>w. open_sink opn s = Inr w) ss" for ss
    by (induction ss) (auto simp: list_all2_Cons1)
  note spec = open_sinks_spec [of opn "Sinks opts" "[]", simplified]
  show ?thesis
  proof (cases "open_sinks opn (Sinks opts) []")
    case (Inl err)
    then have "\<not> list_all (\<lambda>s. \<exists>w. open_sink opn s = Inr w) (Sinks opts)"
      using ex [of "Sinks opts"] spec by auto
    with Inl show ?thesis by (simp add: NewSinkWriter_def)
  next
    case (Inr ws)
    then have ws: "list_all2 (\<lambda>s w. open_sink opn s = Inr w) (Sinks opts) ws" using spec by simp
    then have "list_all (\<lambda>s. \<exists>w. open_sink opn s = Inr w) (Sinks opts)" using ex [of "Sinks opts"] by blast
    moreover have "(case (case ws of [w] \<Rightarrow> SingleWriter w | _ \<Rightarrow> MultiWriter ws) of
        SingleWriter k \<Rightarrow> [k] | MultiWriter ws \<Rightarrow> ws) = ws"
      by (simp split: list.split)
    ultimately show ?thesis using Inr ws by (simp add: NewSinkWriter_def)
  qed
qed

end
