(* ===== verification/Os_Metrics.thy ===== *)
theory Os_Metrics
  imports Go_Float Db_Reaper Multi_Writer
begin

text \<open>
  Metrics of the operating system (\<open>internal/reaper/psutil.go\<close>, \<open>psutil_linux.go\<close>, the switch of
  \<open>FetchStatsDirectlyFromOS\<close> in \<open>file.go\<close>). The library \<open>gopsutil\<close> is the record \<open>os_env\<close>: counters, load, memory and
  disk usage as it reports them. The last CPU counters are kept in a package variable, one for the program.
\<close>

section \<open>What the library reports\<close>

record times_stat =
  tsUser :: gofloat
  tsSystem :: gofloat
  tsIdle :: gofloat
  tsNice :: gofloat
  tsIowait :: gofloat
  tsIrq :: gofloat
  tsSoftirq :: gofloat
  tsSteal :: gofloat
  tsGuest :: gofloat
  tsGuestNice :: gofloat

record load_avg =
  Load1 :: gofloat
  Load5 :: gofloat
  Load15 :: gofloat

record memory_stat =
  vmTotal :: int
  vmUsed :: int
  vmFree :: int
  vmBuffers :: int
  vmAvailable :: int
  vmUsedPercent :: gofloat
  vmSwapTotal :: int
  vmSwapCached :: int
  vmSwapFree :: int

record io_counters =
  ReadBytes :: int
  WriteBytes :: int
  ReadCount :: int
  WriteCount :: int

record usage_stat =
  usTotal :: int
  usUsed :: int
  usFree :: int
  usUsedPercent :: gofloat

record os_env =
  os_times :: "goerr + times_stat"
  os_load :: "goerr + load_avg"
  os_counts :: "goerr + int"
  os_memory :: "goerr + memory_stat"
  os_disks :: "goerr + (string, io_counters) gomap"
  os_readDir :: "string \<Rightarrow> goerr option"
  os_device :: "string \<Rightarrow> goerr + int"
  os_usage :: "string \<Rightarrow> goerr + usage_stat"
  os_now :: int

text \<open>The package variables. The time is \<open>None\<close> when the first reading at the start of the program failed.\<close>

record cpu_cache =
  prevCPULoadTimeStats :: times_stat
  prevCPULoadTimestamp :: "int option"

definition zero_times :: times_stat where
  "zero_times = \<lparr>tsUser = Fin 0, tsSystem = Fin 0, tsIdle = Fin 0, tsNice = Fin 0, tsIowait = Fin 0, tsIrq = Fin 0,
     tsSoftirq = Fin 0, tsSteal = Fin 0, tsGuest = Fin 0, tsGuestNice = Fin 0\<rparr>"

definition cpu_init :: "os_env \<Rightarrow> cpu_cache" where
  "cpu_init env =
     (case os_times env of
        Inl _ \<Rightarrow> \<lparr>prevCPULoadTimeStats = zero_times, prevCPULoadTimestamp = None\<rparr>
      | Inr probe \<Rightarrow> \<lparr>prevCPULoadTimeStats = probe, prevCPULoadTimestamp = Some (os_now env)\<rparr>)"

section \<open>Processor\<close>

abbreviation num :: "int \<Rightarrow> gofloat" where
  "num n \<equiv> Fin (of_int n)"

definition cpuTotal :: "times_stat \<Rightarrow> gofloat" where
  "cpuTotal c =
     fadd (fadd (fadd (fadd (fadd (fadd (fadd (tsUser c) (tsSystem c)) (tsIdle c)) (tsNice c)) (tsIowait c)) (tsIrq c))
       (tsSoftirq c)) (tsSteal c)"

definition goPsutilCalcCPUUtilization :: "times_stat \<Rightarrow> times_stat \<Rightarrow> gofloat" where
  "goPsutilCalcCPUUtilization probe0 probe1 =
     fsub (num 100)
       (fdiv (fmul (num 100)
          (fsub (fadd (fsub (fadd (fsub (tsIdle probe1) (tsIdle probe0)) (tsIowait probe1)) (tsIowait probe0)) (tsSteal probe1))
             (tsSteal probe0)))
          (fsub (cpuTotal probe1) (cpuTotal probe0)))"

text \<open>\<open>math.Round(x) / 100\<close>, and the share of a difference in percent with two decimals.\<close>

definition hundredths :: "gofloat \<Rightarrow> gofloat" where
  "hundredths x = fdiv (math_Round x) (num 100)"

definition share :: "gofloat \<Rightarrow> gofloat \<Rightarrow> gofloat" where
  "share diff totalDiff = hundredths (fdiv (fmul (num 10000) diff) totalDiff)"

definition cpu_row :: "int \<Rightarrow> times_stat \<Rightarrow> times_stat \<Rightarrow> load_avg \<Rightarrow> int \<Rightarrow> measurement" where
  "cpu_row now prev cur la cpus =
     (let totalDiff = fsub (cpuTotal cur) (cpuTotal prev);
          m = NewMeasurement now;
          m = gset ''cpu_utilization'' (VFloat64 (hundredths (fmul (num 100) (goPsutilCalcCPUUtilization prev cur)))) m;
          m = gset ''load_1m_norm'' (VFloat64 (hundredths (fdiv (fmul (num 100) (Load1 la)) (float_of cpus)))) m;
          m = gset ''load_1m'' (VFloat64 (hundredths (fmul (num 100) (Load1 la)))) m;
          m = gset ''load_5m_norm'' (VFloat64 (hundredths (fdiv (fmul (num 100) (Load5 la)) (float_of cpus)))) m;
          m = gset ''load_5m'' (VFloat64 (hundredths (fmul (num 100) (Load5 la)))) m;
          m = gset ''user'' (VFloat64 (share (fsub (tsUser cur) (tsUser prev)) totalDiff)) m;
          m = gset ''system'' (VFloat64 (share (fsub (tsSystem cur) (tsSystem prev)) totalDiff)) m;
          m = gset ''idle'' (VFloat64 (share (fsub (tsIdle cur) (tsIdle prev)) totalDiff)) m;
          m = gset ''iowait'' (VFloat64 (share (fsub (tsIowait cur) (tsIowait prev)) totalDiff)) m;
          m = gset ''irqs'' (VFloat64 (share
                (fsub (fadd (fsub (tsIrq cur) (tsIrq prev)) (tsSoftirq cur)) (tsSoftirq prev)) totalDiff)) m;
          m = gset ''other'' (VFloat64 (share
                (fsub (fadd (fsub (fadd (fsub (tsSteal cur) (tsSteal prev)) (tsGuest cur)) (tsGuest prev)) (tsGuestNice cur))
                   (tsGuestNice prev)) totalDiff)) m
      in m)"

text \<open>The counters are replaced when the interval has passed, also when a later reading fails.\<close>

definition GetGoPsutilCPU :: "os_env \<Rightarrow> int \<Rightarrow> cpu_cache \<Rightarrow> cpu_cache \<times> (goerr + measurements)" where
  "GetGoPsutilCPU env interval st =
     (case os_times env of
        Inl err \<Rightarrow> (st, Inl err)
      | Inr cur \<Rightarrow>
          (let st' = (if (case prevCPULoadTimestamp st of None \<Rightarrow> True | Some t \<Rightarrow> os_now env - t \<ge> interval)
                      then \<lparr>prevCPULoadTimeStats = cur, prevCPULoadTimestamp = Some (os_now env)\<rparr> else st)
           in (st', case os_load env of
                      Inl err \<Rightarrow> Inl err
                    | Inr la \<Rightarrow>
                        (case os_counts env of
                           Inl err \<Rightarrow> Inl err
                         | Inr cpus \<Rightarrow> Inr [cpu_row (os_now env) (prevCPULoadTimeStats st) cur la cpus]))))"

definition GetLoadAvgLocal :: "os_env \<Rightarrow> goerr + measurements" where
  "GetLoadAvgLocal env =
     (case os_load env of
        Inl err \<Rightarrow> Inl err
      | Inr la \<Rightarrow> Inr [gset ''load_15min'' (VFloat64 (Load15 la)) (gset ''load_5min'' (VFloat64 (Load5 la))
                        (gset ''load_1min'' (VFloat64 (Load1 la)) (NewMeasurement (os_now env))))])"

section \<open>Memory and disks\<close>

definition GetGoPsutilMem :: "os_env \<Rightarrow> goerr + measurements" where
  "GetGoPsutilMem env =
     (case os_memory env of
        Inl err \<Rightarrow> Inl err
      | Inr vm \<Rightarrow>
          (let m = NewMeasurement (os_now env);
               m = gset ''total'' (VInt64 (wrap64 (vmTotal vm))) m;
               m = gset ''used'' (VInt64 (wrap64 (vmUsed vm))) m;
               m = gset ''free'' (VInt64 (wrap64 (vmFree vm))) m;
               m = gset ''buff_cache'' (VInt64 (wrap64 (vmBuffers vm))) m;
               m = gset ''available'' (VInt64 (wrap64 (vmAvailable vm))) m;
               m = gset ''percent'' (VFloat64 (hundredths (fmul (num 100) (vmUsedPercent vm)))) m;
               m = gset ''swap_total'' (VInt64 (wrap64 (vmSwapTotal vm))) m;
               m = gset ''swap_used'' (VInt64 (wrap64 (vmSwapCached vm))) m;
               m = gset ''swap_free'' (VInt64 (wrap64 (vmSwapFree vm))) m;
               m = gset ''swap_percent'' (VFloat64
                     (hundredths (fdiv (fmul (num 100) (float_of (vmSwapCached vm))) (float_of (vmSwapTotal vm))))) m
           in Inr [m]))"

definition GetGoPsutilDiskTotals :: "os_env \<Rightarrow> goerr + measurements" where
  "GetGoPsutilDiskTotals env =
     (case os_disks env of
        Inl err \<Rightarrow> Inl err
      | Inr d \<Rightarrow>
          (let total = (\<lambda>g. foldl (\<lambda>acc v. fadd acc (float_of (g v))) (Fin 0) (map snd d));
               m = NewMeasurement (os_now env);
               m = gset ''read_bytes'' (VFloat64 (total ReadBytes)) m;
               m = gset ''write_bytes'' (VFloat64 (total WriteBytes)) m;
               m = gset ''read_count'' (VFloat64 (total ReadCount)) m;
               m = gset ''write_count'' (VFloat64 (total WriteCount)) m
           in Inr [m]))"

definition CheckFolderExistsAndReadable :: "os_env \<Rightarrow> string \<Rightarrow> bool" where
  "CheckFolderExistsAndReadable env path \<longleftrightarrow> path \<noteq> [] \<and> os_readDir env path = None"

definition dir_row :: "int \<Rightarrow> string \<Rightarrow> string \<Rightarrow> usage_stat \<Rightarrow> measurement" where
  "dir_row epochNs name path usage =
     (let m = NewMeasurement epochNs;
          m = gset ''tag_dir_or_tablespace'' (VString name) m;
          m = gset ''tag_path'' (VString path) m;
          m = gset ''total'' (VFloat64 (float_of (usTotal usage))) m;
          m = gset ''used'' (VFloat64 (float_of (usUsed usage))) m;
          m = gset ''free'' (VFloat64 (float_of (usFree usage))) m;
          m = gset ''percent'' (VFloat64 (hundredths (fmul (num 100) (usUsedPercent usage)))) m
      in m)"

text \<open>
  The loop of \<open>GetGoPsutilDiskPG\<close>; \<open>asked\<close> records the paths the library was asked for. A column that is no
  string panics: \<open>None\<close>.
\<close>

fun disk_rows ::
  "os_env \<Rightarrow> measurements \<Rightarrow> (int, usage_stat) gomap \<Rightarrow> measurements \<Rightarrow> string list \<Rightarrow> ((goerr + measurements) \<times> string list) option" where
  "disk_rows env [] usageCache retRows asked = Some (Inr retRows, asked)"
| "disk_rows env (dir # dirs) usageCache retRows asked =
     (case (gget dir ''path'', gget dir ''name'') of
        (Some (VString path), Some (VString name)) \<Rightarrow>
          (if \<not> CheckFolderExistsAndReadable env path then disk_rows env dirs usageCache retRows asked
           else case os_device env path of
                  Inl err \<Rightarrow> Some (Inl err, asked)
                | Inr devID \<Rightarrow>
                    (case gget usageCache devID of
                       Some usage \<Rightarrow> disk_rows env dirs usageCache (retRows @ [dir_row (os_now env) name path usage]) asked
                     | None \<Rightarrow>
                         (case os_usage env path of
                            Inl err \<Rightarrow> Some (Inl err, asked @ [path])
                          | Inr usage \<Rightarrow>
                              disk_rows env dirs (gset devID usage usageCache)
                                (retRows @ [dir_row (os_now env) name path usage]) (asked @ [path]))))
      | _ \<Rightarrow> None)"

definition GetGoPsutilDiskPG :: "os_env \<Rightarrow> measurements \<Rightarrow> ((goerr + measurements) \<times> string list) option" where
  "GetGoPsutilDiskPG env pgDirs = disk_rows env pgDirs [] [] []"

section \<open>The switch\<close>

text \<open>A panic of the disk metric is \<open>None\<close>; an unknown name reads nothing.\<close>

definition read_os :: "os_env \<Rightarrow> int \<Rightarrow> string \<Rightarrow> measurements \<Rightarrow> cpu_cache \<Rightarrow> (cpu_cache \<times> (goerr + measurements)) option" where
  "read_os env interval metricName pgDirs st =
     (if metricName = ''cpu_load'' then Some (st, GetLoadAvgLocal env)
      else if metricName = ''psutil_cpu'' then Some (GetGoPsutilCPU env interval st)
      else if metricName = ''psutil_disk'' then map_option (\<lambda>(r, _). (st, r)) (GetGoPsutilDiskPG env pgDirs)
      else if metricName = ''psutil_disk_io_total'' then Some (st, GetGoPsutilDiskTotals env)
      else if metricName = ''psutil_mem'' then Some (st, GetGoPsutilMem env)
      else Some (st, Inr []))"

section \<open>Totals\<close>

text \<open>
  C33: the totals over all disks are the exact sums of the counters, whatever order the map is visited in, as long as they do
  not exceed \<open>2\<^sup>5\<^sup>3\<close>, so the use of floating-point numbers costs nothing below eight petabytes.
\<close>

theorem disk_totals_exact:
  assumes "os_disks env = Inr d" "\<forall>v\<in>set (map snd d). 0 \<le> ReadBytes v \<and> 0 \<le> WriteBytes v \<and> 0 \<le> ReadCount v \<and> 0 \<le> WriteCount v"
    and "sum_list (map ReadBytes (map snd d)) \<le> 2 ^ 53" "sum_list (map WriteBytes (map snd d)) \<le> 2 ^ 53"
    and "sum_list (map ReadCount (map snd d)) \<le> 2 ^ 53" "sum_list (map WriteCount (map snd d)) \<le> 2 ^ 53"
  shows "\<exists>row. GetGoPsutilDiskTotals env = Inr [row] \<and>
    gget row ''read_bytes'' = Some (VFloat64 (num (sum_list (map ReadBytes (map snd d))))) \<and>
    gget row ''write_bytes'' = Some (VFloat64 (num (sum_list (map WriteBytes (map snd d))))) \<and>
    gget row ''read_count'' = Some (VFloat64 (num (sum_list (map ReadCount (map snd d))))) \<and>
    gget row ''write_count'' = Some (VFloat64 (num (sum_list (map WriteCount (map snd d)))))"
proof -
  have total: "foldl (\<lambda>acc v. fadd acc (float_of (g v))) (Fin 0) (map snd d) = num (sum_list (map g (map snd d)))"
    if "\<forall>v\<in>set (map snd d). 0 \<le> g v" "sum_list (map g (map snd d)) \<le> 2 ^ 53" for g
    using f64.sum_exact [of "map snd d" g 0] that by simp
  show ?thesis
    using assms(2-) by (simp add: GetGoPsutilDiskTotals_def assms(1) total NewMeasurement_def gomap_simps del: map_map)
qed

theorem disk_totals_exact_witness:
  "let d = [(''sda'', \<lparr>ReadBytes = 9, WriteBytes = 1, ReadCount = 1, WriteCount = 1\<rparr>),
            (''sdb'', \<lparr>ReadBytes = 4, WriteBytes = 2, ReadCount = 3, WriteCount = 0\<rparr>)];
       env = \<lparr>os_times = Inl (ErrText []), os_load = Inl (ErrText []), os_counts = Inl (ErrText []), os_memory = Inl (ErrText []),
              os_disks = Inr d, os_readDir = (\<lambda>_. None), os_device = (\<lambda>_. Inr 0), os_usage = (\<lambda>_. Inl (ErrText [])), os_now = 5\<rparr>
   in \<exists>row. GetGoPsutilDiskTotals env = Inr [row] \<and> gget row ''read_bytes'' = Some (VFloat64 (Fin 13))"
  unfolding Let_def using disk_totals_exact [of
    "\<lparr>os_times = Inl (ErrText []), os_load = Inl (ErrText []), os_counts = Inl (ErrText []), os_memory = Inl (ErrText []),
      os_disks = Inr [(''sda'', \<lparr>ReadBytes = 9, WriteBytes = 1, ReadCount = 1, WriteCount = 1\<rparr>),
            (''sdb'', \<lparr>ReadBytes = 4, WriteBytes = 2, ReadCount = 3, WriteCount = 0\<rparr>)],
      os_readDir = (\<lambda>_. None), os_device = (\<lambda>_. Inr 0), os_usage = (\<lambda>_. Inl (ErrText [])), os_now = 5\<rparr>"]
  by auto

section \<open>Disks of the server\<close>

text \<open>The same without the cache: every directory is asked for.\<close>

fun disk_spec :: "os_env \<Rightarrow> measurements \<Rightarrow> (goerr + measurements) option" where
  "disk_spec env [] = Some (Inr [])"
| "disk_spec env (dir # dirs) =
     (case (gget dir ''path'', gget dir ''name'') of
        (Some (VString path), Some (VString name)) \<Rightarrow>
          (if \<not> CheckFolderExistsAndReadable env path then disk_spec env dirs
           else case os_device env path of
                  Inl err \<Rightarrow> Some (Inl err)
                | Inr _ \<Rightarrow>
                    (case os_usage env path of
                       Inl err \<Rightarrow> Some (Inl err)
                     | Inr usage \<Rightarrow> map_option (map_sum id ((#) (dir_row (os_now env) name path usage))) (disk_spec env dirs)))
      | _ \<Rightarrow> None)"

definition usage_by_device :: "os_env \<Rightarrow> bool" where
  "usage_by_device env \<longleftrightarrow> (\<forall>p q d. os_device env p = Inr d \<longrightarrow> os_device env q = Inr d \<longrightarrow> os_usage env p = os_usage env q)"

definition usage_cache_ok :: "os_env \<Rightarrow> (int, usage_stat) gomap \<Rightarrow> string list \<Rightarrow> bool" where
  "usage_cache_ok env cache asked \<longleftrightarrow> distinct (map (os_device env) asked) \<and>
     (\<forall>d u. gget cache d = Some u \<longrightarrow> (\<exists>p\<in>set asked. os_device env p = Inr d \<and> os_usage env p = Inr u)) \<and>
     (\<forall>p\<in>set asked. \<exists>d u. os_device env p = Inr d \<and> gget cache d = Some u)"

lemma usage_cache_ok_add:
  assumes "usage_cache_ok env cache asked" "os_device env path = Inr d" "gget cache d = None" "os_usage env path = Inr u"
  shows "usage_cache_ok env (gset d u cache) (asked @ [path])"
proof -
  have "\<exists>d' u'. os_device env p = Inr d' \<and> gget (gset d u cache) d' = Some u'" if "p \<in> set (asked @ [path])" for p
    using that assms unfolding usage_cache_ok_def by (cases "p \<in> set asked") (fastforce simp: gomap_simps)+
  with assms show ?thesis by (auto simp: usage_cache_ok_def gomap_simps)
qed

lemma disk_rows_spec:
  assumes "usage_by_device env" "usage_cache_ok env cache asked"
  shows "map_option fst (disk_rows env dirs cache ret asked) = map_option (map_sum id ((@) ret)) (disk_spec env dirs) \<and>
    pred_option (\<lambda>(_, asked'). distinct (map (os_device env) asked')) (disk_rows env dirs cache ret asked)"
  using assms(2)
proof (induction dirs arbitrary: cache ret asked)
  case (Cons dir dirs)
  note ok = Cons.prems
  have d: "distinct (map (os_device env) asked)" using ok by (simp add: usage_cache_ok_def)
  show ?case
  proof (cases "\<exists>path name. gget dir ''path'' = Some (VString path) \<and> gget dir ''name'' = Some (VString name)")
    case True
    then obtain path name where cols: "gget dir ''path'' = Some (VString path)" "gget dir ''name'' = Some (VString name)" by blast
    show ?thesis
    proof (cases "CheckFolderExistsAndReadable env path")
      case False
      then show ?thesis using Cons.IH [OF ok] by (simp add: cols)
    next
      case readable: True
      show ?thesis
      proof (cases "os_device env path")
        case (Inl err)
        then show ?thesis using d readable by (simp add: cols)
      next
        case dev: (Inr devID)
        show ?thesis
        proof (cases "gget cache devID")
          case (Some usage)
          then have "os_usage env path = Inr usage"
            using ok dev assms(1) unfolding usage_cache_ok_def usage_by_device_def by metis
          then show ?thesis
            using Cons.IH [OF ok, of "ret @ [dir_row (os_now env) name path usage]"] readable dev Some
            by (simp add: cols option.map_comp comp_def sum.map_comp)
        next
          case None
          have new: "distinct (map (os_device env) (asked @ [path]))"
            using ok dev None by (auto simp: usage_cache_ok_def)
          show ?thesis
          proof (cases "os_usage env path")
            case (Inl err)
            then show ?thesis using new readable dev None by (simp add: cols)
          next
            case (Inr usage)
            from Cons.IH [OF usage_cache_ok_add [OF ok dev None Inr], of "ret @ [dir_row (os_now env) name path usage]"]
            show ?thesis using readable dev None Inr by (simp add: cols option.map_comp comp_def sum.map_comp)
          qed
        qed
      qed
    qed
  next
    case False
    then show ?thesis by (auto split: option.splits goval.splits)
  qed
qed (simp add: usage_cache_ok_def)


definition one_disk :: os_env where
  "one_disk = \<lparr>os_times = Inl (ErrText []), os_load = Inl (ErrText []), os_counts = Inl (ErrText []),
     os_memory = Inr \<lparr>vmTotal = 8, vmUsed = 4, vmFree = 4, vmBuffers = 0, vmAvailable = 4, vmUsedPercent = Fin 50,
                      vmSwapTotal = 0, vmSwapCached = 0, vmSwapFree = 0\<rparr>,
     os_disks = Inr [], os_readDir = (\<lambda>_. None), os_device = (\<lambda>_. Inr 7),
     os_usage = (\<lambda>_. Inr \<lparr>usTotal = 8, usUsed = 2, usFree = 6, usUsedPercent = Fin 25\<rparr>), os_now = 5\<rparr>"


section \<open>Values that are not numbers\<close>

definition cpu_fields :: "string list" where
  "cpu_fields = [''cpu_utilization'', ''user'', ''system'', ''idle'', ''iowait'', ''irqs'', ''other'']"

lemma hundredths_NaN [simp]: "hundredths NaN = NaN"
  by (simp add: hundredths_def)

text \<open>The counters are values of type \<open>float64\<close>.\<close>

definition is_f64 :: "gofloat \<Rightarrow> bool" where
  "is_f64 f \<longleftrightarrow> (case f of Fin x \<Rightarrow> float64 x = Fin x | _ \<Rightarrow> True)"

definition times_ok :: "times_stat \<Rightarrow> bool" where
  "times_ok s \<longleftrightarrow> list_all is_f64 [tsIowait s, tsSteal s, tsSoftirq s, tsGuest s, tsGuestNice s]"

lemma add_sub_zero: "z = Fin 0 \<or> z = NaN \<Longrightarrow> is_f64 x \<Longrightarrow> fsub (fadd z x) x = Fin 0 \<or> fsub (fadd z x) x = NaN"
  by (cases x) (auto simp: fsub_def is_f64_def)

lemma share_NaN: "y = Fin 0 \<or> y = NaN \<Longrightarrow> x = Fin 0 \<or> x = NaN \<Longrightarrow> share x y = NaN"
  unfolding share_def using fmul_zero [of x "num 10000"] fdiv_zeros by (metis hundredths_NaN)

lemma same_counters:
  assumes "times_ok s"
  shows "list_all (\<lambda>f. gget (cpu_row now s s la cpus) f = Some (VFloat64 NaN)) cpu_fields"
proof -
  note z = fsub_self and a = add_sub_zero
  have t: "fsub (cpuTotal s) (cpuTotal s) = Fin 0 \<or> fsub (cpuTotal s) (cpuTotal s) = NaN" by (rule z)
  have ok: "is_f64 (tsIowait s)" "is_f64 (tsSteal s)" "is_f64 (tsSoftirq s)" "is_f64 (tsGuest s)" "is_f64 (tsGuestNice s)"
    using assms by (simp_all add: times_ok_def)
  have "goPsutilCalcCPUUtilization s s = NaN"
    unfolding goPsutilCalcCPUUtilization_def
    by (subst fdiv_zeros [OF fmul_zero [OF a [OF a [OF z ok(1)] ok(2)]] t]) (rule fsub_NaN)
  then have "hundredths (fmul (num 100) (goPsutilCalcCPUUtilization s s)) = NaN" by simp
  note nan = this share_NaN [OF t z] share_NaN [OF t a [OF z ok(3)]] share_NaN [OF t a [OF a [OF z ok(4)] ok(5)]]
  show ?thesis
    unfolding cpu_row_def Let_def nan by (simp add: cpu_fields_def gomap_simps)
qed

text \<open>
  the last counters belong to the program and not to the source: when two sources on the machine are read within one
  tick of the clock, so that the counters of both readings are the same, the second reading has no difference to divide by, and its utilisation and all
  its shares are not a number.
\<close>

theorem cpu_shared_baseline:
  assumes "os_times env1 = Inr s" "os_times env2 = Inr s" "times_ok s"
    and "case prevCPULoadTimestamp st of None \<Rightarrow> True | Some t \<Rightarrow> os_now env1 - t \<ge> interval1"
    and "GetGoPsutilCPU env1 interval1 st = (st1, r1)" "GetGoPsutilCPU env2 interval2 st1 = (st2, Inr data)"
  shows "\<exists>row. data = [row] \<and> list_all (\<lambda>f. gget row f = Some (VFloat64 NaN)) cpu_fields"
proof -
  have "prevCPULoadTimeStats st1 = s" using assms(1,4,5) by (auto simp: GetGoPsutilCPU_def)
  with assms(2,6) have "\<exists>la cpus. data = [cpu_row (os_now env2) s s la cpus]"
    by (auto simp: GetGoPsutilCPU_def Let_def split: sum.splits)
  with same_counters [OF assms(3)] show ?thesis by blast
qed

definition cpu_env :: "int \<Rightarrow> os_env" where
  "cpu_env now = one_disk\<lparr>os_times := Inr zero_times, os_load := Inr \<lparr>Load1 = Fin 0, Load5 = Fin 0, Load15 = Fin 0\<rparr>,
     os_counts := Inr 4, os_now := now\<rparr>"

theorem cpu_shared_baseline_witness:
  "\<exists>row. snd (GetGoPsutilCPU (cpu_env 61) 60 (fst (GetGoPsutilCPU (cpu_env 60) 60 (cpu_init (cpu_env 0))))) = Inr [row] \<and>
     gget row ''idle'' = Some (VFloat64 NaN)"
proof -
  let ?st = "cpu_init (cpu_env 0)"
  obtain st1 r1 where 1: "GetGoPsutilCPU (cpu_env 60) 60 ?st = (st1, r1)" by fastforce
  obtain st2 data where 2: "GetGoPsutilCPU (cpu_env 61) 60 st1 = (st2, Inr data)"
    by (simp add: GetGoPsutilCPU_def cpu_env_def Let_def)
  have t: "os_times (cpu_env n) = Inr zero_times" for n by (simp add: cpu_env_def)
  have "times_ok zero_times" by (simp add: times_ok_def zero_times_def is_f64_def)
  from cpu_shared_baseline [OF t t this _ 1 2] show ?thesis
    unfolding 1 fst_conv 2 snd_conv by (auto simp: cpu_init_def cpu_env_def cpu_fields_def)
qed

text \<open>
  An encoder that follows the JSON format refuses values that are not numbers.
\<close>

definition has_nan :: "measurement \<Rightarrow> bool" where
  "has_nan row \<longleftrightarrow> (\<exists>k. gget row k = Some (VFloat64 NaN))"

definition refuses_nan :: "(json_line \<Rightarrow> goerr option) \<Rightarrow> bool" where
  "refuses_nan encode \<longleftrightarrow> (\<forall>l. (\<exists>row\<in>set (jl_data l). has_nan row) \<longrightarrow> encode l \<noteq> None)"

lemma mem_nan:
  assumes "os_memory env = Inr vm" "vmSwapTotal vm = 0" "vmSwapCached vm = 0"
  shows "\<exists>row. GetGoPsutilMem env = Inr [row] \<and> gget row ''swap_percent'' = Some (VFloat64 NaN)"
  using assms by (simp add: GetGoPsutilMem_def NewMeasurement_def gomap_simps float_of_def inf_times_def)

text \<open>
  on a machine without swap space the memory metric has a value that is not a number, because the percentage divides by the
  swap space and these rows, unlike those of queries, are not sanitised. The worker sends the envelope without an error, and a sink that writes JSON refuses all of it.
\<close>

theorem mem_lost_without_swap:
  assumes "os_memory env = Inr vm" "vmSwapTotal vm = 0" "vmSwapCached vm = 0" "refuses_nan encode" "jw_ctxErr jw = None"
    and "read_os env interval ''psutil_mem'' [] st = Some (st', io_os io ''psutil_mem'' [])"
    and "RealDbnameField cfg \<noteq> ''swap_percent''" "SystemIdentifierField cfg \<noteq> ''swap_percent''"
  shows "\<exists>msg err. fetchOSMetric cfg io ''psutil_mem'' w = (Db_Reaper.send msg w, None) \<and> JSON_Write encode msg jw = (jw, Some err)"
proof -
  obtain row where row: "GetGoPsutilMem env = Inr [row]" "gget row ''swap_percent'' = Some (VFloat64 NaN)"
    using mem_nan [OF assms(1-3)] by blast
  let ?data = "add_sysinfo cfg (wmd w) [row]"
  let ?msg = "mk_envelope (wmd w) ''psutil_mem'' ?data"
  have os: "io_os io ''psutil_mem'' [] = Inr [row]" using assms(6) row(1) by (simp add: read_os_def)
  have ne: "Data ?msg \<noteq> []" by (simp add: mk_envelope_def add_sysinfo_def)
  have "fetchOSMetric cfg io ''psutil_mem'' w = (Db_Reaper.send ?msg w, None)"
    using ne by (simp add: fetchOSMetric_def FetchStatsDirectlyFromOS_def directlyFetchableOSMetrics_def os)
  moreover have "\<exists>r\<in>set (jl_data (json_row ?msg)). has_nan r"
    using row(2) assms(7,8)
    by (auto simp: json_row_def mk_envelope_def add_sysinfo_def sysinfo_row_def has_nan_def gomap_simps
        intro!: exI [of _ "''swap_percent''"])
  then obtain err where "encode (json_row ?msg) = Some err" using assms(4) by (auto simp: refuses_nan_def)
  then have "JSON_Write encode ?msg jw = (jw, Some err)" using ne assms(5) by (simp add: JSON_Write_def)
  ultimately show ?thesis by blast
qed

theorem mem_lost_without_swap_witness:
  "let io = sample_io\<lparr>io_os := (\<lambda>m d. case read_os one_disk 60 m d (cpu_init one_disk) of Some (_, r) \<Rightarrow> r | None \<Rightarrow> Inr [])\<rparr>;
       encode = (\<lambda>l. if \<exists>row\<in>set (jl_data l). has_nan row then Some (ErrText ''NaN'') else None);
       jw = \<lparr>jw_ctxErr = None, jw_lines = [], jw_closed = False\<rparr>
   in \<exists>msg err. fetchOSMetric sample_cfg io ''psutil_mem'' sample_worker = (Db_Reaper.send msg sample_worker, None) \<and>
        JSON_Write encode msg jw = (jw, Some err)"
  unfolding Let_def
  by (rule mem_lost_without_swap [of one_disk _ _ _ 60 "cpu_init one_disk" "cpu_init one_disk"])
     (auto simp: one_disk_def refuses_nan_def read_os_def sample_cfg_def)

end
