(* ===== verification/Pipeline.thy ===== *)
theory Pipeline
  imports Multi_Writer
begin

text \<open>
  The way of an envelope from a worker to a table: the channel \<open>measurementCh\<close> and the goroutine
  \<open>WriteMeasurements\<close> (\<open>internal/reaper/reaper.go\<close>), the sinks (\<open>Multi_Writer\<close>), and for every PostgreSQL sink
  its queue, the goroutine \<open>poll\<close> and \<open>flush\<close> (\<open>Pg_Sink\<close>).

  Workers, \<open>WriteMeasurements\<close> and the polling goroutines take turns; an event is a turn of one of them and carries what it
  meets: how encoders and the remote server answer, and what the database does. A send to a full channel waits, so the event has no
  effect. A write to a PostgreSQL sink whose queue is full when its turn comes is one that waited until the
  timeout. A turn of \<open>poll\<close> may still follow the cancellation, since the inner \<open>select\<close> may have begun before it.

  The last four fields of the state record, for the theorems, what was sent, what was taken
  from the channel, what each sink did not accept, and the batches with the calls of \<open>CopyFrom\<close> they led to.
\<close>

section \<open>The state\<close>

record pipeline =
  pl_ch :: "envelope list"
  pl_sinks :: sink_writer
  pl_cancelled :: bool
  pl_stopped :: bool
  pl_pollStopped :: "nat \<Rightarrow> bool"
  pl_cache :: "nat \<Rightarrow> envelope list"
  pl_pgw :: "nat \<Rightarrow> pg_writer"
  pl_logged :: "goerr list"
  pl_sent :: "envelope list"
  pl_taken :: "envelope list"
  pl_lost :: "nat \<Rightarrow> envelope list"
  pl_flushes :: "nat \<Rightarrow> (envelope list \<times> copy_call list) list"

definition channelLimit :: nat where "channelLimit = 256"

definition pipe_start :: "sink_writer \<Rightarrow> (nat \<Rightarrow> pg_writer) \<Rightarrow> pipeline" where
  "pipe_start w pgw = \<lparr>pl_ch = [], pl_sinks = w, pl_cancelled = False, pl_stopped = False,
     pl_pollStopped = (\<lambda>_. False), pl_cache = (\<lambda>_. []), pl_pgw = pgw, pl_logged = [], pl_sent = [], pl_taken = [],
     pl_lost = (\<lambda>_. []), pl_flushes = (\<lambda>_. [])\<rparr>"

fun writers :: "sink_writer \<Rightarrow> sink list" where
  "writers (SingleWriter w) = [w]"
| "writers (MultiWriter ws) = ws"

fun map_writers :: "(sink list \<Rightarrow> sink list) \<Rightarrow> sink_writer \<Rightarrow> sink_writer" where
  "map_writers f (SingleWriter w) = SingleWriter (hd (f [w]))"
| "map_writers f (MultiWriter ws) = MultiWriter (f ws)"

section \<open>The turns\<close>

definition queue_full :: "pg_sink \<Rightarrow> bool" where
  "queue_full pk \<longleftrightarrow> cacheLimit \<le> length (pk_input pk)"

fun refuses :: "sink \<Rightarrow> bool" where
  "refuses (PgSink pk) = (pk_ctxErr pk \<noteq> None \<or> queue_full pk)"
| "refuses _ = False"

definition send_envelope :: "envelope \<Rightarrow> pipeline \<Rightarrow> pipeline" where
  "send_envelope msg st =
     (if length (pl_ch st) < channelLimit then st\<lparr>pl_ch := pl_ch st @ [msg], pl_sent := pl_sent st @ [msg]\<rparr> else st)"

text \<open>One round of the loop in \<open>WriteMeasurements\<close>: an error of the sinks is logged and the loop goes on.\<close>

definition WriteMeasurements :: "sink_env \<Rightarrow> pipeline \<Rightarrow> pipeline" where
  "WriteMeasurements env st =
     (if pl_stopped st then st
      else case pl_ch st of
             [] \<Rightarrow> st
           | msg # rest \<Rightarrow>
               (let (w, err) = writer_Write (env\<lparr>se_pgFull := queue_full\<rparr>) msg (pl_sinks st)
                in st\<lparr>pl_ch := rest, pl_sinks := w,
                      pl_logged := pl_logged st @ (case err of None \<Rightarrow> [] | Some e \<Rightarrow> [e]),
                      pl_taken := pl_taken st @ [msg],
                      pl_lost := (\<lambda>i. pl_lost st i @
                        (if i < length (writers (pl_sinks st)) \<and> refuses (writers (pl_sinks st) ! i) then [msg] else []))\<rparr>))"

fun flush_all :: "pg_env \<Rightarrow> envelope list list \<Rightarrow> pg_writer \<Rightarrow> (pg_writer \<times> (envelope list \<times> copy_call list) list) option" where
  "flush_all env [] w = Some (w, [])"
| "flush_all env (b # bs) w =
     Option.bind (flush env b w) (\<lambda>(w, calls).
       Option.bind (flush_all env bs w) (\<lambda>(w, fs). Some (w, (b, calls) # fs)))"

text \<open>One round of the loop in \<open>poll\<close> of sink \<open>i\<close>; \<open>None\<close> is a flush that does not return.\<close>

definition poll_round :: "nat \<Rightarrow> pg_env \<Rightarrow> poll_event \<Rightarrow> pipeline \<Rightarrow> pipeline option" where
  "poll_round i env ev st =
     (let (batches, cache) = poll [ev] (pl_cache st i)
      in Option.bind (flush_all env batches (pl_pgw st i)) (\<lambda>(w, fs).
           Some (st\<lparr>pl_cache := (pl_cache st)(i := cache), pl_pgw := (pl_pgw st)(i := w),
                    pl_flushes := (pl_flushes st)(i := pl_flushes st i @ fs)\<rparr>)))"

definition pg_input :: "sink_writer \<Rightarrow> nat \<Rightarrow> envelope list option" where
  "pg_input w i =
     (if i < length (writers w) then case writers w ! i of PgSink pk \<Rightarrow> Some (pk_input pk) | _ \<Rightarrow> None else None)"

fun set_input :: "envelope list \<Rightarrow> sink \<Rightarrow> sink" where
  "set_input es (PgSink pk) = PgSink (pk\<lparr>pk_input := es\<rparr>)"
| "set_input es s = s"

definition poll_reads :: "nat \<Rightarrow> pg_env \<Rightarrow> pipeline \<Rightarrow> pipeline option" where
  "poll_reads i env st =
     (case pg_input (pl_sinks st) i of
        Some (e # rest) \<Rightarrow>
          poll_round i env (Arrives e)
            (st\<lparr>pl_sinks := map_writers (\<lambda>ws. ws[i := set_input rest (ws ! i)]) (pl_sinks st)\<rparr>)
      | _ \<Rightarrow> Some st)"

text \<open>All sinks share the context of the program.\<close>

fun cancel_sink :: "sink \<Rightarrow> sink" where
  "cancel_sink (JSONSink jw) = JSONSink (jw\<lparr>jw_ctxErr := Some (Sentinel ErrCanceled)\<rparr>)"
| "cancel_sink (PgSink pk) = PgSink (pk\<lparr>pk_ctxErr := Some (Sentinel ErrCanceled)\<rparr>)"
| "cancel_sink (PromSink w) = PromSink w"
| "cancel_sink (RPCSink rw) = RPCSink (rw\<lparr>rw_ctxErr := Some (Sentinel ErrCanceled)\<rparr>)"

datatype pipe_event =
    Send envelope | WriteTurn sink_env | WriterReturns | PollReads nat pg_env | PollTick nat pg_env | PollReturns nat
  | CancelContext

fun pipe_step :: "pipe_event \<Rightarrow> pipeline \<Rightarrow> pipeline option" where
  "pipe_step (Send msg) st = Some (send_envelope msg st)"
| "pipe_step (WriteTurn env) st = Some (WriteMeasurements env st)"
| "pipe_step WriterReturns st = Some (if pl_cancelled st then st\<lparr>pl_stopped := True\<rparr> else st)"
| "pipe_step (PollReads i env) st = (if pl_pollStopped st i then Some st else poll_reads i env st)"
| "pipe_step (PollTick i env) st = (if pl_pollStopped st i then Some st else poll_round i env Tick st)"
| "pipe_step (PollReturns i) st =
     Some (if pl_cancelled st then st\<lparr>pl_pollStopped := (pl_pollStopped st)(i := True)\<rparr> else st)"
| "pipe_step CancelContext st =
     Some (st\<lparr>pl_cancelled := True, pl_sinks := map_writers (map cancel_sink) (pl_sinks st)\<rparr>)"

fun pipe_run :: "pipe_event list \<Rightarrow> pipeline \<Rightarrow> pipeline option" where
  "pipe_run [] st = Some st"
| "pipe_run (ev # evs) st = Option.bind (pipe_step ev st) (pipe_run evs)"

section \<open>The queues\<close>

lemma writers_Write: "writers (fst (writer_Write env msg w)) = map (fst \<circ> sink_Write env msg) (writers w)"
  by (cases w) (simp_all add: mw_Write_def each_states)

lemma writers_map [simp]: "writers (map_writers (map g) w) = map g (writers w)"
  by (cases w) simp_all

lemma writers_upd [simp]:
  "writers (map_writers (\<lambda>ws. ws[i := g (ws ! i)]) w) = (writers w)[i := g (writers w ! i)]"
  by (cases w; cases i) simp_all

lemma pg_input_Write:
  "pg_input (fst (writer_Write (env\<lparr>se_pgFull := queue_full\<rparr>) msg w)) i =
     map_option (\<lambda>q. if refuses (writers w ! i) then q else q @ [msg]) (pg_input w i)"
  by (cases "writers w ! i")
     (auto simp: pg_input_def writers_Write Pg_Write_def JSON_Write_def RPC_Write_def Let_def split: option.splits)

lemma pg_input_cancel [simp]: "pg_input (map_writers (map cancel_sink) w) i = pg_input w i"
  by (cases "writers w ! i") (auto simp: pg_input_def)

lemma pg_input_set:
  "pg_input w i = Some q \<Longrightarrow>
   pg_input (map_writers (\<lambda>ws. ws[i := set_input rest (ws ! i)]) w) j = (if j = i then Some rest else pg_input w j)"
  by (auto simp: pg_input_def nth_list_update split: if_splits sink.splits)

lemma not_refuses: "pg_input w i = Some q \<Longrightarrow> \<not> refuses (writers w ! i) \<Longrightarrow> length q < cacheLimit"
  by (auto simp: pg_input_def queue_full_def split: if_splits sink.splits)

lemma shuffles_snoc: "zs \<in> shuffles xs ys \<Longrightarrow> zs @ [z] \<in> shuffles (xs @ [z]) ys \<and> zs @ [z] \<in> shuffles xs (ys @ [z])"
proof (induction zs arbitrary: xs ys)
  case (Cons a zs)
  then show ?case by (auto simp: Cons_in_shuffles_iff)
qed simp

lemma flush_all_batches: "flush_all env bs w = Some (w', fs) \<Longrightarrow> map fst fs = bs"
  by (induction bs arbitrary: w fs) (auto split: Option.bind_splits)

lemma poll_one:
  "poll [ev] cache = (bs, cache') \<Longrightarrow> length cache < cacheLimit \<Longrightarrow>
   concat bs @ cache' = cache @ arrivals [ev] \<and> length cache' < cacheLimit \<and> list_all (\<lambda>b. length b \<le> cacheLimit) bs"
  by (cases ev) (auto simp: Let_def cacheLimit_def split: if_splits)

text \<open>What \<open>poll\<close> does to the state: sink \<open>i\<close> moves an arrival and its cache on, all else stays.\<close>

lemma poll_roundE:
  assumes "poll_round i env ev st = Some st'"
  obtains bs cache w fs where "poll [ev] (pl_cache st i) = (bs, cache)" "flush_all env bs (pl_pgw st i) = Some (w, fs)"
    "map fst fs = bs" "st' = st\<lparr>pl_cache := (pl_cache st)(i := cache), pl_pgw := (pl_pgw st)(i := w),
                    pl_flushes := (pl_flushes st)(i := pl_flushes st i @ fs)\<rparr>"
proof -
  obtain bs cache where p: "poll [ev] (pl_cache st i) = (bs, cache)" by fastforce
  with assms obtain w fs where f: "flush_all env bs (pl_pgw st i) = Some (w, fs)"
    and st': "st' = st\<lparr>pl_cache := (pl_cache st)(i := cache), pl_pgw := (pl_pgw st)(i := w),
                    pl_flushes := (pl_flushes st)(i := pl_flushes st i @ fs)\<rparr>"
    by (auto simp: poll_round_def split: Option.bind_splits)
  show thesis by (rule that [OF p f flush_all_batches [OF f] st'])
qed

section \<open>Conservation\<close>

definition through :: "nat \<Rightarrow> pipeline \<Rightarrow> envelope list" where
  "through i st = concat (map fst (pl_flushes st i)) @ pl_cache st i"

definition sink_ok :: "nat \<Rightarrow> envelope list \<Rightarrow> pipeline \<Rightarrow> bool" where
  "sink_ok i q st \<longleftrightarrow> pl_taken st \<in> shuffles (pl_lost st i) (through i st @ q) \<and> length q \<le> cacheLimit \<and>
     length (pl_cache st i) < cacheLimit \<and> list_all (\<lambda>(b, _). length b \<le> cacheLimit) (pl_flushes st i)"

definition pipe_ok :: "pipeline \<Rightarrow> bool" where
  "pipe_ok st \<longleftrightarrow> pl_sent st = pl_taken st @ pl_ch st \<and> length (pl_ch st) \<le> channelLimit \<and>
     (\<forall>i q. pg_input (pl_sinks st) i = Some q \<longrightarrow> sink_ok i q st)"

lemma poll_round_ok:
  assumes "poll_round i env ev st = Some st'" "sink_ok i (arrivals [ev] @ q) st"
  shows "sink_ok i q st'"
  using assms(1)
proof (rule poll_roundE)
  fix bs cache w fs
  assume p: "poll [ev] (pl_cache st i) = (bs, cache)" and fs: "map fst fs = bs"
    and st': "st' = st\<lparr>pl_cache := (pl_cache st)(i := cache), pl_pgw := (pl_pgw st)(i := w),
                    pl_flushes := (pl_flushes st)(i := pl_flushes st i @ fs)\<rparr>"
  have one: "concat bs @ cache = pl_cache st i @ arrivals [ev]" "length cache < cacheLimit"
    "list_all (\<lambda>b. length b \<le> cacheLimit) bs"
    using poll_one [OF p] assms(2) by (simp_all add: sink_ok_def)
  then have "through i st' @ q = through i st @ arrivals [ev] @ q"
    by (simp add: through_def st' fs)
  moreover have "list_all (\<lambda>(b, _). length b \<le> cacheLimit) fs"
    using one(3) unfolding fs [symmetric] list.pred_map comp_def case_prod_beta .
  ultimately show ?thesis using assms(2) one(2) by (simp add: sink_ok_def st')
qed

lemma poll_round_frame:
  assumes "poll_round i env ev st = Some st'"
  shows "pl_ch st' = pl_ch st" "pl_sinks st' = pl_sinks st" "pl_sent st' = pl_sent st" "pl_taken st' = pl_taken st"
    "pl_lost st' = pl_lost st" "j \<noteq> i \<Longrightarrow> sink_ok j q st' = sink_ok j q st"
  using assms by (auto elim!: poll_roundE simp: sink_ok_def through_def)

lemma sink_ok_sinks [simp]:
  "sink_ok i q (st\<lparr>pl_sinks := w\<rparr>) = sink_ok i q st" "sink_ok i q (st\<lparr>pl_cancelled := c\<rparr>) = sink_ok i q st"
  "sink_ok i q (st\<lparr>pl_stopped := c\<rparr>) = sink_ok i q st" "sink_ok i q (st\<lparr>pl_pollStopped := d\<rparr>) = sink_ok i q st"
  "sink_ok i q (st\<lparr>pl_ch := es, pl_sent := es'\<rparr>) = sink_ok i q st"
  by (simp_all add: sink_ok_def through_def)

lemma WriteMeasurements_ok:
  assumes "pipe_ok st"
  shows "pipe_ok (WriteMeasurements env st)"
proof (cases "pl_stopped st \<or> pl_ch st = []")
  case True
  with assms show ?thesis by (auto simp: WriteMeasurements_def)
next
  case False
  then obtain msg rest where ch: "pl_ch st = msg # rest" and run: "\<not> pl_stopped st" by (auto simp: neq_Nil_conv)
  let ?w = "writer_Write (env\<lparr>se_pgFull := queue_full\<rparr>) msg (pl_sinks st)"
  let ?st = "WriteMeasurements env st"
  have frame: "pl_ch ?st = rest" "pl_sinks ?st = fst ?w" "pl_taken ?st = pl_taken st @ [msg]" "pl_sent ?st = pl_sent st"
    "pl_cache ?st = pl_cache st" "pl_flushes ?st = pl_flushes st"
    "\<And>i. pl_lost ?st i = pl_lost st i @
       (if i < length (writers (pl_sinks st)) \<and> refuses (writers (pl_sinks st) ! i) then [msg] else [])"
    using ch run by (simp_all add: WriteMeasurements_def Let_def split_beta)
  have "sink_ok i q ?st" if q: "pg_input (pl_sinks ?st) i = Some q" for i q
  proof -
    obtain q0 where q0: "pg_input (pl_sinks st) i = Some q0"
      and q': "q = (if refuses (writers (pl_sinks st) ! i) then q0 else q0 @ [msg])"
      using q by (auto simp: frame pg_input_Write)
    from q0 have i: "i < length (writers (pl_sinks st))" by (auto simp: pg_input_def split: if_splits)
    have ok: "sink_ok i q0 st" using assms q0 by (simp add: pipe_ok_def)
    then have sh: "pl_taken st \<in> shuffles (pl_lost st i) (through i st @ q0)" by (simp add: sink_ok_def)
    show ?thesis
      using ok i q' not_refuses [OF q0] conjunct1 [OF shuffles_snoc [OF sh, of msg]]
        conjunct2 [OF shuffles_snoc [OF sh, of msg]]
      by (auto simp: sink_ok_def through_def frame)
  qed
  with assms ch show ?thesis by (simp add: pipe_ok_def frame)
qed

lemma pipe_step_ok:
  assumes "pipe_ok st" "pipe_step ev st = Some st'"
  shows "pipe_ok st'"
proof (cases ev)
  case (Send msg)
  with assms show ?thesis by (auto simp: pipe_ok_def send_envelope_def)
next
  case (WriteTurn env)
  with assms show ?thesis using WriteMeasurements_ok by auto
next
  case (PollReads i env)
  show ?thesis
  proof (cases "\<exists>e rest. \<not> pl_pollStopped st i \<and> pg_input (pl_sinks st) i = Some (e # rest)")
    case True
    then obtain e rest where run: "\<not> pl_pollStopped st i" and q: "pg_input (pl_sinks st) i = Some (e # rest)" by blast
    let ?w = "map_writers (\<lambda>ws. ws[i := set_input rest (ws ! i)]) (pl_sinks st)"
    have pr: "poll_round i env (Arrives e) (st\<lparr>pl_sinks := ?w\<rparr>) = Some st'"
      using assms(2) PollReads run q by (simp add: poll_reads_def)
    have "sink_ok i (e # rest) st" using assms(1) q by (simp add: pipe_ok_def)
    then have "sink_ok i rest st'" using poll_round_ok [OF pr, of rest] by simp
    moreover have "sink_ok j q' st'" if "j \<noteq> i" "pg_input (pl_sinks st) j = Some q'" for j q'
      using assms(1) that by (simp add: poll_round_frame(6) [OF pr that(1)] pipe_ok_def)
    ultimately show ?thesis
      using assms(1) by (auto simp: pipe_ok_def poll_round_frame [OF pr] pg_input_set [OF q] split: if_splits)
  next
    case False
    with assms PollReads have "st' = st"
      by (auto simp: poll_reads_def split: if_splits option.splits list.splits)
    with assms(1) show ?thesis by simp
  qed
next
  case (PollTick i env)
  show ?thesis
  proof (cases "pl_pollStopped st i")
    case False
    then have pr: "poll_round i env Tick st = Some st'" using assms(2) PollTick by simp
    have "sink_ok j q st'" if "pg_input (pl_sinks st) j = Some q" for j q
      using assms(1) that poll_round_ok [OF pr, of q] poll_round_frame(6) [OF pr, of j q]
      by (cases "j = i") (auto simp: pipe_ok_def)
    with assms(1) show ?thesis by (simp add: pipe_ok_def poll_round_frame [OF pr])
  qed (use assms PollTick in simp)
qed (use assms in \<open>auto simp: pipe_ok_def split: if_splits\<close>)

section \<open>No turn gets stuck\<close>

text \<open>The hypotheses on a run: metrics have names, and the library's sort permutes the batch.\<close>

definition permutes :: "pg_env \<Rightarrow> bool" where
  "permutes env \<longleftrightarrow> (\<forall>msgs. mset (pg_sort env msgs) = mset msgs)"

fun event_ok :: "pipe_event \<Rightarrow> bool" where
  "event_ok (Send msg) = (MetricName msg \<noteq> [])"
| "event_ok (PollReads i env) = permutes env"
| "event_ok (PollTick i env) = permutes env"
| "event_ok _ = True"

lemma flush_returns:
  assumes "permutes env" "\<forall>e\<in>set b. MetricName e \<noteq> []"
  shows "\<exists>w' calls. flush env b w = Some (w', calls)"
proof (cases "b = []")
  case True
  then show ?thesis by (simp add: flush_def)
next
  case False
  moreover have "mset (pg_sort env b) = mset b" using assms(1) by (simp add: permutes_def)
  ultimately show ?thesis using flush_runs [of b env w] assms(2) by blast
qed

lemma flush_all_returns:
  assumes "permutes env" "\<forall>e\<in>set (concat bs). MetricName e \<noteq> []"
  shows "\<exists>w' fs. flush_all env bs w = Some (w', fs)"
  using assms(2)
proof (induction bs arbitrary: w)
  case (Cons b bs)
  obtain w1 calls where "flush env b w = Some (w1, calls)"
    using flush_returns [OF assms(1)] Cons.prems by (metis UnCI concat.simps(2) set_append)
  moreover obtain w' fs where "flush_all env bs w1 = Some (w', fs)" using Cons by fastforce
  ultimately show ?case by simp
qed simp

lemma poll_round_returns:
  assumes "permutes env" "\<forall>e\<in>set (pl_cache st i @ arrivals [ev]). MetricName e \<noteq> []" "length (pl_cache st i) < cacheLimit"
  shows "\<exists>st'. poll_round i env ev st = Some st'"
proof -
  obtain bs cache where p: "poll [ev] (pl_cache st i) = (bs, cache)" by fastforce
  have "\<forall>e\<in>set (concat bs @ cache). MetricName e \<noteq> []" using poll_one [OF p assms(3)] assms(2) by metis
  then obtain w fs where "flush_all env bs (pl_pgw st i) = Some (w, fs)"
    using flush_all_returns [OF assms(1), of bs] by (metis UnCI set_append)
  with p show ?thesis by (simp add: poll_round_def)
qed

definition named :: "pipeline \<Rightarrow> bool" where
  "named st \<longleftrightarrow> (\<forall>e\<in>set (pl_sent st). MetricName e \<noteq> []) \<and>
     (\<forall>i. pg_input (pl_sinks st) i = None \<longrightarrow> pl_cache st i = [])"

lemma under_way:
  assumes "pipe_ok st" "named st" "pg_input (pl_sinks st) i = Some q"
  shows "\<forall>e\<in>set (pl_cache st i @ q). MetricName e \<noteq> []" "length (pl_cache st i) < cacheLimit"
proof -
  have ok: "sink_ok i q st" using assms by (simp add: pipe_ok_def)
  then have "set (pl_taken st) = set (pl_lost st i) \<union> set (through i st @ q)"
    unfolding sink_ok_def using set_shuffles by blast
  then have "set (pl_cache st i @ q) \<subseteq> set (pl_taken st)" by (auto simp: through_def)
  with assms(1,2) show "\<forall>e\<in>set (pl_cache st i @ q). MetricName e \<noteq> []" by (auto simp: pipe_ok_def named_def)
  from ok show "length (pl_cache st i) < cacheLimit" by (simp add: sink_ok_def)
qed

lemma pipe_step_returns:
  assumes "pipe_ok st" "named st" "event_ok ev"
  shows "\<exists>st'. pipe_step ev st = Some st'"
proof (cases ev)
  case (PollReads i env)
  show ?thesis
  proof (cases "\<exists>e rest. pg_input (pl_sinks st) i = Some (e # rest)")
    case True
    then obtain e rest where q: "pg_input (pl_sinks st) i = Some (e # rest)" by blast
    show ?thesis
      using poll_round_returns [of env "st\<lparr>pl_sinks := map_writers (\<lambda>ws. ws[i := set_input rest (ws ! i)]) (pl_sinks st)\<rparr>" i
          "Arrives e"] under_way [OF assms(1,2) q] assms(3) PollReads q
      by (simp add: poll_reads_def)
  qed (auto simp: PollReads poll_reads_def split: option.split list.split)
next
  case (PollTick i env)
  have "(\<forall>e\<in>set (pl_cache st i). MetricName e \<noteq> []) \<and> length (pl_cache st i) < cacheLimit"
    using under_way [OF assms(1,2), of i] assms(2)
    by (cases "pg_input (pl_sinks st) i") (auto simp: named_def cacheLimit_def)
  then show ?thesis using poll_round_returns [of env st i Tick] assms(3) PollTick by simp
qed simp_all

lemma poll_round_cache: "poll_round i env ev st = Some st' \<Longrightarrow> j \<noteq> i \<Longrightarrow> pl_cache st' j = pl_cache st j"
  by (auto elim!: poll_roundE)

lemma poll_round_tick_empty: "poll_round i env Tick st = Some st' \<Longrightarrow> pl_cache st' i = []"
  by (auto elim!: poll_roundE)

lemma pipe_step_named:
  assumes "named st" "event_ok ev" "pipe_step ev st = Some st'"
  shows "named st'"
proof (cases ev)
  case (Send msg)
  with assms show ?thesis by (auto simp: named_def send_envelope_def split: if_splits)
next
  case (WriteTurn env)
  with assms show ?thesis
    by (auto simp: named_def WriteMeasurements_def Let_def split_beta pg_input_Write split: list.splits if_splits)
next
  case (PollReads i env)
  show ?thesis
  proof (cases "\<exists>e rest. \<not> pl_pollStopped st i \<and> pg_input (pl_sinks st) i = Some (e # rest)")
    case True
    then obtain e rest where run: "\<not> pl_pollStopped st i" and q: "pg_input (pl_sinks st) i = Some (e # rest)" by blast
    let ?w = "map_writers (\<lambda>ws. ws[i := set_input rest (ws ! i)]) (pl_sinks st)"
    have pr: "poll_round i env (Arrives e) (st\<lparr>pl_sinks := ?w\<rparr>) = Some st'"
      using assms(3) PollReads run q by (simp add: poll_reads_def)
    show ?thesis
      using assms(1) poll_round_cache [OF pr]
      by (auto simp: named_def poll_round_frame [OF pr] pg_input_set [OF q] split: if_splits)
  next
    case False
    with assms PollReads have "st' = st"
      by (auto simp: poll_reads_def split: if_splits option.splits list.splits)
    with assms(1) show ?thesis by simp
  qed
next
  case (PollTick i env)
  show ?thesis
  proof (cases "pl_pollStopped st i")
    case False
    then have pr: "poll_round i env Tick st = Some st'" using assms(3) PollTick by simp
    have "pl_cache st' j = []" if "pg_input (pl_sinks st) j = None" for j
      using assms(1) that poll_round_cache [OF pr, of j] poll_round_tick_empty [OF pr]
      by (cases "j = i") (auto simp: named_def)
    with assms(1) show ?thesis by (simp add: named_def poll_round_frame [OF pr])
  qed (use assms PollTick in simp)
qed (use assms in \<open>auto simp: named_def split: if_splits\<close>)

lemma pipe_run_ok:
  assumes "pipe_ok st" "named st" "list_all event_ok evs"
  shows "\<exists>st'. pipe_run evs st = Some st' \<and> pipe_ok st' \<and> named st'"
  using assms
proof (induction evs arbitrary: st)
  case (Cons ev evs)
  then obtain st1 where "pipe_step ev st = Some st1" using pipe_step_returns by fastforce
  moreover from this Cons.prems have "pipe_ok st1" "named st1"
    by (auto intro: pipe_step_ok pipe_step_named)
  ultimately show ?case using Cons.IH [of st1] Cons.prems(3) by simp
qed simp

text \<open>At the start the queues of the sinks are empty.\<close>

definition fresh_writer :: "sink_writer \<Rightarrow> bool" where
  "fresh_writer w \<longleftrightarrow> list_all (\<lambda>s. case s of PgSink pk \<Rightarrow> pk_input pk = [] | _ \<Rightarrow> True) (writers w)"

lemma start_ok: "fresh_writer w \<Longrightarrow> pipe_ok (pipe_start w pgw) \<and> named (pipe_start w pgw)"
  by (auto simp: pipe_ok_def named_def pipe_start_def fresh_writer_def pg_input_def sink_ok_def through_def cacheLimit_def
      list_all_length split: if_splits sink.splits)

text \<open>
  C7: in every interleaving of workers, \<open>WriteMeasurements\<close> and the polling goroutines of the sinks, whatever the sinks and databases
  answer, no turn gets stuck, envelopes leave the channel in the order they were sent, and every envelope taken from it is, for each PostgreSQL
  sink, in exactly one place: refused by this sink, in one of its batches, in its cache or in its queue, in the order of sending. The
  channel and the queue hold at most 256 envelopes, a batch too, and the cache fewer.
\<close>

theorem pipeline_conserves:
  assumes "fresh_writer w" "list_all event_ok evs"
  shows "\<exists>st. pipe_run evs (pipe_start w pgw) = Some st \<and> pl_sent st = pl_taken st @ pl_ch st \<and> length (pl_ch st) \<le> 256 \<and>
    (\<forall>i q. pg_input (pl_sinks st) i = Some q \<longrightarrow>
       pl_taken st \<in> shuffles (pl_lost st i) (concat (map fst (pl_flushes st i)) @ pl_cache st i @ q) \<and>
       length q \<le> 256 \<and> length (pl_cache st i) < 256 \<and> list_all (\<lambda>(b, _). length b \<le> 256) (pl_flushes st i))"
proof -
  obtain st where "pipe_run evs (pipe_start w pgw) = Some st" "pipe_ok st"
    using pipe_run_ok start_ok [OF assms(1)] assms(2) by blast
  then show ?thesis by (auto simp: pipe_ok_def sink_ok_def through_def channelLimit_def cacheLimit_def)
qed

text \<open>A run in which the second of two sinks, a closed one, refuses what the first one writes.\<close>

definition two_pg_sinks :: sink_writer where
  "two_pg_sinks = MultiWriter [PgSink \<lparr>pk_ctxErr = None, pk_input = []\<rparr>,
     PgSink \<lparr>pk_ctxErr = Some (Sentinel ErrCanceled), pk_input = []\<rparr>]"

definition sorting_env :: pg_env where
  "sorting_env = \<lparr>pg_now = 1, pg_sort = sort_by MetricName, pg_ensure = (\<lambda>_ t. Inr \<lparr>StartTime = t, EndTime = t + 1\<rparr>),
     pg_ensure_ts = (\<lambda>_. None), pg_fates = (\<lambda>_. Done), pg_float = (\<lambda>_. [])\<rparr>"

definition sample_events :: "pipe_event list" where
  "sample_events = [Send (sample_envelope ''db'' ''wal''), Send (sample_envelope ''db'' ''cpu''), WriteTurn quiet_env, WriteTurn quiet_env,
     PollReads 0 sorting_env, Send (sample_envelope ''db'' ''db_size'')]"

lemmas pipe_eval = pipe_start_def send_envelope_def WriteMeasurements_def poll_reads_def poll_round_def pg_input_def
  channelLimit_def cacheLimit_def mw_Write_def Pg_Write_def queue_full_def Let_def

theorem pipeline_conserves_witness:
  "fresh_writer two_pg_sinks \<and> list_all event_ok sample_events \<and>
   (\<exists>st. pipe_run sample_events (pipe_start two_pg_sinks (\<lambda>_. sample_writer)) = Some st \<and>
      pl_ch st = [sample_envelope ''db'' ''db_size''] \<and> pg_input (pl_sinks st) 0 = Some [sample_envelope ''db'' ''cpu''] \<and>
      pl_taken st \<in> shuffles (pl_lost st 0) ([] @ [sample_envelope ''db'' ''wal''] @ [sample_envelope ''db'' ''cpu'']) \<and>
      pl_lost st 1 = [sample_envelope ''db'' ''wal'', sample_envelope ''db'' ''cpu''])"
proof -
  have ok: "fresh_writer two_pg_sinks" "list_all event_ok sample_events"
    by (simp_all add: fresh_writer_def two_pg_sinks_def sample_events_def permutes_def sorting_env_def sample_envelope_def)
  from pipeline_conserves [OF this, of "\<lambda>_. sample_writer"] obtain st
    where run: "pipe_run sample_events (pipe_start two_pg_sinks (\<lambda>_. sample_writer)) = Some st"
      and sinks: "\<And>i q. pg_input (pl_sinks st) i = Some q \<Longrightarrow>
        pl_taken st \<in> shuffles (pl_lost st i) (concat (map fst (pl_flushes st i)) @ pl_cache st i @ q)"
    by blast
  have st: "pl_ch st = [sample_envelope ''db'' ''db_size'']" "pg_input (pl_sinks st) 0 = Some [sample_envelope ''db'' ''cpu'']"
    "pl_flushes st 0 = []" "pl_cache st 0 = [sample_envelope ''db'' ''wal'']"
    "pl_lost st 1 = [sample_envelope ''db'' ''wal'', sample_envelope ''db'' ''cpu'']"
    using run by (auto simp: sample_events_def two_pg_sinks_def pipe_eval)
  with ok run sinks [OF st(2)] show ?thesis by auto
qed

section \<open>Rows\<close>

definition rows_of :: "string \<Rightarrow> copy_call list \<Rightarrow> pg_row list" where
  "rows_of n calls = concat (map (\<lambda>(m, rs). if m = Some n then (case rs of None \<Rightarrow> [] | Some rows \<Rightarrow> rows) else []) calls)"

definition metric_rows :: "(gofloat \<Rightarrow> string) \<Rightarrow> string \<Rightarrow> envelope list \<Rightarrow> pg_row list" where
  "metric_rows ff n es = concat (map (env_rows ff 0) (filter (\<lambda>e. MetricName e = n) es))"

text \<open>An envelope whose first row carries its time, as all queries of the shipped metrics select it.\<close>

definition timed :: "envelope \<Rightarrow> bool" where
  "timed e \<longleftrightarrow> (case Data e of [] \<Rightarrow> True
     | m # _ \<Rightarrow> (case gget m EpochColumnName of Some (VInt64 _) \<Rightarrow> True | _ \<Rightarrow> False))"

definition clean :: "(gofloat \<Rightarrow> string) \<Rightarrow> pg_env \<Rightarrow> bool" where
  "clean ff env \<longleftrightarrow> permutes env \<and> (\<forall>msgs. sorted_envs (pg_sort env msgs)) \<and> (\<forall>k. pg_fates env k = Done) \<and> pg_float env = ff"

fun clean_event :: "(gofloat \<Rightarrow> string) \<Rightarrow> pipe_event \<Rightarrow> bool" where
  "clean_event ff (Send msg) = (MetricName msg \<noteq> [] \<and> timed msg)"
| "clean_event ff (PollReads i env) = clean ff env"
| "clean_event ff (PollTick i env) = clean ff env"
| "clean_event ff _ = True"

lemma clean_event_ok: "clean_event ff ev \<Longrightarrow> event_ok ev"
  by (cases ev) (auto simp: clean_def)

lemma metric_rows_append [simp]: "metric_rows ff n (xs @ ys) = metric_rows ff n xs @ metric_rows ff n ys"
  by (simp add: metric_rows_def)

lemma rows_of_append [simp]: "rows_of n (xs @ ys) = rows_of n xs @ rows_of n ys"
  by (simp add: rows_of_def)

lemma timed_epoch: "timed e \<Longrightarrow> Data e = [] \<or> (\<exists>t. \<forall>now. GetEpoch now (Data e) = (t, Data e))"
  by (auto simp: timed_def GetEpoch_def Measurement_GetEpoch_def split: list.splits option.splits goval.splits)

lemma timed_stamped: "timed e \<Longrightarrow> stamped now e = e"
  using timed_epoch [of e] by (auto simp: stamped_def GetEpoch_def)

lemma timed_rows: "timed e \<Longrightarrow> env_rows ff now e = env_rows ff 0 e"
  using timed_epoch [of e] by (auto simp: env_rows_def row_values_def)

lemma metric_rows_perm:
  assumes "mset xs = mset ys"
  shows "mset (metric_rows ff n xs) = mset (metric_rows ff n ys)"
proof -
  have "mset (metric_rows ff n zs) = sum_mset (image_mset (\<lambda>e. mset (env_rows ff 0 e)) (filter_mset (\<lambda>e. MetricName e = n) (mset zs)))" for zs
    unfolding metric_rows_def by (induction zs) simp_all
  with assms show ?thesis by simp
qed

lemma rows_of_each:
  "distinct ms \<Longrightarrow> rows_of n (map (\<lambda>m. (Some m, Some (R m))) ms) = (if n \<in> set ms then R n else [])"
  by (induction ms) (auto simp: rows_of_def)

lemma flush_rows:
  assumes "clean ff env" "\<forall>e\<in>set b. MetricName e \<noteq> [] \<and> timed e" "flush env b w = Some (w', calls)"
  shows "mset (rows_of n calls) = mset (metric_rows ff n b)"
proof (cases "b = []")
  case True
  with assms(3) show ?thesis by (simp add: flush_def rows_of_def metric_rows_def)
next
  case False
  have perm: "mset (pg_sort env b) = mset b" and sorted: "sorted_envs (pg_sort env b)"
    and fates: "\<And>k. pg_fates env k = Done" and ff: "pg_float env = ff"
    using assms(1) by (auto simp: clean_def permutes_def)
  let ?R = "\<lambda>n. concat (map (env_rows ff (pg_now env)) (filter (\<lambda>e. MetricName e = n) (flushed env b)))"
  have names: "\<forall>e\<in>set b. MetricName e \<noteq> []" using assms(2) by blast
  have "\<forall>k n err. pg_fates env k = FailAfter n err \<longrightarrow> err \<noteq> ConnectError" by (simp add: fates)
  from flush_calls [OF False names perm sorted this, of w]
  have d: "distinct (map fst calls)" and set: "set (map fst calls) = Some ` MetricName ` set b"
    and each: "\<And>i. i < length calls \<Longrightarrow> \<exists>n. fst (calls ! i) = Some n \<and> snd (calls ! i) = Some (?R n)"
    unfolding fates ff assms(3) by simp_all
  have calls: "calls = map (\<lambda>m. (Some m, Some (?R m))) (map (the \<circ> fst) calls)" (is "_ = map ?C ?ms")
  proof (rule nth_equalityI)
    fix i assume "i < length calls"
    with each [OF this] show "calls ! i = map ?C ?ms ! i" by (auto simp: prod_eq_iff)
  qed simp
  have "map fst calls = map Some ?ms" using arg_cong [OF calls, of "map fst"] by (simp add: comp_def)
  with d set have "distinct (map Some ?ms)" "Some ` set ?ms = Some ` MetricName ` set b" by (simp_all only: set_map)
  then have ms: "distinct ?ms" "set ?ms = MetricName ` set b"
    by (simp_all only: distinct_map [of Some] inj_image_eq_iff [OF inj_Some])
  have rows: "rows_of n calls = (if n \<in> MetricName ` set b then ?R n else [])"
    by (subst calls) (simp only: rows_of_each [OF ms(1)] ms(2))
  have timed: "timed e" if "e \<in> set (pg_sort env b)" for e using that assms(2) perm by (metis set_mset_mset)
  have "flushed env b = pg_sort env b"
    unfolding flushed_def using timed by (simp add: map_idI timed_stamped)
  moreover have "map (env_rows ff (pg_now env)) (filter (\<lambda>e. MetricName e = n) (pg_sort env b)) =
      map (env_rows ff 0) (filter (\<lambda>e. MetricName e = n) (pg_sort env b))"
    by (rule map_cong [OF refl]) (use timed in \<open>auto intro: timed_rows\<close>)
  ultimately have "?R n = metric_rows ff n (pg_sort env b)" by (simp only: metric_rows_def)
  moreover have "metric_rows ff n b = []" if "n \<notin> MetricName ` set b"
    using that by (auto simp: metric_rows_def filter_empty_conv)
  ultimately show ?thesis unfolding rows using metric_rows_perm [OF perm] by simp
qed

section \<open>Every row reaches its table\<close>

definition copied :: "(gofloat \<Rightarrow> string) \<Rightarrow> envelope list \<times> copy_call list \<Rightarrow> bool" where
  "copied ff f \<longleftrightarrow> (\<forall>n. mset (rows_of n (snd f)) = mset (metric_rows ff n (fst f)))"

definition rows_ok :: "(gofloat \<Rightarrow> string) \<Rightarrow> pipeline \<Rightarrow> bool" where
  "rows_ok ff st \<longleftrightarrow> (\<forall>e\<in>set (pl_sent st). timed e) \<and>
     (\<forall>i. list_all (copied ff) (pl_flushes st i))"

lemma flush_all_rows:
  assumes "clean ff env" "\<forall>e\<in>set (concat bs). MetricName e \<noteq> [] \<and> timed e" "flush_all env bs w = Some (w', fs)"
  shows "list_all (copied ff) fs"
  using assms(2,3)
proof (induction bs arbitrary: w fs)
  case (Cons b bs)
  from Cons.prems(2) obtain w1 calls fs' where f: "flush env b w = Some (w1, calls)" "flush_all env bs w1 = Some (w', fs')"
    and fs: "fs = (b, calls) # fs'"
    by (auto split: Option.bind_splits)
  have "copied ff (b, calls)"
    using flush_rows [OF assms(1) _ f(1)] Cons.prems(1) by (simp add: copied_def)
  moreover have "list_all (copied ff) fs'"
    using Cons.IH [OF _ f(2)] Cons.prems(1) by simp
  ultimately show ?case by (simp add: fs)
qed simp

lemma poll_round_rows:
  assumes "poll_round i env ev st = Some st'" "clean ff env" "rows_ok ff st"
    "\<forall>e\<in>set (pl_cache st i @ arrivals [ev]). MetricName e \<noteq> [] \<and> timed e" "length (pl_cache st i) < cacheLimit"
  shows "rows_ok ff st'"
  using assms(1)
proof (rule poll_roundE)
  fix bs cache w fs
  assume p: "poll [ev] (pl_cache st i) = (bs, cache)" and f: "flush_all env bs (pl_pgw st i) = Some (w, fs)"
    and st': "st' = st\<lparr>pl_cache := (pl_cache st)(i := cache), pl_pgw := (pl_pgw st)(i := w),
                    pl_flushes := (pl_flushes st)(i := pl_flushes st i @ fs)\<rparr>"
  have "\<forall>e\<in>set (concat bs @ cache). MetricName e \<noteq> [] \<and> timed e" using poll_one [OF p assms(5)] assms(4) by metis
  then have "\<forall>e\<in>set (concat bs). MetricName e \<noteq> [] \<and> timed e" unfolding set_append by blast
  note flush_all_rows [OF assms(2) this f]
  with assms(3) show ?thesis by (auto simp: rows_ok_def st')
qed

lemma under_way_timed:
  assumes "pipe_ok st" "named st" "rows_ok ff st" "pg_input (pl_sinks st) i = Some q"
  shows "\<forall>e\<in>set (pl_cache st i @ q). MetricName e \<noteq> [] \<and> timed e"
proof -
  have "sink_ok i q st" using assms by (simp add: pipe_ok_def)
  then have "set (pl_taken st) = set (pl_lost st i) \<union> set (through i st @ q)"
    unfolding sink_ok_def using set_shuffles by blast
  then have "set (pl_cache st i @ q) \<subseteq> set (pl_sent st)" using assms(1) by (auto simp: through_def pipe_ok_def)
  with assms(2,3) show ?thesis by (auto simp: named_def rows_ok_def)
qed

lemma rows_ok_frame:
  "pl_sent st' = pl_sent st \<Longrightarrow> pl_flushes st' = pl_flushes st \<Longrightarrow> rows_ok ff st' = rows_ok ff st"
  by (simp add: rows_ok_def)

lemma pipe_step_rows:
  assumes "pipe_ok st" "named st" "rows_ok ff st" "clean_event ff ev" "pipe_step ev st = Some st'"
  shows "rows_ok ff st'"
proof (cases ev)
  case (Send msg)
  with assms show ?thesis by (auto simp: rows_ok_def send_envelope_def split: if_splits)
next
  case (WriteTurn env)
  then have "pl_sent st' = pl_sent st" "pl_flushes st' = pl_flushes st"
    using assms(5) by (auto simp: WriteMeasurements_def Let_def split_beta split: list.split)
  with assms(3) show ?thesis using rows_ok_frame by blast
next
  case (PollReads i env)
  show ?thesis
  proof (cases "\<exists>e rest. \<not> pl_pollStopped st i \<and> pg_input (pl_sinks st) i = Some (e # rest)")
    case True
    then obtain e rest where run: "\<not> pl_pollStopped st i" and q: "pg_input (pl_sinks st) i = Some (e # rest)" by blast
    let ?st = "st\<lparr>pl_sinks := map_writers (\<lambda>ws. ws[i := set_input rest (ws ! i)]) (pl_sinks st)\<rparr>"
    have pr: "poll_round i env (Arrives e) ?st = Some st'"
      using assms(5) PollReads run q by (simp add: poll_reads_def)
    show ?thesis
      by (rule poll_round_rows [OF pr])
         (use assms(3,4) PollReads under_way_timed [OF assms(1-3) q] under_way(2) [OF assms(1,2) q] in
           \<open>simp_all add: rows_ok_def\<close>)
  next
    case False
    with assms PollReads have "st' = st"
      by (auto simp: poll_reads_def split: if_splits option.splits list.splits)
    with assms(3) show ?thesis by simp
  qed
next
  case (PollTick i env)
  show ?thesis
  proof (cases "pl_pollStopped st i")
    case False
    then have pr: "poll_round i env Tick st = Some st'" using assms(5) PollTick by simp
    have "(\<forall>e\<in>set (pl_cache st i). MetricName e \<noteq> [] \<and> timed e) \<and> length (pl_cache st i) < cacheLimit"
      using under_way_timed [OF assms(1-3), of i] under_way(2) [OF assms(1,2), of i] assms(2)
      by (cases "pg_input (pl_sinks st) i") (auto simp: named_def cacheLimit_def)
    then show ?thesis using poll_round_rows [OF pr _ assms(3)] assms(4) PollTick by simp
  qed (use assms PollTick in simp)
qed (use assms in \<open>auto simp: rows_ok_def split: if_splits\<close>)

lemma pipe_run_rows:
  assumes "pipe_ok st" "named st" "rows_ok ff st" "list_all (clean_event ff) evs" "pipe_run evs st = Some st'"
  shows "pipe_ok st' \<and> rows_ok ff st'"
  using assms
proof (induction evs arbitrary: st)
  case (Cons ev evs)
  then obtain st1 where s: "pipe_step ev st = Some st1" and r: "pipe_run evs st1 = Some st'"
    by (auto split: Option.bind_splits)
  have ev: "clean_event ff ev" "event_ok ev" using Cons.prems(4) clean_event_ok by auto
  show ?case
    using Cons.IH [OF pipe_step_ok [OF Cons.prems(1) s] pipe_step_named [OF Cons.prems(2) ev(2) s]
        pipe_step_rows [OF Cons.prems(1-3) ev(1) s] _ r] Cons.prems(4) by simp
qed simp

lemma flushed_rows:
  "list_all (copied ff) fs \<Longrightarrow>
   mset (rows_of n (concat (map snd fs))) = mset (metric_rows ff n (concat (map fst fs)))"
proof (induction fs)
  case Nil
  show ?case by (simp add: rows_of_def metric_rows_def)
qed (simp add: copied_def)

lemma pipe_rows:
  assumes "fresh_writer w" "list_all (clean_event ff) evs" "pipe_run evs (pipe_start w pgw) = Some st"
    and "pg_input (pl_sinks st) i = Some q" "pl_lost st i = []"
  shows "mset (rows_of n (concat (map snd (pl_flushes st i)))) + mset (metric_rows ff n (pl_cache st i @ q @ pl_ch st)) =
    mset (metric_rows ff n (pl_sent st))"
proof -
  have "rows_ok ff (pipe_start w pgw)" by (simp add: rows_ok_def pipe_start_def)
  then have ok: "pipe_ok st" "rows_ok ff st" using pipe_run_rows start_ok [OF assms(1)] assms(2,3) by blast+
  have "sink_ok i q st" using ok(1) assms(4) by (simp add: pipe_ok_def)
  then have "pl_sent st = concat (map fst (pl_flushes st i)) @ pl_cache st i @ q @ pl_ch st"
    using ok(1) assms(5) by (simp add: pipe_ok_def sink_ok_def through_def)
  moreover have "mset (rows_of n (concat (map snd (pl_flushes st i)))) = mset (metric_rows ff n (concat (map fst (pl_flushes st i))))"
    using ok(2) by (intro flushed_rows) (simp add: rows_ok_def)
  ultimately show ?thesis by simp
qed


definition flushing_events :: "pipe_event list" where
  "flushing_events = [Send (sample_envelope ''db'' ''wal''), Send (sample_envelope ''db'' ''cpu''), WriteTurn quiet_env, WriteTurn quiet_env,
     PollReads 0 sorting_env, PollReads 0 sorting_env, PollTick 0 sorting_env, Send (sample_envelope ''db'' ''cpu'')]"


end
