(* ===== verification/Pg_Migration.thy ===== *)
theory Pg_Migration
  imports Pg_Sink
begin

text \<open>
  The schema of the PostgreSQL sink over releases (\<open>internal/sinks/postgres.go\<close>, \<open>migrations\<close>): the
  list of migrations, and the one that moves the rows of a sink from partitions by source and time to
  partitions by time. The result of a migration is the list of statements that took effect, in order, and the
  error that stopped it. Statements of a transaction that is rolled back do not appear.

  The database is a parameter: the answers to the queries, and for each statement whether it fails.
\<close>

section \<open>Statements\<close>

datatype admin_script = AdminSchema | AdminFunctions | EnsurePartitionPostgres | EnsurePartitionTimescale

datatype mig_stmt =
    DropOldFunctions
  | Install admin_script
  | Reinstall
  | RenameTable string string
  | EnsurePartition string int int
  | MoveSubpartition string string string
  | DropTable string

record mig_env =
  me_exec :: "mig_stmt \<Rightarrow> goerr option"
  me_isTimescale :: "goerr + bool"
  me_tables :: "goerr + string list"
  me_isMigrated :: "string \<Rightarrow> goerr + bool"
  me_bounds :: "string \<Rightarrow> goerr + int \<times> int"
  me_subpartitions :: "string \<Rightarrow> goerr + (string \<times> string) list"

type_synonym mig_result = "mig_stmt list \<times> goerr option"

text \<open>Statements one after the other, up to the first that fails.\<close>

fun run_stmts :: "(mig_stmt \<Rightarrow> goerr option) \<Rightarrow> mig_stmt list \<Rightarrow> mig_result" where
  "run_stmts exec [] = ([], None)"
| "run_stmts exec (s # ss) =
     (case exec s of Some err \<Rightarrow> ([], Some err) | None \<Rightarrow> apfst (Cons s) (run_stmts exec ss))"

text \<open>Statements of one transaction.\<close>

definition run_tx :: "mig_result \<Rightarrow> mig_result" where
  "run_tx r = (case r of (_, Some err) \<Rightarrow> ([], Some err) | (ss, None) \<Rightarrow> (ss, None))"

section \<open>Time-only partitioning\<close>

definition v6_suffix :: string where "v6_suffix = ''_before_v6_migration''"

definition HasSuffix :: "string \<Rightarrow> string \<Rightarrow> bool" where
  "HasSuffix s p \<longleftrightarrow> length p \<le> length s \<and> drop (length s - length p) s = p"

text \<open>The transaction that renames a table and creates its successor.\<close>

definition rename_tx :: "mig_env \<Rightarrow> string \<Rightarrow> mig_result" where
  "rename_tx env name =
     run_tx (case me_exec env (RenameTable name (name @ v6_suffix)) of
        Some err \<Rightarrow> ([], Some err)
      | None \<Rightarrow>
          (case me_bounds env (name @ v6_suffix) of
             Inl err \<Rightarrow> ([RenameTable name (name @ v6_suffix)], Some err)
           | Inr (minTime, daysToPrecreate) \<Rightarrow>
               apfst (Cons (RenameTable name (name @ v6_suffix)))
                 (run_stmts (me_exec env) [EnsurePartition name minTime daysToPrecreate])))"

text \<open>One round of the loop over the tables.\<close>

definition migrate_table :: "mig_env \<Rightarrow> string \<Rightarrow> mig_result" where
  "migrate_table env name =
     (if HasSuffix name v6_suffix then ([], None)
      else case me_isMigrated env name of
             Inl err \<Rightarrow> ([], Some err)
           | Inr True \<Rightarrow> ([], None)
           | Inr False \<Rightarrow>
               (case rename_tx env name of
                  (ss, Some err) \<Rightarrow> (ss, Some err)
                | (ss, None) \<Rightarrow>
                    (case me_subpartitions env (name @ v6_suffix) of
                       Inl err \<Rightarrow> (ss, Some err)
                     | Inr parts \<Rightarrow>
                         apfst (append ss)
                           (run_stmts (me_exec env)
                              (map (\<lambda>(rel, parent). MoveSubpartition name rel parent) parts @ [DropTable (name @ v6_suffix)])))))"

fun migrate_tables :: "mig_env \<Rightarrow> string list \<Rightarrow> mig_result" where
  "migrate_tables env [] = ([], None)"
| "migrate_tables env (name # names) =
     (case migrate_table env name of
        (ss, Some err) \<Rightarrow> (ss, Some err)
      | (ss, None) \<Rightarrow> apfst (append ss) (migrate_tables env names))"

definition migration_01409 :: "mig_env \<Rightarrow> mig_result" where
  "migration_01409 env =
     (case me_exec env Reinstall of
        Some err \<Rightarrow> ([], Some err)
      | None \<Rightarrow>
          apfst (Cons Reinstall)
            (case me_isTimescale env of
               Inl err \<Rightarrow> ([], Some err)
             | Inr True \<Rightarrow> ([], None)
             | Inr False \<Rightarrow>
                 (case me_tables env of Inl err \<Rightarrow> ([], Some err) | Inr names \<Rightarrow> migrate_tables env names)))"

text \<open>All migrations, in order.\<close>

definition migrations :: "(string \<times> (mig_env \<Rightarrow> mig_result)) list" where
  "migrations =
     [(''01110 Apply postgres sink schema migrations'', \<lambda>env. ([], None)),
      (''01180 Apply admin functions migrations for v5'',
         \<lambda>env. run_tx (run_stmts (me_exec env) [DropOldFunctions, Install EnsurePartitionPostgres, Install AdminFunctions])),
      (''01409 Switch to time-only partitioning'', migration_01409),
      (''01474 Change drop_all_metric_tables to procedure'', \<lambda>env. run_tx (run_stmts (me_exec env) [Install AdminFunctions])),
      (''01529 Fix ensure_partition_metric_time partitioning strategy'',
         \<lambda>env. run_tx (run_stmts (me_exec env) [Install EnsurePartitionPostgres])),
      (''01614 Reinstall ensure_partition_timescale'',
         \<lambda>env. run_tx (run_stmts (me_exec env) [Install EnsurePartitionTimescale]))]"

definition registeredMigrationsCount :: nat where
  "registeredMigrationsCount = length migrations"

section \<open>Theorems\<close>

text \<open>What ran is a prefix of what was asked, the whole of it without an error.\<close>

lemma run_stmts_prefix:
  "fst (run_stmts exec ss) @ dropWhile (\<lambda>s. exec s = None) ss = ss"
  "snd (run_stmts exec ss) = None \<longleftrightarrow> dropWhile (\<lambda>s. exec s = None) ss = []"
  by (induction ss) (simp_all split: option.split)

text \<open>The tables a statement takes rows from or takes away.\<close>

fun touches :: "mig_stmt \<Rightarrow> string option" where
  "touches (RenameTable name _) = Some name"
| "touches (EnsurePartition name _ _) = Some name"
| "touches (MoveSubpartition name _ _) = Some name"
| "touches (DropTable name) = Some (take (length name - length v6_suffix) name)"
| "touches _ = None"

definition part_moves :: "mig_env \<Rightarrow> string \<Rightarrow> mig_stmt list" where
  "part_moves env name =
     (case me_subpartitions env (name @ v6_suffix) of
        Inl _ \<Rightarrow> []
      | Inr parts \<Rightarrow> map (\<lambda>(rel, parent). MoveSubpartition name rel parent) parts)"

lemma rename_tx_cases:
  "rename_tx env name = ([], snd (rename_tx env name)) \<and> snd (rename_tx env name) \<noteq> None \<or>
   (\<exists>t d. rename_tx env name = ([RenameTable name (name @ v6_suffix), EnsurePartition name t d], None))"
  by (auto simp: rename_tx_def run_tx_def split: option.splits sum.splits)

lemma migrate_table_shape:
  "fst (migrate_table env name) = [] \<or>
   \<not> HasSuffix name v6_suffix \<and> me_isMigrated env name = Inr False \<and>
   (\<exists>t d rest. [RenameTable name (name @ v6_suffix), EnsurePartition name t d] @ part_moves env name @
        [DropTable (name @ v6_suffix)] = fst (migrate_table env name) @ rest \<and>
      (snd (migrate_table env name) = None \<longrightarrow> rest = []))"
proof (cases "HasSuffix name v6_suffix \<or> me_isMigrated env name \<noteq> Inr False \<or> snd (rename_tx env name) \<noteq> None")
  case True
  then show ?thesis
    using rename_tx_cases [of env name]
    by (auto simp: migrate_table_def split: sum.splits bool.splits option.splits prod.splits)
next
  case False
  then obtain t d where tx: "rename_tx env name = ([RenameTable name (name @ v6_suffix), EnsurePartition name t d], None)"
    using rename_tx_cases [of env name] by auto
  let ?head = "[RenameTable name (name @ v6_suffix), EnsurePartition name t d]"
  have "\<exists>rest. ?head @ part_moves env name @ [DropTable (name @ v6_suffix)] = fst (migrate_table env name) @ rest \<and>
      (snd (migrate_table env name) = None \<longrightarrow> rest = [])"
  proof (cases "me_subpartitions env (name @ v6_suffix)")
    case (Inl err)
    then show ?thesis using False tx by (simp add: migrate_table_def part_moves_def)
  next
    case (Inr parts)
    let ?ss = "part_moves env name @ [DropTable (name @ v6_suffix)]"
    have "migrate_table env name = apfst (append ?head) (run_stmts (me_exec env) ?ss)"
      using False tx Inr by (simp add: migrate_table_def part_moves_def)
    then have "fst (migrate_table env name) = ?head @ fst (run_stmts (me_exec env) ?ss)"
        "snd (migrate_table env name) = snd (run_stmts (me_exec env) ?ss)"
      by simp_all
    then show ?thesis
      using run_stmts_prefix [of "me_exec env" ?ss]
      by (intro exI [of _ "dropWhile (\<lambda>s. me_exec env s = None) ?ss"]) (simp only: append_assoc simp_thms)
  qed
  moreover have "\<not> HasSuffix name v6_suffix" "me_isMigrated env name = Inr False" using False by auto
  ultimately show ?thesis by (intro disjI2 conjI exI [of _ t] exI [of _ d])
qed

text \<open>The tables the loop gets to.\<close>

fun reached :: "mig_env \<Rightarrow> string list \<Rightarrow> string list" where
  "reached env [] = []"
| "reached env (n # names) = n # (if snd (migrate_table env n) = None then reached env names else [])"

lemma migrate_tables_concat:
  "fst (migrate_tables env names) = concat (map (\<lambda>n. fst (migrate_table env n)) (reached env names))"
  "snd (migrate_tables env names) = None \<Longrightarrow>
     reached env names = names \<and> (\<forall>n\<in>set names. snd (migrate_table env n) = None)"
  by (induction names) (auto split: prod.splits option.splits)

lemma concat_split:
  "concat xss = xs @ a # ys \<Longrightarrow> \<exists>p zs q u v. xss = p @ zs # q \<and> zs = u @ a # v \<and> xs = concat p @ u"
proof (induction xss arbitrary: xs)
  case (Cons zs xss)
  then have "zs @ concat xss = xs @ a # ys" by simp
  then consider us where "zs = xs @ a # us" | us where "xs = zs @ us" "concat xss = us @ a # ys"
    by (auto simp: append_eq_append_conv2 Cons_eq_append_conv append_eq_Cons_conv)
  then show ?case
  proof cases
    case 1
    then show ?thesis by (metis append_Nil concat.simps(1))
  next
    case 2
    from Cons.IH [OF 2(2)] obtain p zs' q u v where "xss = p @ zs' # q" "zs' = u @ a # v" "us = concat p @ u" by blast
    with 2(1) show ?thesis by (intro exI [of _ "zs # p"]) simp
  qed
qed simp

lemma drop_is_last:
  assumes "A @ [DropTable r] = u @ DropTable t # w" "DropTable t \<notin> set A"
  shows "u = A \<and> t = r"
  using assms by (cases w rule: rev_cases) auto

lemma migrate_table_drop:
  assumes "fst (migrate_table env name) = u @ DropTable t # v"
  shows "t = name @ v6_suffix \<and> set (part_moves env name) \<subseteq> set u \<and> me_isMigrated env name = Inr False"
proof -
  from assms migrate_table_shape [of env name] obtain tm d rest where
      shape: "[RenameTable name (name @ v6_suffix), EnsurePartition name tm d] @ part_moves env name @
        [DropTable (name @ v6_suffix)] = (u @ DropTable t # v) @ rest" and m: "me_isMigrated env name = Inr False"
    by auto
  let ?A = "[RenameTable name (name @ v6_suffix), EnsurePartition name tm d] @ part_moves env name"
  have "DropTable t \<notin> set ?A" by (auto simp: part_moves_def split: sum.splits)
  with shape drop_is_last [of ?A "name @ v6_suffix" u t "v @ rest"]
  have "u = ?A" "t = name @ v6_suffix" by auto
  with m show ?thesis by auto
qed


definition sample_mig :: mig_env where
  "sample_mig = \<lparr>me_exec = (\<lambda>s. if s = MoveSubpartition ''wal'' ''p2'' ''wal_before_v6_migration'' then Some (ErrText ''disk full'') else None),
     me_isTimescale = Inr False, me_tables = Inr [''wal''], me_isMigrated = (\<lambda>_. Inr False),
     me_bounds = (\<lambda>_. Inr (0, 1)),
     me_subpartitions = (\<lambda>_. Inr [(''p1'', ''wal_before_v6_migration''), (''p2'', ''wal_before_v6_migration'')])\<rparr>"

definition clean_mig :: mig_env where
  "clean_mig = sample_mig\<lparr>me_exec := (\<lambda>_. None)\<rparr>"


lemma migrate_table_touches: "s \<in> set (fst (migrate_table env n)) \<Longrightarrow> touches s = Some n \<and> me_isMigrated env n = Inr False"
proof -
  assume s: "s \<in> set (fst (migrate_table env n))"
  then obtain tm d rest where shape: "[RenameTable n (n @ v6_suffix), EnsurePartition n tm d] @ part_moves env n @
      [DropTable (n @ v6_suffix)] = fst (migrate_table env n) @ rest" and m: "me_isMigrated env n = Inr False"
    using migrate_table_shape [of env n] by fastforce
  have "set (fst (migrate_table env n)) \<subseteq> set ([RenameTable n (n @ v6_suffix), EnsurePartition n tm d] @ part_moves env n @
      [DropTable (n @ v6_suffix)])"
    unfolding shape by simp
  with s m show ?thesis by (auto simp: part_moves_def split: sum.splits)
qed

text \<open>
  a run that stops while it moves the partitions of a table is not made up for. The successor of the
  table exists from then on, so the next run takes the table for migrated, touches none of its
  partitions and reports success; the rows that were not yet moved stay in the renamed table.
\<close>

theorem rerun_skips_table:
  assumes "me_isMigrated env name = Inr True"
  shows "(\<forall>s\<in>set (fst (migration_01409 env)). touches s \<noteq> Some name) \<and>
    (me_exec env Reinstall = None \<and> me_isTimescale env = Inr False \<and> me_tables env = Inr [name, name @ v6_suffix] \<longrightarrow>
       migration_01409 env = ([Reinstall], None))"
proof
  have suffix: "HasSuffix (name @ v6_suffix) v6_suffix" by (simp add: HasSuffix_def)
  show "me_exec env Reinstall = None \<and> me_isTimescale env = Inr False \<and> me_tables env = Inr [name, name @ v6_suffix] \<longrightarrow>
       migration_01409 env = ([Reinstall], None)"
    using assms suffix by (simp add: migration_01409_def migrate_table_def)
  show "\<forall>s\<in>set (fst (migration_01409 env)). touches s \<noteq> Some name"
  proof
    fix s assume s: "s \<in> set (fst (migration_01409 env))"
    show "touches s \<noteq> Some name"
    proof (cases "s = Reinstall")
      case False
      with s obtain names where "s \<in> set (fst (migrate_tables env names))"
        by (auto simp: migration_01409_def split: option.splits sum.splits bool.splits)
      then obtain n where "s \<in> set (fst (migrate_table env n))" unfolding migrate_tables_concat(1) by auto
      with migrate_table_touches [OF this] assms show ?thesis by auto
    qed simp
  qed
qed

theorem rerun_skips_table_witness:
  "fst (migration_01409 sample_mig) = [Reinstall, RenameTable ''wal'' (''wal'' @ v6_suffix), EnsurePartition ''wal'' 0 1,
     MoveSubpartition ''wal'' ''p1'' ''wal_before_v6_migration''] \<and>
   snd (migration_01409 sample_mig) = Some (ErrText ''disk full'') \<and>
   migration_01409 (clean_mig\<lparr>me_isMigrated := (\<lambda>n. Inr (n = ''wal'')), me_tables := Inr [''wal'', ''wal'' @ v6_suffix]\<rparr>) =
     ([Reinstall], None)"
proof (intro conjI)
  let ?env = "clean_mig\<lparr>me_isMigrated := (\<lambda>n. Inr (n = ''wal'')), me_tables := Inr [''wal'', ''wal'' @ v6_suffix]\<rparr>"
  have first: "migration_01409 sample_mig = ([Reinstall, RenameTable ''wal'' (''wal'' @ v6_suffix), EnsurePartition ''wal'' 0 1,
     MoveSubpartition ''wal'' ''p1'' ''wal_before_v6_migration''], Some (ErrText ''disk full''))"
    by (simp add: migration_01409_def sample_mig_def migrate_table_def rename_tx_def run_tx_def HasSuffix_def v6_suffix_def)
  then show "fst (migration_01409 sample_mig) = [Reinstall, RenameTable ''wal'' (''wal'' @ v6_suffix), EnsurePartition ''wal'' 0 1,
     MoveSubpartition ''wal'' ''p1'' ''wal_before_v6_migration'']" by simp
  from first show "snd (migration_01409 sample_mig) = Some (ErrText ''disk full'')" by simp
  show "migration_01409 ?env = ([Reinstall], None)"
    using rerun_skips_table [of ?env "''wal''"] by (simp add: clean_mig_def sample_mig_def)
qed

end
