(* ===== verification/Config_Store.thy ===== *)
theory Config_Store
  imports Metric_Types
begin

text \<open>
  What the configuration storages have in common. Sources, metrics and presets can be kept in a
  YAML file or in a database; all six storages promise the same operations. The contract is the locale
  \<open>kv_store\<close>, whose client lemma says that any sequence of operations does to the
  storage what it does to a finite map.
\<close>

section \<open>Operations on a map\<close>

datatype ('k, 'v) store_op = Put 'k 'v | Add 'k 'v | Remove 'k

fun map_op :: "('v \<Rightarrow> 'v) \<Rightarrow> ('k, 'v) store_op \<Rightarrow> ('k \<rightharpoonup> 'v) \<Rightarrow> ('k \<rightharpoonup> 'v)" where
  "map_op nrm (Put k v) m = m(k \<mapsto> nrm v)"
| "map_op nrm (Add k v) m = m(k \<mapsto> nrm v)"
| "map_op nrm (Remove k) m = m(k := None)"

text \<open>The same operations on a storage, given its operations.\<close>

fun store_step :: "('k \<Rightarrow> 'v \<Rightarrow> 's \<Rightarrow> 's \<times> goerr option) \<Rightarrow> ('k \<Rightarrow> 'v \<Rightarrow> 's \<Rightarrow> 's \<times> goerr option)
    \<Rightarrow> ('k \<Rightarrow> 's \<Rightarrow> 's \<times> goerr option) \<Rightarrow> ('k, 'v) store_op \<Rightarrow> 's \<Rightarrow> 's \<times> goerr option" where
  "store_step put add remove (Put k v) s = put k v s"
| "store_step put add remove (Add k v) s = add k v s"
| "store_step put add remove (Remove k) s = remove k s"

fun store_op_ok :: "('k \<Rightarrow> 'v \<Rightarrow> bool) \<Rightarrow> ('k, 'v) store_op \<Rightarrow> bool" where
  "store_op_ok ok (Put k v) = ok k v"
| "store_op_ok ok (Add k v) = ok k v"
| "store_op_ok ok (Remove k) = True"

text \<open>A run that goes on after an error, with the operations that went through.\<close>

fun store_run :: "('k \<Rightarrow> 'v \<Rightarrow> 's \<Rightarrow> 's \<times> goerr option) \<Rightarrow> ('k \<Rightarrow> 'v \<Rightarrow> 's \<Rightarrow> 's \<times> goerr option)
    \<Rightarrow> ('k \<Rightarrow> 's \<Rightarrow> 's \<times> goerr option) \<Rightarrow> ('k, 'v) store_op list \<Rightarrow> 's \<Rightarrow> 's \<times> ('k, 'v) store_op list" where
  "store_run put add remove [] s = (s, [])"
| "store_run put add remove (opn # ops) s =
     (case store_step put add remove opn s of
        (s', None) \<Rightarrow> apsnd (Cons opn) (store_run put add remove ops s')
      | (s', Some _) \<Rightarrow> store_run put add remove ops s')"

section \<open>The contract\<close>

text \<open>
  \<open>get\<close> is what a reader sees, \<open>None\<close> if the storage cannot be read. Values may come back
  normalised (\<open>nrm\<close>): a \<open>nil\<close> map can return as an empty one. \<open>ok\<close> restricts what is written, and \<open>inv\<close> is the
  invariant of the storage.
\<close>

locale kv_store =
  fixes get :: "'s \<Rightarrow> ('k \<rightharpoonup> 'v) option"
    and put :: "'k \<Rightarrow> 'v \<Rightarrow> 's \<Rightarrow> 's \<times> goerr option"
    and add :: "'k \<Rightarrow> 'v \<Rightarrow> 's \<Rightarrow> 's \<times> goerr option"
    and remove :: "'k \<Rightarrow> 's \<Rightarrow> 's \<times> goerr option"
    and inv :: "'s \<Rightarrow> bool"
    and ok :: "'k \<Rightarrow> 'v \<Rightarrow> bool"
    and nrm :: "'v \<Rightarrow> 'v"
  assumes put_ok: "\<lbrakk>inv s; ok k v; put k v s = (s', None)\<rbrakk> \<Longrightarrow>
      inv s' \<and> (\<exists>m. get s = Some m \<and> get s' = Some (m(k \<mapsto> nrm v)))"
    and put_err: "put k v s = (s', Some e) \<Longrightarrow> s' = s"
    and add_ok: "\<lbrakk>inv s; ok k v; add k v s = (s', None)\<rbrakk> \<Longrightarrow>
      inv s' \<and> (\<exists>m. get s = Some m \<and> m k = None \<and> get s' = Some (m(k \<mapsto> nrm v)))"
    and add_taken: "\<lbrakk>inv s; ok k v; get s = Some m; m k \<noteq> None\<rbrakk> \<Longrightarrow> \<exists>e. add k v s = (s, Some e)"
    and add_err: "add k v s = (s', Some e) \<Longrightarrow> s' = s"
    and remove_ok: "\<lbrakk>inv s; remove k s = (s', None)\<rbrakk> \<Longrightarrow>
      inv s' \<and> (\<exists>m. get s = Some m \<and> get s' = Some (m(k := None)))"
    and remove_err: "remove k s = (s', Some e) \<Longrightarrow> s' = s"
begin

abbreviation step :: "('k, 'v) store_op \<Rightarrow> 's \<Rightarrow> 's \<times> goerr option" where
  "step \<equiv> store_step put add remove"

abbreviation op_ok :: "('k, 'v) store_op \<Rightarrow> bool" where
  "op_ok \<equiv> store_op_ok ok"

lemma step_ok:
  assumes "inv s" "op_ok opn" "step opn s = (s', None)"
  shows "inv s' \<and> (\<exists>m. get s = Some m \<and> get s' = Some (map_op nrm opn m))"
proof (cases opn)
  case (Put k v)
  with assms put_ok [of s k v s'] show ?thesis by simp
next
  case (Add k v)
  with assms add_ok [of s k v s'] show ?thesis by auto
next
  case (Remove k)
  with assms remove_ok [of s k s'] show ?thesis by simp
qed

lemma step_err: "step opn s = (s', Some e) \<Longrightarrow> s' = s"
  using put_err add_err remove_err by (cases opn) simp_all

text \<open>An operation that fails changes nothing, and the ones that succeed act like operations on a map.\<close>

lemma run_refines:
  assumes "inv s" "get s = Some m" "list_all op_ok ops" "store_run put add remove ops s = (s', dn)"
  shows "inv s' \<and> get s' = Some (fold (map_op nrm) dn m)"
  using assms
proof (induction ops arbitrary: s m dn)
  case (Cons opn ops)
  obtain s1 e where st: "step opn s = (s1, e)" by fastforce
  show ?case
  proof (cases e)
    case None
    from step_ok [OF Cons.prems(1) _ st [unfolded None]] Cons.prems(2,3)
    have s1: "inv s1" "get s1 = Some (map_op nrm opn m)" by auto
    from Cons.prems(4) st None obtain d where d: "store_run put add remove ops s1 = (s', d)" "dn = opn # d" by (cases "store_run put add remove ops s1") auto
    with Cons.IH [OF s1 _ d(1)] Cons.prems(3) show ?thesis by simp
  next
    case (Some x)
    then have "s1 = s" using step_err st by blast
    with Cons.IH [OF Cons.prems(1,2) _] Cons.prems(3,4) st Some show ?thesis by simp
  qed
qed simp

end

section \<open>Files\<close>

text \<open>
  What a path of a YAML storage refers to. The content of a file is what reading and parsing it yields, an error
  or a value. A directory lists its entries.
\<close>

datatype 'a node = Absent | RegularFile "goerr + 'a" | Directory "(string \<times> (goerr + 'a)) list"

text \<open>\<open>strings.ToLower(filepath.Ext(name))\<close>: from the last dot on.\<close>

definition go_Ext :: "string \<Rightarrow> string" where
  "go_Ext name =
     (let tail = takeWhile (\<lambda>c. c \<noteq> CHR ''.'') (rev name)
      in if length tail = length name then [] else CHR ''.'' # rev tail)"

definition is_yaml :: "string \<Rightarrow> bool" where
  "is_yaml name \<longleftrightarrow> (let ext = ToLower (go_Ext name) in ext = ''.yaml'' \<or> ext = ''.yml'')"

text \<open>\<open>os.WriteFile\<close>, given its outcome on a path that is not a directory.\<close>

definition WriteFile :: "goerr option \<Rightarrow> 'a \<Rightarrow> 'a node \<Rightarrow> 'a node \<times> goerr option" where
  "WriteFile werr x node =
     (case node of
        Directory _ \<Rightarrow> (node, Some (ErrText ''is a directory''))
      | _ \<Rightarrow> (case werr of Some err \<Rightarrow> (node, Some err) | None \<Rightarrow> (RegularFile (Inr x), None)))"

lemma WriteFile_None: "WriteFile werr x node = (node', None) \<Longrightarrow> node' = RegularFile (Inr x)"
  by (auto simp: WriteFile_def split: node.splits option.splits)

lemma WriteFile_Some: "WriteFile werr x node = (node', Some e) \<Longrightarrow> node' = node"
  by (auto simp: WriteFile_def split: node.splits option.splits)

end
