(* ===== verification/Source_Store.thy ===== *)
theory Source_Store
  imports Config_Store Source_Types
begin

text \<open>
  The storages for sources: a YAML file or directory (\<open>internal/sources/yaml.go\<close>) and the table
  \<open>pgwatch.source\<close> (\<open>internal/sources/postgres.go\<close>). Both fulfil the contract \<open>kv_store\<close>.

  The libraries are modelled by what they are documented to do. A source that was written as YAML, or
  as JSON to a column, reads back as the same source, with an empty map for a \<open>nil\<close> map (\<open>filled\<close>). The
  table is a map from names to rows, since \<open>name\<close> is its key; a statement either takes effect or fails with the
  error that is the argument of the operation.
\<close>

section \<open>Environment variables\<close>

text \<open>\<open>os.ExpandEnv\<close> of the standard library.\<close>

definition isShellSpecialVar :: "char \<Rightarrow> bool" where
  "isShellSpecialVar c \<longleftrightarrow> c \<in> set ''*#$@!?-0123456789''"

definition isAlphaNum :: "char \<Rightarrow> bool" where
  "isAlphaNum c \<longleftrightarrow> c \<in> set ''_0123456789abcdefghijklmnopqrstuvwxyzABCDEFGHIJKLMNOPQRSTUVWXYZ''"

definition getShellName :: "string \<Rightarrow> string \<times> nat" where
  "getShellName s =
     (if hd s = CHR ''{''
      then (if length s > 2 \<and> isShellSpecialVar (s ! 1) \<and> s ! 2 = CHR ''}'' then ([s ! 1], 3)
            else (let name = takeWhile (\<lambda>c. c \<noteq> CHR ''}'') (tl s)
                  in if length name = length (tl s) then ([], 1)
                     else if name = [] then ([], 2) else (name, length name + 2)))
      else if isShellSpecialVar (hd s) then ([hd s], 1)
      else (let name = takeWhile isAlphaNum s in (name, length name)))"

function ExpandEnv :: "(string \<Rightarrow> string) \<Rightarrow> string \<Rightarrow> string" where
  "ExpandEnv getenv [] = []"
| "ExpandEnv getenv (c # rest) =
     (if c = CHR ''$'' \<and> rest \<noteq> []
      then (let (name, w) = getShellName rest
            in (if name = [] then (if w > 0 then [] else [c]) else getenv name) @ ExpandEnv getenv (drop w rest))
      else c # ExpandEnv getenv rest)"
  by pat_completeness auto
termination by (relation "measure (length \<circ> snd)") auto

definition expand_field :: "(string \<Rightarrow> string) \<Rightarrow> string \<Rightarrow> string" where
  "expand_field getenv s = (if HasPrefix s ''$'' then ExpandEnv getenv s else s)"

definition expandEnvVars :: "(string \<Rightarrow> string) \<Rightarrow> source \<Rightarrow> source" where
  "expandEnvVars getenv md = md\<lparr>ConnStr := expand_field getenv (ConnStr md), Group := expand_field getenv (Group md),
     Kind := expand_field getenv (Kind md), Name := expand_field getenv (Name md),
     IncludePattern := expand_field getenv (IncludePattern md), ExcludePattern := expand_field getenv (ExcludePattern md),
     PresetMetrics := expand_field getenv (PresetMetrics md),
     PresetMetricsStandby := expand_field getenv (PresetMetricsStandby md)\<rparr>"

section \<open>The YAML storage\<close>

type_synonym sources_node = "source list node"

definition filled :: "source \<Rightarrow> source" where
  "filled md = md\<lparr>Metrics := Some (oentries (Metrics md)), MetricsStandby := Some (oentries (MetricsStandby md)),
     sCustomTags := Some (oentries (sCustomTags md))\<rparr>"

definition loadSourcesFromFile :: "(string \<Rightarrow> string) \<Rightarrow> goerr + source list \<Rightarrow> goerr + source list" where
  "loadSourcesFromFile getenv content =
     (case content of Inl err \<Rightarrow> Inl err | Inr c \<Rightarrow> Inr (map (expandEnvVars getenv) c))"

fun load_entries :: "(string \<Rightarrow> string) \<Rightarrow> (string \<times> (goerr + source list)) list \<Rightarrow> source list \<Rightarrow> goerr + source list" where
  "load_entries getenv [] dbs = Inr dbs"
| "load_entries getenv ((name, content) # es) dbs =
     (if \<not> is_yaml name then load_entries getenv es dbs
      else case loadSourcesFromFile getenv content of
             Inl err \<Rightarrow> Inl err
           | Inr mdbs \<Rightarrow> load_entries getenv es (dbs @ mdbs))"

definition yaml_GetSources :: "(string \<Rightarrow> string) \<Rightarrow> sources_node \<Rightarrow> goerr + source list" where
  "yaml_GetSources getenv node =
     (case (case node of
              Absent \<Rightarrow> Inl (ErrText ''no such file or directory'')
            | Directory es \<Rightarrow> load_entries getenv es []
            | RegularFile content \<Rightarrow> loadSourcesFromFile getenv content) of
        Inl err \<Rightarrow> Inl err
      | Inr dbs \<Rightarrow> Validate dbs)"

text \<open>\<open>werr\<close> is the outcome of writing the file.\<close>

definition yaml_WriteSources :: "goerr option \<Rightarrow> source list \<Rightarrow> sources_node \<Rightarrow> sources_node \<times> goerr option" where
  "yaml_WriteSources werr mds node = WriteFile werr (map filled mds) node"

fun replace_source :: "source \<Rightarrow> source list \<Rightarrow> source list" where
  "replace_source md [] = [md]"
| "replace_source md (db # dbs) = (if Name db = Name md then md # dbs else db # replace_source md dbs)"

definition yaml_UpdateSource ::
  "(string \<Rightarrow> string) \<Rightarrow> goerr option \<Rightarrow> source \<Rightarrow> sources_node \<Rightarrow> sources_node \<times> goerr option" where
  "yaml_UpdateSource getenv werr md node =
     (case yaml_GetSources getenv node of
        Inl err \<Rightarrow> (node, Some err)
      | Inr dbs \<Rightarrow> yaml_WriteSources werr (replace_source md dbs) node)"

definition yaml_CreateSource ::
  "(string \<Rightarrow> string) \<Rightarrow> goerr option \<Rightarrow> source \<Rightarrow> sources_node \<Rightarrow> sources_node \<times> goerr option" where
  "yaml_CreateSource getenv werr md node =
     (case yaml_GetSources getenv node of
        Inl err \<Rightarrow> (node, Some err)
      | Inr dbs \<Rightarrow>
          (if list_ex (\<lambda>db. Name db = Name md) dbs then (node, Some (Sentinel ErrSourceExists))
           else yaml_WriteSources werr (dbs @ [md]) node))"

definition yaml_DeleteSource ::
  "(string \<Rightarrow> string) \<Rightarrow> goerr option \<Rightarrow> string \<Rightarrow> sources_node \<Rightarrow> sources_node \<times> goerr option" where
  "yaml_DeleteSource getenv werr name node =
     (case yaml_GetSources getenv node of
        Inl err \<Rightarrow> (node, Some err)
      | Inr dbs \<Rightarrow> yaml_WriteSources werr (filter (\<lambda>md. Name md \<noteq> name) dbs) node)"

section \<open>The table\<close>

text \<open>A row of \<open>pgwatch.source\<close> without its key; \<open>None\<close> is \<open>NULL\<close>.\<close>

record source_row =
  r_group :: string
  r_dbtype :: string
  r_connstr :: string
  r_config :: "(string, int) gomap option"
  r_config_standby :: "(string, int) gomap option"
  r_preset_config :: "string option"
  r_preset_config_standby :: "string option"
  r_include_pattern :: string
  r_exclude_pattern :: string
  r_custom_tags :: "(string, string) gomap option"
  r_only_if_master :: bool
  r_is_enabled :: bool

type_synonym source_table = "(string, source_row) gomap"

text \<open>\<open>db.MarshallParamToJSONB\<close> on a map, and \<open>NULLIF(x, '')\<close>.\<close>

definition MarshallParamToJSONB :: "('k, 'v) gomap option \<Rightarrow> ('k, 'v) gomap option" where
  "MarshallParamToJSONB v = (if olen v = 0 then None else v)"

definition nullif_empty :: "string \<Rightarrow> string option" where
  "nullif_empty s = (if s = [] then None else Some s)"

definition coalesce :: "'a option \<Rightarrow> 'a \<Rightarrow> 'a" where
  "coalesce x d = (case x of None \<Rightarrow> d | Some v \<Rightarrow> v)"

definition source_to_row :: "source \<Rightarrow> source_row" where
  "source_to_row md = \<lparr>r_group = Group md, r_dbtype = Kind md, r_connstr = ConnStr md,
     r_config = MarshallParamToJSONB (Metrics md), r_config_standby = MarshallParamToJSONB (MetricsStandby md),
     r_preset_config = nullif_empty (PresetMetrics md), r_preset_config_standby = nullif_empty (PresetMetricsStandby md),
     r_include_pattern = IncludePattern md, r_exclude_pattern = ExcludePattern md,
     r_custom_tags = MarshallParamToJSONB (sCustomTags md), r_only_if_master = OnlyIfMaster md, r_is_enabled = IsEnabled md\<rparr>"

definition row_to_source :: "string \<Rightarrow> source_row \<Rightarrow> source" where
  "row_to_source name r = \<lparr>Name = name, Group = r_group r, ConnStr = r_connstr r, Metrics = Some (coalesce (r_config r) []),
     MetricsStandby = Some (coalesce (r_config_standby r) []), Kind = r_dbtype r, IncludePattern = r_include_pattern r,
     ExcludePattern = r_exclude_pattern r, PresetMetrics = coalesce (r_preset_config r) [],
     PresetMetricsStandby = coalesce (r_preset_config_standby r) [], IsEnabled = r_is_enabled r,
     sCustomTags = Some (coalesce (r_custom_tags r) []), OnlyIfMaster = r_only_if_master r\<rparr>"

definition pg_GetSources :: "goerr option \<Rightarrow> source_table \<Rightarrow> goerr + source list" where
  "pg_GetSources fail tab =
     (case fail of Some err \<Rightarrow> Inl err | None \<Rightarrow> Inr (map (\<lambda>(name, r). row_to_source name r) tab))"

definition pg_UpdateSource :: "goerr option \<Rightarrow> source \<Rightarrow> source_table \<Rightarrow> source_table \<times> goerr option" where
  "pg_UpdateSource fail md tab =
     (case fail of Some err \<Rightarrow> (tab, Some err) | None \<Rightarrow> (gset (Name md) (source_to_row md) tab, None))"

text \<open>A violation of the key is reported as \<open>ErrSourceExists\<close>.\<close>

definition pg_CreateSource :: "goerr option \<Rightarrow> source \<Rightarrow> source_table \<Rightarrow> source_table \<times> goerr option" where
  "pg_CreateSource fail md tab =
     (case fail of
        Some err \<Rightarrow> (tab, Some err)
      | None \<Rightarrow> (if ghas tab (Name md) then (tab, Some (Sentinel ErrSourceExists))
                 else (gset (Name md) (source_to_row md) tab, None)))"

definition pg_DeleteSource :: "goerr option \<Rightarrow> string \<Rightarrow> source_table \<Rightarrow> source_table \<times> goerr option" where
  "pg_DeleteSource fail name tab = (case fail of Some err \<Rightarrow> (tab, Some err) | None \<Rightarrow> (gdel name tab, None))"

text \<open>
  \<open>WriteSources\<close> truncates and fills the table in one transaction; \<open>fail i\<close> is the outcome of its
  \<open>i\<close>-th statement, and of the commit after the last.
\<close>

fun write_rows :: "(nat \<Rightarrow> goerr option) \<Rightarrow> nat \<Rightarrow> source list \<Rightarrow> source_table \<Rightarrow> goerr + source_table" where
  "write_rows fail i [] tab = (case fail i of Some err \<Rightarrow> Inl err | None \<Rightarrow> Inr tab)"
| "write_rows fail i (md # dbs) tab =
     (case pg_UpdateSource (fail i) md tab of
        (_, Some err) \<Rightarrow> Inl err
      | (tab, None) \<Rightarrow> write_rows fail (Suc i) dbs tab)"

definition pg_WriteSources :: "(nat \<Rightarrow> goerr option) \<Rightarrow> source list \<Rightarrow> source_table \<Rightarrow> source_table \<times> goerr option" where
  "pg_WriteSources fail dbs tab =
     (case fail 0 of
        Some err \<Rightarrow> (tab, Some err)
      | None \<Rightarrow> (case fail 1 of
                   Some err \<Rightarrow> (tab, Some err)
                 | None \<Rightarrow> (case write_rows fail 2 dbs [] of Inl err \<Rightarrow> (tab, Some err) | Inr tab' \<Rightarrow> (tab', None))))"

section \<open>What a reader sees\<close>

definition by_name :: "source list \<Rightarrow> (string \<rightharpoonup> source)" where
  "by_name xs = map_of (map (\<lambda>md. (Name md, filled md)) xs)"

definition yaml_view :: "(string \<Rightarrow> string) \<Rightarrow> sources_node \<Rightarrow> (string \<rightharpoonup> source) option" where
  "yaml_view getenv node = (case yaml_GetSources getenv node of Inl _ \<Rightarrow> None | Inr xs \<Rightarrow> Some (by_name xs))"

definition pg_view :: "source_table \<Rightarrow> (string \<rightharpoonup> source) option" where
  "pg_view tab = (case pg_GetSources None tab of Inl _ \<Rightarrow> None | Inr xs \<Rightarrow> Some (by_name xs))"

text \<open>
  The values of environment variables are not references themselves: expanding again changes nothing.
\<close>

definition yaml_inv :: "(string \<Rightarrow> string) \<Rightarrow> sources_node \<Rightarrow> bool" where
  "yaml_inv getenv node \<longleftrightarrow>
     (case yaml_GetSources getenv node of Inl _ \<Rightarrow> True | Inr xs \<Rightarrow> list_all (\<lambda>md. expandEnvVars getenv md = md) xs)"

definition yaml_ok :: "(string \<Rightarrow> string) \<Rightarrow> string \<Rightarrow> source \<Rightarrow> bool" where
  "yaml_ok getenv k md \<longleftrightarrow> k = Name md \<and> expandEnvVars getenv md = md"

section \<open>Both fulfil the contract\<close>

lemma filled_simps [simp]: "Name (filled md) = Name md" "filled (filled md) = filled md"
  by (simp_all add: filled_def oentries_def)

lemma expand_filled: "expandEnvVars getenv (filled md) = filled (expandEnvVars getenv md)"
  by (simp add: expandEnvVars_def filled_def)

lemma by_name_filled: "by_name (map filled xs) = by_name xs"
  by (simp add: by_name_def comp_def)

lemma by_name_append: "by_name (xs @ [md]) = (if Name md \<in> Name ` set xs then by_name xs else (by_name xs)(Name md \<mapsto> filled md))"
  by (induction xs) (auto simp: by_name_def)

lemma by_name_filter: "by_name (filter (\<lambda>md. Name md \<noteq> n) xs) = (by_name xs)(n := None)"
  by (induction xs) (auto simp: by_name_def)

lemma by_name_replace: "by_name (replace_source md xs) = (by_name xs)(Name md \<mapsto> filled md)"
  by (induction xs) (auto simp: by_name_def)

lemma by_name_None: "by_name xs k = None \<longleftrightarrow> k \<notin> Name ` set xs"
  by (induction xs) (auto simp: by_name_def)

lemma replace_set: "set (replace_source md xs) \<subseteq> insert md (set xs)"
  by (induction xs) auto

lemma replace_names: "distinct (map Name xs) \<Longrightarrow> distinct (map Name (replace_source md xs))"
proof (induction xs)
  case (Cons x xs)
  have "Name ` set (replace_source md xs) \<subseteq> insert (Name md) (Name ` set xs)" using replace_set [of md xs] by auto
  with Cons show ?case by auto
qed simp

lemma yaml_GetSources_distinct: "yaml_GetSources getenv node = Inr xs \<Longrightarrow> distinct (map Name xs)"
  using validate_loop_Inr [of "[]"] by (auto simp: yaml_GetSources_def Validate_def split: sum.splits)

lemma yaml_read_back:
  assumes "yaml_WriteSources werr ys node = (node', None)" "distinct (map Name ys)" "\<forall>md\<in>set ys. expandEnvVars getenv md = md"
  shows "yaml_GetSources getenv node' = Inr (map filled ys)" "yaml_inv getenv node'" "yaml_view getenv node' = Some (by_name ys)"
proof -
  have node': "node' = RegularFile (Inr (map filled ys))" using assms(1) by (auto simp: yaml_WriteSources_def dest: WriteFile_None)
  have "map (expandEnvVars getenv) (map filled ys) = map filled ys" using assms(3) by (simp add: expand_filled)
  then have "yaml_GetSources getenv node' = Validate (map filled ys)"
    by (simp only: node' yaml_GetSources_def loadSourcesFromFile_def node.case sum.case)
  moreover have "distinct (map Name (map filled ys))" using assms(2) by (simp add: comp_def)
  then have "Validate (map filled ys) = Inr (map filled ys)"
    using validate_loop_Inr [of "[]" "map filled ys"] by (auto simp: Validate_def split: sum.splits)
  ultimately show get: "yaml_GetSources getenv node' = Inr (map filled ys)" by simp
  from get assms(3) show "yaml_inv getenv node'" by (simp add: yaml_inv_def list_all_iff expand_filled)
  from get show "yaml_view getenv node' = Some (by_name ys)" by (simp add: yaml_view_def by_name_filled)
qed

lemma yaml_write_err: "yaml_WriteSources werr ys node = (node', Some e) \<Longrightarrow> node' = node"
  by (auto simp: yaml_WriteSources_def dest: WriteFile_Some)

lemma yaml_inv_list: "yaml_inv getenv node \<Longrightarrow> yaml_GetSources getenv node = Inr xs \<Longrightarrow> \<forall>md\<in>set xs. expandEnvVars getenv md = md"
  by (simp add: yaml_inv_def list_all_iff)

interpretation yaml_sources: kv_store "yaml_view getenv" "\<lambda>_. yaml_UpdateSource getenv werr"
  "\<lambda>_. yaml_CreateSource getenv werr" "yaml_DeleteSource getenv werr" "yaml_inv getenv" "yaml_ok getenv" filled
  for getenv werr
proof
  fix s s' k md
  assume inv: "yaml_inv getenv s" and ok: "yaml_ok getenv k md" and up: "yaml_UpdateSource getenv werr md s = (s', None)"
  from up obtain xs where xs: "yaml_GetSources getenv s = Inr xs" "yaml_WriteSources werr (replace_source md xs) s = (s', None)"
    by (auto simp: yaml_UpdateSource_def split: sum.splits)
  have stable: "\<forall>x\<in>set (replace_source md xs). expandEnvVars getenv x = x"
    using yaml_inv_list [OF inv xs(1)] ok replace_set [of md xs] by (auto simp: yaml_ok_def)
  note bk = yaml_read_back [OF xs(2) replace_names [OF yaml_GetSources_distinct [OF xs(1)]] stable]
  show "yaml_inv getenv s' \<and> (\<exists>m. yaml_view getenv s = Some m \<and> yaml_view getenv s' = Some (m(k \<mapsto> filled md)))"
    using bk(2,3) ok xs(1) by (simp add: yaml_view_def by_name_replace yaml_ok_def)
next
  fix s s' k md
  assume inv: "yaml_inv getenv s" and ok: "yaml_ok getenv k md" and up: "yaml_CreateSource getenv werr md s = (s', None)"
  from up obtain xs where xs: "yaml_GetSources getenv s = Inr xs" "\<not> (\<exists>db\<in>set xs. Name db = Name md)"
      "yaml_WriteSources werr (xs @ [md]) s = (s', None)"
    by (cases "yaml_GetSources getenv s") (auto simp: yaml_CreateSource_def list_ex_iff split: if_splits)
  have new: "Name md \<notin> Name ` set xs" using xs(2) by (metis imageE)
  have "distinct (map Name (xs @ [md]))" using yaml_GetSources_distinct [OF xs(1)] new by simp
  moreover have "\<forall>x\<in>set (xs @ [md]). expandEnvVars getenv x = x"
    using yaml_inv_list [OF inv xs(1)] ok by (auto simp: yaml_ok_def)
  ultimately have bk: "yaml_inv getenv s'" "yaml_view getenv s' = Some (by_name (xs @ [md]))"
    using yaml_read_back [OF xs(3)] by blast+
  show "yaml_inv getenv s' \<and>
      (\<exists>m. yaml_view getenv s = Some m \<and> m k = None \<and> yaml_view getenv s' = Some (m(k \<mapsto> filled md)))"
    using bk ok xs(1) new by (simp add: yaml_view_def by_name_append yaml_ok_def by_name_None)
next
  fix s s' k
  assume inv: "yaml_inv getenv s" and up: "yaml_DeleteSource getenv werr k s = (s', None)"
  from up obtain xs where xs: "yaml_GetSources getenv s = Inr xs"
      "yaml_WriteSources werr (filter (\<lambda>md. Name md \<noteq> k) xs) s = (s', None)"
    by (auto simp: yaml_DeleteSource_def split: sum.splits)
  have "distinct (map Name (filter (\<lambda>md. Name md \<noteq> k) xs))"
    using yaml_GetSources_distinct [OF xs(1)] by (rule distinct_map_filter)
  moreover have "\<forall>x\<in>set (filter (\<lambda>md. Name md \<noteq> k) xs). expandEnvVars getenv x = x"
    using yaml_inv_list [OF inv xs(1)] by auto
  ultimately have bk: "yaml_inv getenv s'" "yaml_view getenv s' = Some (by_name (filter (\<lambda>md. Name md \<noteq> k) xs))"
    using yaml_read_back [OF xs(2)] by blast+
  show "yaml_inv getenv s' \<and> (\<exists>m. yaml_view getenv s = Some m \<and> yaml_view getenv s' = Some (m(k := None)))"
    using bk xs(1) by (simp add: yaml_view_def by_name_filter)
next
  fix s k md m
  assume "yaml_ok getenv k md" "yaml_view getenv s = Some m" "m k \<noteq> None"
  then obtain xs where xs: "yaml_GetSources getenv s = Inr xs" "by_name xs (Name md) \<noteq> None"
    by (auto simp: yaml_view_def yaml_ok_def split: sum.splits)
  then have "list_ex (\<lambda>db. Name db = Name md) xs" by (auto simp: by_name_None list_ex_iff)
  with xs(1) show "\<exists>e. yaml_CreateSource getenv werr md s = (s, Some e)" by (simp add: yaml_CreateSource_def)
qed (auto simp: yaml_UpdateSource_def yaml_CreateSource_def yaml_DeleteSource_def dest: yaml_write_err split: sum.splits if_splits)

lemma coalesce_Marshall: "coalesce (MarshallParamToJSONB v) [] = oentries v"
  by (cases v) (auto simp: coalesce_def MarshallParamToJSONB_def olen_def oentries_def)

lemma coalesce_nullif: "coalesce (nullif_empty s) [] = s"
  by (simp add: coalesce_def nullif_empty_def)

lemma source_row_roundtrip: "row_to_source (Name md) (source_to_row md) = filled md"
  by (simp add: row_to_source_def source_to_row_def filled_def coalesce_Marshall coalesce_nullif)

lemma filled_row: "filled (row_to_source n r) = row_to_source n r"
  by (simp add: filled_def row_to_source_def oentries_def)

lemma Name_row [simp]: "Name (row_to_source n r) = n"
  by (simp add: row_to_source_def)

lemma pg_view_eq: "pg_view tab = Some (\<lambda>n. map_option (row_to_source n) (gget tab n))"
proof -
  have "by_name (map (\<lambda>(n, r). row_to_source n r) tab) = (\<lambda>n. map_option (row_to_source n) (gget tab n))"
    by (induction tab) (auto simp: by_name_def filled_row)
  then show ?thesis by (simp add: pg_view_def pg_GetSources_def)
qed

interpretation pg_sources: kv_store pg_view "\<lambda>_. pg_UpdateSource fail" "\<lambda>_. pg_CreateSource fail" "pg_DeleteSource fail"
  "\<lambda>_. True" "\<lambda>k md. k = Name md" filled
  for fail
  by unfold_locales
     (auto simp: pg_UpdateSource_def pg_CreateSource_def pg_DeleteSource_def pg_view_eq gomap_simps source_row_roundtrip
       split: option.splits if_splits)

section \<open>Theorems\<close>


definition sample_source :: "string \<Rightarrow> string \<Rightarrow> source" where
  "sample_source name connstr = \<lparr>Name = name, Group = ''default'', ConnStr = connstr, Metrics = None, MetricsStandby = None,
     Kind = ''postgres'', IncludePattern = [], ExcludePattern = [], PresetMetrics = ''basic'', PresetMetricsStandby = [],
     IsEnabled = True, sCustomTags = None, OnlyIfMaster = False\<rparr>"

lemmas sample_expand = expandEnvVars_def expand_field_def HasPrefix_def sample_source_def


text \<open>
  writing one source to a YAML storage replaces references to environment variables in all others by
  their values: what is written for each other source is its expanded form, so the
  reference, and with it the secret it kept out of the file, is gone.
\<close>

theorem yaml_update_expands:
  assumes "yaml_UpdateSource getenv werr md (RegularFile (Inr xs)) = (node, None)"
    and "x \<in> set xs" "Name (expandEnvVars getenv x) \<noteq> Name md"
  shows "\<exists>ys. node = RegularFile (Inr ys) \<and> filled (expandEnvVars getenv x) \<in> set ys"
proof -
  from assms(1) have node: "node = RegularFile (Inr (map filled (replace_source md (map (expandEnvVars getenv) xs))))"
    by (auto simp: yaml_UpdateSource_def yaml_GetSources_def loadSourcesFromFile_def Validate_def yaml_WriteSources_def
        split: sum.splits dest!: WriteFile_None)
  have "y \<in> set (replace_source md ys)" if "y \<in> set ys" "Name y \<noteq> Name md" for y ys
    using that by (induction ys) auto
  then show ?thesis using node assms(2,3) by auto
qed

theorem yaml_update_expands_witness:
  "let getenv = (\<lambda>n. if n = ''DSN'' then ''postgresql://u:secret@h'' else []);
       x = sample_source ''a'' ''$DSN'';
       (node, err) = yaml_UpdateSource getenv None (sample_source ''b'' ''postgresql://b'') (RegularFile (Inr [x]))
   in err = None \<and> (\<exists>ys. node = RegularFile (Inr ys) \<and> filled (x\<lparr>ConnStr := ''postgresql://u:secret@h''\<rparr>) \<in> set ys)"
proof -
  let ?getenv = "\<lambda>n. if n = ''DSN'' then ''postgresql://u:secret@h'' else []"
  let ?x = "sample_source ''a'' ''$DSN''" and ?b = "sample_source ''b'' ''postgresql://b''"
  have ex: "expandEnvVars ?getenv ?x = ?x\<lparr>ConnStr := ''postgresql://u:secret@h''\<rparr>"
    by (simp add: sample_expand getShellName_def isShellSpecialVar_def isAlphaNum_def)
  obtain node err where up: "yaml_UpdateSource ?getenv None ?b (RegularFile (Inr [?x])) = (node, err)" by fastforce
  have err: "err = None"
    using up by (auto simp: yaml_UpdateSource_def yaml_GetSources_def loadSourcesFromFile_def Validate_def
        yaml_WriteSources_def WriteFile_def)
  have "Name (expandEnvVars ?getenv ?x) \<noteq> Name ?b" unfolding ex by (simp add: sample_source_def)
  from yaml_update_expands [OF up [unfolded err] _ this] ex err up show ?thesis by (simp add: Let_def)
qed

text \<open>\<open>WriteSources\<close> replaces the whole table or leaves it as it was.\<close>

lemma write_rows_table:
  "write_rows fail i ds t = Inr r \<Longrightarrow> gget r = gget t ++ map_of (map (\<lambda>md. (Name md, source_to_row md)) (rev ds))"
proof (induction fail i ds t rule: write_rows.induct)
  case (1 fail i tab)
  then show ?case by (simp split: option.splits)
next
  case (2 fail i md dbs tab)
  from "2.prems" have up: "pg_UpdateSource (fail i) md tab = (gset (Name md) (source_to_row md) tab, None)"
    by (cases "fail i") (simp_all add: pg_UpdateSource_def)
  have "gget r = gget (gset (Name md) (source_to_row md) tab) ++ map_of (map (\<lambda>md. (Name md, source_to_row md)) (rev dbs))"
    using "2.prems" up by (intro "2.IH" [OF up [symmetric] refl]) simp
  then show ?case by (auto simp: map_of_gset map_add_def fun_eq_iff split: option.split)
qed

lemma pg_WriteSources_atomic:
  assumes "pg_WriteSources fail dbs tab = (tab', err)"
  shows "(err \<noteq> None \<longrightarrow> tab' = tab) \<and>
    (err = None \<longrightarrow> gget tab' = map_of (map (\<lambda>md. (Name md, source_to_row md)) (rev dbs)))"
  using assms write_rows_table [of fail 2 dbs "[]"]
  by (auto simp: pg_WriteSources_def split: option.splits sum.splits)

end
