(* ===== verification/Metric_Store.thy ===== *)
theory Metric_Store
  imports Config_Store
begin

text \<open>
  The storages for metric and preset definitions: a YAML file or directory (\<open>internal/metrics/yaml.go\<close>),
  the built-in definitions (\<open>default.go\<close>) and the tables \<open>pgwatch.metric\<close> and \<open>pgwatch.preset\<close>
  (\<open>internal/metrics/postgres.go\<close>). Metrics and presets each fulfil the contract \<open>kv_store\<close>.

  The tables behave as their definition in \<open>postgres_schema.sql\<close> says: the name is the key, the columns for
  the SQL texts and for the metrics of a preset must not be \<open>NULL\<close>, and deleting a metric removes it from the
  presets. Any other failure of a statement is the argument of the operation.
\<close>

section \<open>The YAML storage\<close>

type_synonym metrics_node = "metrics node"

definition no_metrics :: metrics where
  "no_metrics = \<lparr>MetricDefs = [], PresetDefs = []\<rparr>"

text \<open>A definition reads back as it was written, with an empty map for a \<open>nil\<close> map.\<close>

definition preset_filled :: "preset \<Rightarrow> preset" where
  "preset_filled p = p\<lparr>presetMetrics := Some (oentries (presetMetrics p))\<rparr>"

definition metrics_filled :: "metrics \<Rightarrow> metrics" where
  "metrics_filled ms = ms\<lparr>PresetDefs := map (\<lambda>(n, p). (n, preset_filled p)) (PresetDefs ms)\<rparr>"

definition merge_metrics :: "metrics \<Rightarrow> metrics \<Rightarrow> metrics" where
  "merge_metrics ms m =
     ms\<lparr>PresetDefs := gcopy (PresetDefs ms) (PresetDefs m), MetricDefs := gcopy (MetricDefs ms) (MetricDefs m)\<rparr>"

fun load_metric_entries :: "(string \<times> (goerr + metrics)) list \<Rightarrow> metrics \<Rightarrow> goerr + metrics" where
  "load_metric_entries [] ms = Inr ms"
| "load_metric_entries ((name, content) # es) ms =
     (if \<not> is_yaml name then load_metric_entries es ms
      else case content of Inl err \<Rightarrow> Inl err | Inr m \<Rightarrow> load_metric_entries es (merge_metrics ms m))"

definition yaml_GetMetrics :: "metrics_node \<Rightarrow> goerr + metrics" where
  "yaml_GetMetrics node =
     (case node of
        Absent \<Rightarrow> Inl (ErrText ''no such file or directory'')
      | Directory es \<Rightarrow> load_metric_entries es no_metrics
      | RegularFile content \<Rightarrow> content)"

definition yaml_WriteMetrics :: "goerr option \<Rightarrow> metrics \<Rightarrow> metrics_node \<Rightarrow> metrics_node \<times> goerr option" where
  "yaml_WriteMetrics werr ms node = WriteFile werr (metrics_filled ms) node"

text \<open>The body that all operations share: read, change, write.\<close>

definition yaml_change :: "goerr option \<Rightarrow> (metrics \<Rightarrow> goerr + metrics) \<Rightarrow> metrics_node \<Rightarrow> metrics_node \<times> goerr option" where
  "yaml_change werr f node =
     (case yaml_GetMetrics node of
        Inl err \<Rightarrow> (node, Some err)
      | Inr ms \<Rightarrow> (case f ms of Inl err \<Rightarrow> (node, Some err) | Inr ms' \<Rightarrow> yaml_WriteMetrics werr ms' node))"

definition yaml_DeleteMetric :: "goerr option \<Rightarrow> string \<Rightarrow> metrics_node \<Rightarrow> metrics_node \<times> goerr option" where
  "yaml_DeleteMetric werr name = yaml_change werr (\<lambda>ms. Inr (ms\<lparr>MetricDefs := gdel name (MetricDefs ms)\<rparr>))"

definition yaml_UpdateMetric :: "goerr option \<Rightarrow> string \<Rightarrow> metric \<Rightarrow> metrics_node \<Rightarrow> metrics_node \<times> goerr option" where
  "yaml_UpdateMetric werr name m = yaml_change werr (\<lambda>ms. Inr (ms\<lparr>MetricDefs := gset name m (MetricDefs ms)\<rparr>))"

definition yaml_CreateMetric :: "goerr option \<Rightarrow> string \<Rightarrow> metric \<Rightarrow> metrics_node \<Rightarrow> metrics_node \<times> goerr option" where
  "yaml_CreateMetric werr name m =
     yaml_change werr (\<lambda>ms. if ghas (MetricDefs ms) name then Inl (Sentinel ErrMetricExists)
                            else Inr (ms\<lparr>MetricDefs := gset name m (MetricDefs ms)\<rparr>))"

definition yaml_DeletePreset :: "goerr option \<Rightarrow> string \<Rightarrow> metrics_node \<Rightarrow> metrics_node \<times> goerr option" where
  "yaml_DeletePreset werr name = yaml_change werr (\<lambda>ms. Inr (ms\<lparr>PresetDefs := gdel name (PresetDefs ms)\<rparr>))"

definition yaml_UpdatePreset :: "goerr option \<Rightarrow> string \<Rightarrow> preset \<Rightarrow> metrics_node \<Rightarrow> metrics_node \<times> goerr option" where
  "yaml_UpdatePreset werr name p = yaml_change werr (\<lambda>ms. Inr (ms\<lparr>PresetDefs := gset name p (PresetDefs ms)\<rparr>))"

definition yaml_CreatePreset :: "goerr option \<Rightarrow> string \<Rightarrow> preset \<Rightarrow> metrics_node \<Rightarrow> metrics_node \<times> goerr option" where
  "yaml_CreatePreset werr name p =
     yaml_change werr (\<lambda>ms. if ghas (PresetDefs ms) name then Inl (Sentinel ErrPresetExists)
                            else Inr (ms\<lparr>PresetDefs := gset name p (PresetDefs ms)\<rparr>))"

section \<open>The built-in definitions\<close>

definition default_change :: "'s \<Rightarrow> 's \<times> goerr option" where
  "default_change s = (s, Some (Sentinel ErrUnsupported))"

section \<open>The tables\<close>

record config_db =
  t_metric :: "(string, metric) gomap"
  t_preset :: "(string, string \<times> (string, int) gomap) gomap"

definition null_error :: "string \<Rightarrow> goerr" where
  "null_error col = ErrText (''null value in column '' @ col @ '' violates not-null constraint'')"

definition pg_GetMetrics :: "goerr option \<Rightarrow> config_db \<Rightarrow> goerr + metrics" where
  "pg_GetMetrics fail db =
     (case fail of
        Some err \<Rightarrow> Inl err
      | None \<Rightarrow> Inr \<lparr>MetricDefs = t_metric db,
                  PresetDefs = map (\<lambda>(n, d, ms). (n, \<lparr>presetDescription = d, presetMetrics = Some ms\<rparr>)) (t_preset db)\<rparr>)"

definition pg_UpdateMetric :: "goerr option \<Rightarrow> string \<Rightarrow> metric \<Rightarrow> config_db \<Rightarrow> config_db \<times> goerr option" where
  "pg_UpdateMetric fail name m db =
     (case fail of
        Some err \<Rightarrow> (db, Some err)
      | None \<Rightarrow> (if SQLs m = [] then (db, Some (null_error ''sqls''))
                 else (db\<lparr>t_metric := gset name m (t_metric db)\<rparr>, None)))"

definition pg_CreateMetric :: "goerr option \<Rightarrow> string \<Rightarrow> metric \<Rightarrow> config_db \<Rightarrow> config_db \<times> goerr option" where
  "pg_CreateMetric fail name m db =
     (case fail of
        Some err \<Rightarrow> (db, Some err)
      | None \<Rightarrow> (if SQLs m = [] then (db, Some (null_error ''sqls''))
                 else if ghas (t_metric db) name then (db, Some (Sentinel ErrMetricExists))
                 else (db\<lparr>t_metric := gset name m (t_metric db)\<rparr>, None)))"

text \<open>The trigger removes a deleted metric from all presets.\<close>

definition pg_DeleteMetric :: "goerr option \<Rightarrow> string \<Rightarrow> config_db \<Rightarrow> config_db \<times> goerr option" where
  "pg_DeleteMetric fail name db =
     (case fail of
        Some err \<Rightarrow> (db, Some err)
      | None \<Rightarrow> (db\<lparr>t_metric := gdel name (t_metric db),
                     t_preset := (if ghas (t_metric db) name
                                  then map (\<lambda>(n, d, ms). (n, d, gdel name ms)) (t_preset db) else t_preset db)\<rparr>, None))"

definition pg_UpdatePreset :: "goerr option \<Rightarrow> string \<Rightarrow> preset \<Rightarrow> config_db \<Rightarrow> config_db \<times> goerr option" where
  "pg_UpdatePreset fail name p db =
     (case fail of
        Some err \<Rightarrow> (db, Some err)
      | None \<Rightarrow> (if olen (presetMetrics p) = 0 then (db, Some (null_error ''metrics''))
                 else (db\<lparr>t_preset := gset name (presetDescription p, oentries (presetMetrics p)) (t_preset db)\<rparr>, None)))"

definition pg_CreatePreset :: "goerr option \<Rightarrow> string \<Rightarrow> preset \<Rightarrow> config_db \<Rightarrow> config_db \<times> goerr option" where
  "pg_CreatePreset fail name p db =
     (case fail of
        Some err \<Rightarrow> (db, Some err)
      | None \<Rightarrow> (if olen (presetMetrics p) = 0 then (db, Some (null_error ''metrics''))
                 else if ghas (t_preset db) name then (db, Some (Sentinel ErrPresetExists))
                 else (db\<lparr>t_preset := gset name (presetDescription p, oentries (presetMetrics p)) (t_preset db)\<rparr>, None)))"

definition pg_DeletePreset :: "goerr option \<Rightarrow> string \<Rightarrow> config_db \<Rightarrow> config_db \<times> goerr option" where
  "pg_DeletePreset fail name db =
     (case fail of Some err \<Rightarrow> (db, Some err) | None \<Rightarrow> (db\<lparr>t_preset := gdel name (t_preset db)\<rparr>, None))"

text \<open>
  \<open>writeMetricsToPostgres\<close>: all definitions in one transaction; \<open>fail i\<close> is the outcome of its
  \<open>i\<close>-th step (the begin, the statements, the commit).
\<close>

fun write_metric_rows :: "(nat \<Rightarrow> goerr option) \<Rightarrow> nat \<Rightarrow> (string \<times> metric) list \<Rightarrow> config_db \<Rightarrow> goerr + nat \<times> config_db" where
  "write_metric_rows fail i [] db = Inr (i, db)"
| "write_metric_rows fail i ((n, m) # ms) db =
     (case fail i of
        Some err \<Rightarrow> Inl err
      | None \<Rightarrow> write_metric_rows fail (Suc i) ms (db\<lparr>t_metric := gset n m (t_metric db)\<rparr>))"

fun write_preset_rows :: "(nat \<Rightarrow> goerr option) \<Rightarrow> nat \<Rightarrow> (string \<times> preset) list \<Rightarrow> config_db \<Rightarrow> goerr + nat \<times> config_db" where
  "write_preset_rows fail i [] db = Inr (i, db)"
| "write_preset_rows fail i ((n, p) # ps) db =
     (case fail i of
        Some err \<Rightarrow> Inl err
      | None \<Rightarrow> write_preset_rows fail (Suc i) ps
                 (db\<lparr>t_preset := gset n (presetDescription p, oentries (presetMetrics p)) (t_preset db)\<rparr>))"

definition writeMetricsToPostgres :: "(nat \<Rightarrow> goerr option) \<Rightarrow> metrics \<Rightarrow> config_db \<Rightarrow> config_db \<times> goerr option" where
  "writeMetricsToPostgres fail defs db =
     (case fail 0 of
        Some err \<Rightarrow> (db, Some err)
      | None \<Rightarrow>
          (case write_metric_rows fail 1 (MetricDefs defs) db of
             Inl err \<Rightarrow> (db, Some err)
           | Inr (i, db1) \<Rightarrow>
               (case write_preset_rows fail i (PresetDefs defs) db1 of
                  Inl err \<Rightarrow> (db, Some err)
                | Inr (j, db2) \<Rightarrow> (case fail j of Some err \<Rightarrow> (db, Some err) | None \<Rightarrow> (db2, None)))))"

section \<open>What a reader sees\<close>

definition yaml_metric_view :: "metrics_node \<Rightarrow> (string \<rightharpoonup> metric) option" where
  "yaml_metric_view node = (case yaml_GetMetrics node of Inl _ \<Rightarrow> None | Inr ms \<Rightarrow> Some (map_of (MetricDefs ms)))"

definition yaml_preset_view :: "metrics_node \<Rightarrow> (string \<rightharpoonup> preset) option" where
  "yaml_preset_view node =
     (case yaml_GetMetrics node of Inl _ \<Rightarrow> None | Inr ms \<Rightarrow> Some (map_option preset_filled \<circ> map_of (PresetDefs ms)))"

definition pg_metric_view :: "config_db \<Rightarrow> (string \<rightharpoonup> metric) option" where
  "pg_metric_view db = (case pg_GetMetrics None db of Inl _ \<Rightarrow> None | Inr ms \<Rightarrow> Some (map_of (MetricDefs ms)))"

definition pg_preset_view :: "config_db \<Rightarrow> (string \<rightharpoonup> preset) option" where
  "pg_preset_view db = (case pg_GetMetrics None db of Inl _ \<Rightarrow> None | Inr ms \<Rightarrow> Some (map_of (PresetDefs ms)))"

section \<open>They fulfil the contract\<close>

lemma preset_filled_twice [simp]: "preset_filled (preset_filled p) = preset_filled p"
  by (simp add: preset_filled_def oentries_def)

lemma yaml_change_ok:
  assumes "yaml_change werr f node = (node', None)"
  shows "\<exists>ms ms'. yaml_GetMetrics node = Inr ms \<and> f ms = Inr ms' \<and> yaml_GetMetrics node' = Inr (metrics_filled ms')"
  using assms
  by (auto simp: yaml_change_def yaml_WriteMetrics_def yaml_GetMetrics_def [of "RegularFile _"] split: sum.splits dest!: WriteFile_None)

lemma yaml_change_err: "yaml_change werr f node = (node', Some e) \<Longrightarrow> node' = node"
  by (auto simp: yaml_change_def yaml_WriteMetrics_def split: sum.splits dest: WriteFile_Some)

lemma metrics_filled_simps [simp]:
  "MetricDefs (metrics_filled ms) = MetricDefs ms"
  "map_of (PresetDefs (metrics_filled ms)) = map_option preset_filled \<circ> map_of (PresetDefs ms)"
  by (simp_all add: metrics_filled_def map_of_map)

lemma filled_comp [simp]: "map_option preset_filled \<circ> (map_option preset_filled \<circ> m) = map_option preset_filled \<circ> m"
  by (auto simp: fun_eq_iff split: option.split) (metis (no_types, lifting) option.map_comp option.map_cong preset_filled_twice comp_def)

lemmas yaml_metric_defs = yaml_UpdateMetric_def yaml_CreateMetric_def yaml_DeleteMetric_def
lemmas yaml_preset_defs = yaml_UpdatePreset_def yaml_CreatePreset_def yaml_DeletePreset_def

interpretation yaml_metrics: kv_store yaml_metric_view "yaml_UpdateMetric werr" "yaml_CreateMetric werr"
  "yaml_DeleteMetric werr" "\<lambda>_. True" "\<lambda>_ _. True" id
  for werr
proof
  show "\<exists>e. yaml_CreateMetric werr k v s = (s, Some e)"
    if "yaml_metric_view s = Some m" "m k \<noteq> None" for s k v m
    using that by (auto simp: yaml_metric_view_def yaml_metric_defs yaml_change_def split: sum.splits)
qed (auto simp: yaml_metric_view_def yaml_metric_defs gomap_simps split: if_splits dest!: yaml_change_ok dest: yaml_change_err)

interpretation yaml_presets: kv_store yaml_preset_view "yaml_UpdatePreset werr" "yaml_CreatePreset werr"
  "yaml_DeletePreset werr" "\<lambda>_. True" "\<lambda>_ _. True" preset_filled
  for werr
proof
  show "\<exists>e. yaml_CreatePreset werr k v s = (s, Some e)"
    if "yaml_preset_view s = Some m" "m k \<noteq> None" for s k v m
    using that by (auto simp: yaml_preset_view_def yaml_preset_defs yaml_change_def split: sum.splits)
qed (auto simp: yaml_preset_view_def yaml_preset_defs gomap_simps fun_upd_comp split: if_splits
  dest!: yaml_change_ok dest: yaml_change_err)

lemma pg_metric_view_eq: "pg_metric_view db = Some (map_of (t_metric db))"
  by (simp add: pg_metric_view_def pg_GetMetrics_def)

definition row_preset :: "string \<times> (string, int) gomap \<Rightarrow> preset" where
  "row_preset r = \<lparr>presetDescription = fst r, presetMetrics = Some (snd r)\<rparr>"

lemma pg_preset_view_eq: "pg_preset_view db = Some (map_option row_preset \<circ> map_of (t_preset db))"
proof -
  have "map (\<lambda>(n, d, ms). (n, \<lparr>presetDescription = d, presetMetrics = Some ms\<rparr>)) (t_preset db) =
      map (\<lambda>(n, r). (n, row_preset r)) (t_preset db)"
    by (auto simp: row_preset_def)
  then have "map_of (map (\<lambda>(n, d, ms). (n, \<lparr>presetDescription = d, presetMetrics = Some ms\<rparr>)) (t_preset db)) =
      map_option row_preset \<circ> map_of (t_preset db)"
    by (simp only: map_of_map)
  then show ?thesis by (simp add: pg_preset_view_def pg_GetMetrics_def)
qed

lemma row_preset_filled: "row_preset (presetDescription p, oentries (presetMetrics p)) = preset_filled p"
  by (simp add: row_preset_def preset_filled_def)

interpretation pg_metrics: kv_store pg_metric_view "pg_UpdateMetric fail" "pg_CreateMetric fail" "pg_DeleteMetric fail"
  "\<lambda>_. True" "\<lambda>_ _. True" id
  for fail
  by unfold_locales
     (auto simp: pg_metric_view_eq pg_UpdateMetric_def pg_CreateMetric_def pg_DeleteMetric_def gomap_simps
       split: option.splits if_splits)

interpretation pg_presets: kv_store pg_preset_view "pg_UpdatePreset fail" "pg_CreatePreset fail" "pg_DeletePreset fail"
  "\<lambda>_. True" "\<lambda>_ _. True" preset_filled
  for fail
  by (unfold_locales;
      auto simp: pg_preset_view_eq pg_UpdatePreset_def pg_CreatePreset_def pg_DeletePreset_def gomap_simps
       fun_upd_comp row_preset_filled split: option.splits if_splits)
     (metis option.exhaust surj_pair)

section \<open>Theorems\<close>


definition plain_metric :: "sqls \<Rightarrow> metric" where
  "plain_metric q = \<lparr>SQLs = q, InitSQL = [], NodeStatus = [], Gauges = [], IsInstanceLevel = False, StorageName = [],
     metricDescription = []\<rparr>"


text \<open>\<open>writeMetricsToPostgres\<close> takes effect as a whole or not at all.\<close>

lemma writeMetricsToPostgres_atomic:
  "writeMetricsToPostgres fail defs db = (db', Some err) \<Longrightarrow> db' = db"
  by (auto simp: writeMetricsToPostgres_def split: option.splits sum.splits prod.splits)

text \<open>
  a metric without SQL texts is accepted by a YAML storage and never by the tables: the empty map
  becomes \<open>NULL\<close>, and the column refuses it.
\<close>

theorem metric_without_sql:
  assumes "SQLs m = []"
  shows "snd (yaml_UpdateMetric None name m (RegularFile (Inr ms))) = None \<and>
    (\<exists>e. pg_UpdateMetric fail name m db = (db, Some e)) \<and> (\<exists>e. pg_CreateMetric fail name m db = (db, Some e))"
proof -
  have "snd (yaml_UpdateMetric None name m (RegularFile (Inr ms))) = None"
    by (simp add: yaml_UpdateMetric_def yaml_change_def yaml_GetMetrics_def yaml_WriteMetrics_def WriteFile_def)
  moreover have "\<exists>e. pg_UpdateMetric fail name m db = (db, Some e)" "\<exists>e. pg_CreateMetric fail name m db = (db, Some e)"
    using assms by (auto simp: pg_UpdateMetric_def pg_CreateMetric_def split: option.split)
  ultimately show ?thesis by blast
qed

theorem metric_without_sql_witness:
  "SQLs (plain_metric []) = [] \<and>
   (\<exists>e. pg_CreateMetric None ''m'' (plain_metric []) \<lparr>t_metric = [], t_preset = []\<rparr> = (\<lparr>t_metric = [], t_preset = []\<rparr>, Some e))"
  using metric_without_sql [of "plain_metric []" "''m''" no_metrics None "\<lparr>t_metric = [], t_preset = []\<rparr>"]
  by (simp add: plain_metric_def)

end
