(* ===== verification/Web_Server.thy ===== *)
theory Web_Server
  imports Source_Store Metric_Store
begin

text \<open>
  The web server (\<open>internal/webserver\<close>): the REST handlers for sources, metrics and presets
  (\<open>source.go\<close>, \<open>metric.go\<close>), logging in and checking tokens (\<open>jwt.go\<close>), and the routes with their
  middleware (\<open>webserver.go\<close>).

  A request carries the outcome of reading its body; the fields of \<open>web_env\<close> are the JSON decoder, the JWT library
  (signing and checking with the key of the process), the storages the server was given, and the answers of everything
  else it asks. The log stream is left out.
\<close>

section \<open>Requests and responses\<close>

datatype http_method = MethodGet | MethodPost | MethodPut | MethodDelete | MethodOptions | MethodOther

datatype 'tok body =
    NoBody
  | ErrorText goerr
  | BodyText string
  | SourceList "source list"
  | OneSource source
  | MetricList "(string, metric) gomap"
  | OneMetric metric
  | PresetList "(string, preset) gomap"
  | OnePreset preset
  | Token 'tok
  | FileContent string

record 'tok response =
  status :: nat
  allow :: string
  cache_control :: string
  rbody :: "'tok body"

definition http_Error :: "goerr \<Rightarrow> nat \<Rightarrow> 'tok response" where
  "http_Error err st = \<lparr>status = st, allow = [], cache_control = [], rbody = ErrorText err\<rparr>"

definition reply :: "nat \<Rightarrow> 'tok body \<Rightarrow> 'tok response" where
  "reply st b = \<lparr>status = st, allow = [], cache_control = [], rbody = b\<rparr>"

definition with_allow :: "string \<Rightarrow> 'tok response \<Rightarrow> 'tok response" where
  "with_allow a r = r\<lparr>allow := a\<rparr>"

definition method_not_allowed :: "string \<Rightarrow> 'tok response" where
  "method_not_allowed a = with_allow a (http_Error (ErrText ''method not allowed'') 405)"

definition collection_methods :: string where "collection_methods = ''GET, POST, OPTIONS''"
definition item_methods :: string where "item_methods = ''GET, PUT, DELETE, OPTIONS''"

record login_req =
  Username :: string
  Password :: string

text \<open>What opening an embedded file of the user interface yields.\<close>

datatype opened = NotExist | Unreadable goerr | Opened string

record ('s, 'm, 'tok, 'raw) web_env =
  we_WebUser :: string
  we_WebPassword :: string
  we_json_source :: "'raw \<Rightarrow> goerr + source"
  we_json_metric :: "'raw \<Rightarrow> goerr + metric"
  we_json_metrics :: "'raw \<Rightarrow> goerr + (string, metric) gomap"
  we_json_preset :: "'raw \<Rightarrow> goerr + preset"
  we_json_presets :: "'raw \<Rightarrow> goerr + (string, preset) gomap"
  we_json_login :: "'raw \<Rightarrow> goerr + login_req"
  we_sign :: "string \<Rightarrow> int \<Rightarrow> goerr + 'tok"
  we_parse :: "int \<Rightarrow> 'tok \<Rightarrow> goerr option"
  we_GetSources :: "'s \<Rightarrow> goerr + source list"
  we_CreateSource :: "source \<Rightarrow> 's \<Rightarrow> 's \<times> goerr option"
  we_UpdateSource :: "source \<Rightarrow> 's \<Rightarrow> 's \<times> goerr option"
  we_DeleteSource :: "string \<Rightarrow> 's \<Rightarrow> 's \<times> goerr option"
  we_GetMetrics :: "'m \<Rightarrow> goerr + metrics"
  we_CreateMetric :: "string \<Rightarrow> metric \<Rightarrow> 'm \<Rightarrow> 'm \<times> goerr option"
  we_UpdateMetric :: "string \<Rightarrow> metric \<Rightarrow> 'm \<Rightarrow> 'm \<times> goerr option"
  we_DeleteMetric :: "string \<Rightarrow> 'm \<Rightarrow> 'm \<times> goerr option"
  we_CreatePreset :: "string \<Rightarrow> preset \<Rightarrow> 'm \<Rightarrow> 'm \<times> goerr option"
  we_UpdatePreset :: "string \<Rightarrow> preset \<Rightarrow> 'm \<Rightarrow> 'm \<times> goerr option"
  we_DeletePreset :: "string \<Rightarrow> 'm \<Rightarrow> 'm \<times> goerr option"
  we_Ping :: "'raw \<Rightarrow> goerr option"
  we_ready :: bool
  we_ctxErr :: "goerr option"
  we_WebDisable :: string
  we_WebBasePath :: string
  we_indexHTML :: string
  we_open :: "string \<Rightarrow> opened"

section \<open>Sources\<close>

text \<open>A response carries the value whose JSON text the server sends; the operations below give that value.\<close>

definition GetSources :: "('s, 'm, 'tok, 'raw) web_env \<Rightarrow> 's \<Rightarrow> goerr + source list" where [simp]:
  "GetSources env s = we_GetSources env s"

definition DeleteSource :: "('s, 'm, 'tok, 'raw) web_env \<Rightarrow> string \<Rightarrow> 's \<Rightarrow> 's \<times> goerr option" where [simp]:
  "DeleteSource env database s = we_DeleteSource env database s"

definition UpdateSource :: "('s, 'm, 'tok, 'raw) web_env \<Rightarrow> 'raw \<Rightarrow> 's \<Rightarrow> 's \<times> goerr option" where
  "UpdateSource env params s =
     (case we_json_source env params of Inl err \<Rightarrow> (s, Some err) | Inr md \<Rightarrow> we_UpdateSource env md s)"

definition web_CreateSource :: "('s, 'm, 'tok, 'raw) web_env \<Rightarrow> 'raw \<Rightarrow> 's \<Rightarrow> 's \<times> goerr option" where
  "web_CreateSource env params s =
     (case we_json_source env params of Inl err \<Rightarrow> (s, Some err) | Inr md \<Rightarrow> we_CreateSource env md s)"

definition handleSources :: "('s, 'm, 'tok, 'raw) web_env \<Rightarrow> http_method \<Rightarrow> goerr + 'raw \<Rightarrow> 's \<Rightarrow> 's \<times> 'tok response" where
  "handleSources env meth raw s =
     (case meth of
        MethodGet \<Rightarrow>
          (case GetSources env s of Inl err \<Rightarrow> (s, http_Error err 500) | Inr dbs \<Rightarrow> (s, reply 200 (SourceList dbs)))
      | MethodPost \<Rightarrow>
          (case raw of
             Inl err \<Rightarrow> (s, http_Error err 500)
           | Inr params \<Rightarrow>
               (case web_CreateSource env params s of
                  (s, Some err) \<Rightarrow> (s, http_Error err (if errors_Is err ErrSourceExists then 409 else 500))
                | (s, None) \<Rightarrow> (s, reply 201 NoBody)))
      | MethodOptions \<Rightarrow> (s, with_allow collection_methods (reply 200 NoBody))
      | _ \<Rightarrow> (s, method_not_allowed collection_methods))"

definition getSourceByName :: "('s, 'm, 'tok, 'raw) web_env \<Rightarrow> string \<Rightarrow> 's \<Rightarrow> 'tok response" where
  "getSourceByName env name s =
     (case we_GetSources env s of
        Inl err \<Rightarrow> http_Error err 500
      | Inr srcs \<Rightarrow>
          (case find (\<lambda>src. Name src = name) srcs of
             Some src \<Rightarrow> reply 200 (OneSource src)
           | None \<Rightarrow> http_Error (Sentinel ErrSourceNotFound) 404))"

definition updateSourceByName :: "('s, 'm, 'tok, 'raw) web_env \<Rightarrow> goerr + 'raw \<Rightarrow> string \<Rightarrow> 's \<Rightarrow> 's \<times> 'tok response" where
  "updateSourceByName env raw name s =
     (case raw of
        Inl err \<Rightarrow> (s, http_Error (ErrText ''invalid request body'') 400)
      | Inr params \<Rightarrow>
          (case we_json_source env params of
             Inl err \<Rightarrow> (s, http_Error (ErrText ''invalid JSON format'') 400)
           | Inr md \<Rightarrow>
               (if Name md \<noteq> name then (s, http_Error (ErrText ''name in URL and body must match'') 400)
                else case we_UpdateSource env md s of
                       (s, Some err) \<Rightarrow> (s, http_Error err 500)
                     | (s, None) \<Rightarrow> (s, reply 200 NoBody))))"

definition deleteSourceByName :: "('s, 'm, 'tok, 'raw) web_env \<Rightarrow> string \<Rightarrow> 's \<Rightarrow> 's \<times> 'tok response" where
  "deleteSourceByName env name s =
     (case DeleteSource env name s of (s, Some err) \<Rightarrow> (s, http_Error err 500) | (s, None) \<Rightarrow> (s, reply 200 NoBody))"

definition handleSourceItem :: "('s, 'm, 'tok, 'raw) web_env \<Rightarrow> http_method \<Rightarrow> goerr + 'raw \<Rightarrow> string \<Rightarrow> 's \<Rightarrow> 's \<times> 'tok response" where
  "handleSourceItem env meth raw name s =
     (if name = [] then (s, http_Error (ErrText ''source name is required'') 400)
      else case meth of
             MethodGet \<Rightarrow> (s, getSourceByName env name s)
           | MethodPut \<Rightarrow> updateSourceByName env raw name s
           | MethodDelete \<Rightarrow> deleteSourceByName env name s
           | MethodOptions \<Rightarrow> (s, with_allow item_methods (reply 200 NoBody))
           | _ \<Rightarrow> (s, method_not_allowed item_methods))"

section \<open>Metrics\<close>

text \<open>The loop of a bulk creation: it stops at the first error.\<close>

fun create_all :: "('k \<Rightarrow> 'v \<Rightarrow> 'm \<Rightarrow> 'm \<times> goerr option) \<Rightarrow> ('k \<times> 'v) list \<Rightarrow> 'm \<Rightarrow> 'm \<times> goerr option" where
  "create_all create [] m = (m, None)"
| "create_all create ((name, v) # named) m =
     (case create name v m of (m, Some err) \<Rightarrow> (m, Some err) | (m, None) \<Rightarrow> create_all create named m)"

definition GetMetrics :: "('s, 'm, 'tok, 'raw) web_env \<Rightarrow> 'm \<Rightarrow> goerr + (string, metric) gomap" where [simp]:
  "GetMetrics env m = (case we_GetMetrics env m of Inl err \<Rightarrow> Inl err | Inr mr \<Rightarrow> Inr (MetricDefs mr))"

definition UpdateMetric :: "('s, 'm, 'tok, 'raw) web_env \<Rightarrow> string \<Rightarrow> 'raw \<Rightarrow> 'm \<Rightarrow> 'm \<times> goerr option" where
  "UpdateMetric env name params m =
     (case we_json_metric env params of Inl err \<Rightarrow> (m, Some err) | Inr v \<Rightarrow> we_UpdateMetric env name v m)"

definition DeleteMetric :: "('s, 'm, 'tok, 'raw) web_env \<Rightarrow> string \<Rightarrow> 'm \<Rightarrow> 'm \<times> goerr option" where [simp]:
  "DeleteMetric env name m = we_DeleteMetric env name m"

definition web_CreateMetric :: "('s, 'm, 'tok, 'raw) web_env \<Rightarrow> 'raw \<Rightarrow> 'm \<Rightarrow> 'm \<times> goerr option" where
  "web_CreateMetric env params m =
     (case we_json_metrics env params of
        Inl err \<Rightarrow> (m, Some err)
      | Inr named \<Rightarrow> (if named = [] then (m, Some (Sentinel ErrInvalidMetric)) else create_all (we_CreateMetric env) named m))"

definition handleMetrics :: "('s, 'm, 'tok, 'raw) web_env \<Rightarrow> http_method \<Rightarrow> goerr + 'raw \<Rightarrow> 'm \<Rightarrow> 'm \<times> 'tok response" where
  "handleMetrics env meth raw m =
     (case meth of
        MethodGet \<Rightarrow>
          (case GetMetrics env m of Inl err \<Rightarrow> (m, http_Error err 500) | Inr defs \<Rightarrow> (m, reply 200 (MetricList defs)))
      | MethodPost \<Rightarrow>
          (case raw of
             Inl err \<Rightarrow> (m, http_Error err 500)
           | Inr params \<Rightarrow>
               (case web_CreateMetric env params m of
                  (m, Some err) \<Rightarrow> (m, http_Error err (if errors_Is err ErrMetricExists then 409 else 500))
                | (m, None) \<Rightarrow> (m, reply 201 NoBody)))
      | MethodOptions \<Rightarrow> (m, with_allow collection_methods (reply 200 NoBody))
      | _ \<Rightarrow> (m, method_not_allowed collection_methods))"

definition getMetricByName :: "('s, 'm, 'tok, 'raw) web_env \<Rightarrow> string \<Rightarrow> 'm \<Rightarrow> 'tok response" where
  "getMetricByName env name m =
     (case we_GetMetrics env m of
        Inl err \<Rightarrow> http_Error err 500
      | Inr mr \<Rightarrow>
          (case gget (MetricDefs mr) name of
             Some metric \<Rightarrow> reply 200 (OneMetric metric)
           | None \<Rightarrow> http_Error (Sentinel ErrMetricNotFound) 404))"

definition updateMetricByName :: "('s, 'm, 'tok, 'raw) web_env \<Rightarrow> goerr + 'raw \<Rightarrow> string \<Rightarrow> 'm \<Rightarrow> 'm \<times> 'tok response" where
  "updateMetricByName env raw name m =
     (case raw of
        Inl err \<Rightarrow> (m, http_Error err 400)
      | Inr params \<Rightarrow>
          (case we_json_metric env params of
             Inl err \<Rightarrow> (m, http_Error err 400)
           | Inr v \<Rightarrow>
               (case we_UpdateMetric env name v m of
                  (m, Some err) \<Rightarrow> (m, http_Error err 500)
                | (m, None) \<Rightarrow> (m, reply 200 NoBody))))"

definition deleteMetricByName :: "('s, 'm, 'tok, 'raw) web_env \<Rightarrow> string \<Rightarrow> 'm \<Rightarrow> 'm \<times> 'tok response" where
  "deleteMetricByName env name m =
     (case DeleteMetric env name m of (m, Some err) \<Rightarrow> (m, http_Error err 500) | (m, None) \<Rightarrow> (m, reply 200 NoBody))"

definition handleMetricItem :: "('s, 'm, 'tok, 'raw) web_env \<Rightarrow> http_method \<Rightarrow> goerr + 'raw \<Rightarrow> string \<Rightarrow> 'm \<Rightarrow> 'm \<times> 'tok response" where
  "handleMetricItem env meth raw name m =
     (if name = [] then (m, http_Error (ErrText ''metric name is required'') 400)
      else case meth of
             MethodGet \<Rightarrow> (m, getMetricByName env name m)
           | MethodPut \<Rightarrow> updateMetricByName env raw name m
           | MethodDelete \<Rightarrow> deleteMetricByName env name m
           | MethodOptions \<Rightarrow> (m, with_allow item_methods (reply 200 NoBody))
           | _ \<Rightarrow> (m, method_not_allowed item_methods))"

section \<open>Presets\<close>

definition GetPresets :: "('s, 'm, 'tok, 'raw) web_env \<Rightarrow> 'm \<Rightarrow> goerr + (string, preset) gomap" where [simp]:
  "GetPresets env m = (case we_GetMetrics env m of Inl err \<Rightarrow> Inl err | Inr mr \<Rightarrow> Inr (PresetDefs mr))"

definition UpdatePreset :: "('s, 'm, 'tok, 'raw) web_env \<Rightarrow> string \<Rightarrow> 'raw \<Rightarrow> 'm \<Rightarrow> 'm \<times> goerr option" where
  "UpdatePreset env name params m =
     (case we_json_preset env params of Inl err \<Rightarrow> (m, Some err) | Inr p \<Rightarrow> we_UpdatePreset env name p m)"

definition DeletePreset :: "('s, 'm, 'tok, 'raw) web_env \<Rightarrow> string \<Rightarrow> 'm \<Rightarrow> 'm \<times> goerr option" where [simp]:
  "DeletePreset env name m = we_DeletePreset env name m"

definition web_CreatePreset :: "('s, 'm, 'tok, 'raw) web_env \<Rightarrow> 'raw \<Rightarrow> 'm \<Rightarrow> 'm \<times> goerr option" where
  "web_CreatePreset env params m =
     (case we_json_presets env params of
        Inl err \<Rightarrow> (m, Some err)
      | Inr named \<Rightarrow> (if named = [] then (m, Some (Sentinel ErrInvalidPreset)) else create_all (we_CreatePreset env) named m))"

definition handlePresets :: "('s, 'm, 'tok, 'raw) web_env \<Rightarrow> http_method \<Rightarrow> goerr + 'raw \<Rightarrow> 'm \<Rightarrow> 'm \<times> 'tok response" where
  "handlePresets env meth raw m =
     (case meth of
        MethodGet \<Rightarrow>
          (case GetPresets env m of Inl err \<Rightarrow> (m, http_Error err 500) | Inr defs \<Rightarrow> (m, reply 200 (PresetList defs)))
      | MethodPost \<Rightarrow>
          (case raw of
             Inl err \<Rightarrow> (m, http_Error err 500)
           | Inr params \<Rightarrow>
               (case web_CreatePreset env params m of
                  (m, Some err) \<Rightarrow> (m, http_Error err (if errors_Is err ErrPresetExists then 409 else 500))
                | (m, None) \<Rightarrow> (m, reply 201 NoBody)))
      | MethodOptions \<Rightarrow> (m, with_allow collection_methods (reply 200 NoBody))
      | _ \<Rightarrow> (m, method_not_allowed collection_methods))"

definition getPresetByName :: "('s, 'm, 'tok, 'raw) web_env \<Rightarrow> string \<Rightarrow> 'm \<Rightarrow> 'tok response" where
  "getPresetByName env name m =
     (case we_GetMetrics env m of
        Inl err \<Rightarrow> http_Error err 500
      | Inr mr \<Rightarrow>
          (case gget (PresetDefs mr) name of
             Some preset \<Rightarrow> reply 200 (OnePreset preset)
           | None \<Rightarrow> http_Error (ErrText ''preset not found'') 404))"

definition updatePresetByName :: "('s, 'm, 'tok, 'raw) web_env \<Rightarrow> goerr + 'raw \<Rightarrow> string \<Rightarrow> 'm \<Rightarrow> 'm \<times> 'tok response" where
  "updatePresetByName env raw name m =
     (case raw of
        Inl err \<Rightarrow> (m, http_Error (ErrText ''invalid request body'') 400)
      | Inr params \<Rightarrow>
          (case we_json_preset env params of
             Inl err \<Rightarrow> (m, http_Error (ErrText ''invalid JSON format'') 400)
           | Inr p \<Rightarrow>
               (case we_UpdatePreset env name p m of
                  (m, Some err) \<Rightarrow> (m, http_Error err 500)
                | (m, None) \<Rightarrow> (m, reply 200 NoBody))))"

definition deletePresetByName :: "('s, 'm, 'tok, 'raw) web_env \<Rightarrow> string \<Rightarrow> 'm \<Rightarrow> 'm \<times> 'tok response" where
  "deletePresetByName env name m =
     (case DeletePreset env name m of (m, Some err) \<Rightarrow> (m, http_Error err 500) | (m, None) \<Rightarrow> (m, reply 200 NoBody))"

definition handlePresetItem :: "('s, 'm, 'tok, 'raw) web_env \<Rightarrow> http_method \<Rightarrow> goerr + 'raw \<Rightarrow> string \<Rightarrow> 'm \<Rightarrow> 'm \<times> 'tok response" where
  "handlePresetItem env meth raw name m =
     (if name = [] then (m, http_Error (ErrText ''preset name is required'') 400)
      else case meth of
             MethodGet \<Rightarrow> (m, getPresetByName env name m)
           | MethodPut \<Rightarrow> updatePresetByName env raw name m
           | MethodDelete \<Rightarrow> deletePresetByName env name m
           | MethodOptions \<Rightarrow> (m, with_allow item_methods (reply 200 NoBody))
           | _ \<Rightarrow> (m, method_not_allowed item_methods))"

section \<open>Logging in\<close>

definition IsCorrectPassword :: "('s, 'm, 'tok, 'raw) web_env \<Rightarrow> login_req \<Rightarrow> bool" where
  "IsCorrectPassword env lr \<longleftrightarrow>
     we_WebUser env @ we_WebPassword env = [] \<or> we_WebUser env = Username lr \<and> we_WebPassword env = Password lr"

text \<open>A token of the process expires after eight hours; the claim is in seconds.\<close>

definition unix_time :: "int \<Rightarrow> int" where "unix_time ns = ns div Second"

definition token_exp :: "int \<Rightarrow> int" where
  "token_exp now = unix_time (now + Hour * 8)"

definition generateJWT :: "('s, 'm, 'tok, 'raw) web_env \<Rightarrow> int \<Rightarrow> string \<Rightarrow> goerr + 'tok" where
  "generateJWT env now username = we_sign env username (token_exp now)"

definition handleLogin :: "('s, 'm, 'tok, 'raw) web_env \<Rightarrow> int \<Rightarrow> http_method \<Rightarrow> goerr + 'raw \<Rightarrow> 'tok response" where
  "handleLogin env now meth raw =
     (case meth of
        MethodPost \<Rightarrow>
          (case (case raw of Inl err \<Rightarrow> Inl err | Inr params \<Rightarrow> we_json_login env params) of
             Inl err \<Rightarrow> http_Error err 500
           | Inr lr \<Rightarrow>
               (if \<not> IsCorrectPassword env lr then http_Error (ErrText ''can not authenticate this user'') 401
                else case generateJWT env now (Username lr) of
                       Inl err \<Rightarrow> http_Error err 500
                     | Inr t \<Rightarrow> reply 200 (Token t)))
      | _ \<Rightarrow> with_allow ''POST'' (http_Error (ErrText ''only POST method is allowed'') 405))"

text \<open>
  The token is the first value of the header, or else the parameter of the query; \<open>None\<close> is an empty one. A
  header that is present has at least one value, so no value means that it is absent.
\<close>

record ('tok, 'raw) request =
  rq_time :: int
  rq_method :: http_method
  rq_header :: "'tok option list"
  rq_query :: "'tok option"
  rq_raw :: "goerr + 'raw"

definition request_token :: "('tok, 'raw) request \<Rightarrow> 'tok option" where
  "request_token r = (case rq_header r of [] \<Rightarrow> rq_query r | t # _ \<Rightarrow> t)"

definition validateToken :: "('s, 'm, 'tok, 'raw) web_env \<Rightarrow> ('tok, 'raw) request \<Rightarrow> goerr option" where
  "validateToken env r =
     (case request_token r of
        None \<Rightarrow> Some (ErrText ''can not find token in header'')
      | Some t \<Rightarrow> we_parse env (unix_time (rq_time r)) t)"

definition EnsureAuth :: "('s, 'm, 'tok, 'raw) web_env \<Rightarrow> ('tok, 'raw) request \<Rightarrow> ('x \<Rightarrow> 'x \<times> 'tok response) \<Rightarrow> 'x \<Rightarrow> 'x \<times> 'tok response" where
  "EnsureAuth env r handler x =
     (case validateToken env r of Some err \<Rightarrow> (x, http_Error err 401) | None \<Rightarrow> handler x)"

section \<open>The server\<close>

datatype endpoint =
    SourcesEp | SourceEp string | TestConnectEp | MetricsEp | MetricEp string | PresetsEp | PresetEp string
  | LoginEp | LivenessEp | ReadinessEp | StaticEp string

definition handleLiveness :: "('s, 'm, 'tok, 'raw) web_env \<Rightarrow> 'tok response" where
  "handleLiveness env =
     (if we_ctxErr env \<noteq> None then reply 503 (BodyText ''unavailable'') else reply 200 (BodyText ''ok''))"

definition handleReadiness :: "('s, 'm, 'tok, 'raw) web_env \<Rightarrow> 'tok response" where
  "handleReadiness env = (if we_ready env then reply 200 (BodyText ''ok'') else reply 503 (BodyText ''busy''))"

definition handleTestConnect :: "('s, 'm, 'tok, 'raw) web_env \<Rightarrow> http_method \<Rightarrow> goerr + 'raw \<Rightarrow> 'tok response" where
  "handleTestConnect env meth raw =
     (case meth of
        MethodPost \<Rightarrow>
          (case raw of
             Inl err \<Rightarrow> http_Error err 400
           | Inr p \<Rightarrow> (case we_Ping env p of Some err \<Rightarrow> http_Error err 400 | None \<Rightarrow> reply 200 NoBody))
      | _ \<Rightarrow> with_allow ''POST'' (http_Error (ErrText ''Method Not Allowed'') 405))"

definition basePath :: "('s, 'm, 'tok, 'raw) web_env \<Rightarrow> string" where
  "basePath env = ''/'' @ we_WebBasePath env @ (if we_WebBasePath env \<noteq> [] then ''/'' else [])"

definition TrimSuffix :: "string \<Rightarrow> string \<Rightarrow> string" where
  "TrimSuffix s p = rev (TrimPrefix (rev s) (rev p))"

definition cacheControlRevalidate :: string where "cacheControlRevalidate = ''no-cache''"
definition cacheControlImmutable :: string where "cacheControlImmutable = ''public, max-age=31536000, immutable''"

definition ui_routes :: "string list" where
  "ui_routes = [''/'', ''/sources'', ''/metrics'', ''/presets'', ''/logs'']"

definition handleStatic :: "('s, 'm, 'tok, 'raw) web_env \<Rightarrow> http_method \<Rightarrow> string \<Rightarrow> 'tok response" where
  "handleStatic env meth url =
     (if meth \<noteq> MethodGet then http_Error (ErrText ''Method Not Allowed'') 405
      else let path = TrimPrefix url (TrimSuffix (basePath env) ''/'')
      in if path \<in> set ui_routes
         then (reply 200 (FileContent (we_indexHTML env)))\<lparr>cache_control := cacheControlRevalidate\<rparr>
         else let path = TrimPrefix path ''/''
         in case we_open env path of
              NotExist \<Rightarrow> http_Error (ErrText ''404 page not found'') 404
            | Unreadable err \<Rightarrow> http_Error (ErrText ''Internal Server Error'') 500
            | Opened content \<Rightarrow>
                (reply 200 (FileContent content))
                  \<lparr>cache_control := if HasPrefix path ''static/'' \<or> HasPrefix path ''assets/''
                                   then cacheControlImmutable else cacheControlRevalidate\<rparr>)"

text \<open>The handlers act on the storages for sources and for metrics.\<close>

definition on_sources :: "('s \<Rightarrow> 's \<times> 'r) \<Rightarrow> 's \<times> 'm \<Rightarrow> ('s \<times> 'm) \<times> 'r" where
  "on_sources h x = (let (s, r) = h (fst x) in ((s, snd x), r))"

definition on_metrics :: "('m \<Rightarrow> 'm \<times> 'r) \<Rightarrow> 's \<times> 'm \<Rightarrow> ('s \<times> 'm) \<times> 'r" where
  "on_metrics h x = (let (m, r) = h (snd x) in ((fst x, m), r))"

text \<open>The routes of \<open>Init\<close> behind \<open>corsMiddleware\<close>, which answers \<open>OPTIONS\<close> itself.\<close>

definition serve :: "('s, 'm, 'tok, 'raw) web_env \<Rightarrow> endpoint \<times> ('tok, 'raw) request \<Rightarrow> 's \<times> 'm \<Rightarrow> ('s \<times> 'm) \<times> 'tok response" where
  "serve env er x =
     (case er of (ep, r) \<Rightarrow>
      let meth = rq_method r; raw = rq_raw r
      in if meth = MethodOptions then (x, reply 200 NoBody)
         else case ep of
                SourcesEp \<Rightarrow> EnsureAuth env r (on_sources (handleSources env meth raw)) x
              | SourceEp name \<Rightarrow> EnsureAuth env r (on_sources (handleSourceItem env meth raw name)) x
              | TestConnectEp \<Rightarrow> EnsureAuth env r (\<lambda>x. (x, handleTestConnect env meth raw)) x
              | MetricsEp \<Rightarrow> EnsureAuth env r (on_metrics (handleMetrics env meth raw)) x
              | MetricEp name \<Rightarrow> EnsureAuth env r (on_metrics (handleMetricItem env meth raw name)) x
              | PresetsEp \<Rightarrow> EnsureAuth env r (on_metrics (handlePresets env meth raw)) x
              | PresetEp name \<Rightarrow> EnsureAuth env r (on_metrics (handlePresetItem env meth raw name)) x
              | LoginEp \<Rightarrow> (x, handleLogin env (rq_time r) meth raw)
              | LivenessEp \<Rightarrow> (x, handleLiveness env)
              | ReadinessEp \<Rightarrow> (x, handleReadiness env)
              | StaticEp path \<Rightarrow>
                  (x, if we_WebDisable env \<noteq> ''ui'' then handleStatic env meth path
                      else http_Error (ErrText ''404 page not found'') 404))"

fun serve_all :: "('s, 'm, 'tok, 'raw) web_env \<Rightarrow> (endpoint \<times> ('tok, 'raw) request) list \<Rightarrow> 's \<times> 'm
    \<Rightarrow> ('s \<times> 'm) list \<times> 'tok response list" where
  "serve_all env [] x = ([x], [])"
| "serve_all env (er # ers) x =
     (let (x', resp) = serve env er x; (xs, resps) = serve_all env ers x' in (x # xs, resp # resps))"

section \<open>A server on the configuration database\<close>

definition pg_web :: "goerr option \<Rightarrow> (source_table, config_db, 'tok, 'raw) web_env \<Rightarrow> (source_table, config_db, 'tok, 'raw) web_env" where
  "pg_web fail env = env\<lparr>
     we_GetSources := pg_GetSources fail, we_CreateSource := pg_CreateSource fail, we_UpdateSource := pg_UpdateSource fail,
     we_DeleteSource := pg_DeleteSource fail, we_GetMetrics := pg_GetMetrics fail, we_CreateMetric := pg_CreateMetric fail,
     we_UpdateMetric := pg_UpdateMetric fail, we_DeleteMetric := pg_DeleteMetric fail, we_CreatePreset := pg_CreatePreset fail,
     we_UpdatePreset := pg_UpdatePreset fail, we_DeletePreset := pg_DeletePreset fail\<rparr>"

text \<open>And on YAML files.\<close>

definition yaml_web :: "(string \<Rightarrow> string) \<Rightarrow> goerr option \<Rightarrow> (sources_node, metrics_node, 'tok, 'raw) web_env
    \<Rightarrow> (sources_node, metrics_node, 'tok, 'raw) web_env" where
  "yaml_web getenv werr env = env\<lparr>
     we_GetSources := yaml_GetSources getenv, we_CreateSource := yaml_CreateSource getenv werr,
     we_UpdateSource := yaml_UpdateSource getenv werr, we_DeleteSource := yaml_DeleteSource getenv werr,
     we_GetMetrics := yaml_GetMetrics, we_CreateMetric := yaml_CreateMetric werr, we_UpdateMetric := yaml_UpdateMetric werr,
     we_DeleteMetric := yaml_DeleteMetric werr, we_CreatePreset := yaml_CreatePreset werr,
     we_UpdatePreset := yaml_UpdatePreset werr, we_DeletePreset := yaml_DeletePreset werr\<rparr>"

section \<open>Who may change the configuration\<close>

definition is_change :: "http_method \<Rightarrow> bool" where
  "is_change meth \<longleftrightarrow> meth = MethodPost \<or> meth = MethodPut \<or> meth = MethodDelete"

definition logged_in :: "('s, 'm, 'tok, 'raw) web_env \<Rightarrow> endpoint \<times> ('tok, 'raw) request \<Rightarrow> bool" where
  "logged_in env er \<longleftrightarrow>
     (case er of (ep, r) \<Rightarrow>
        ep = LoginEp \<and> rq_method r = MethodPost \<and>
        (case rq_raw r of
           Inl _ \<Rightarrow> False
         | Inr p \<Rightarrow> (case we_json_login env p of Inl _ \<Rightarrow> False | Inr lr \<Rightarrow> IsCorrectPassword env lr)))"

text \<open>The handlers of the items do to the storages what the operations on a request body do, provided a source is sent under its own name.\<close>

lemma update_by_name:
  "we_json_source env params = Inr md \<Longrightarrow> Name md = name \<Longrightarrow> fst (updateSourceByName env (Inr params) name s) = fst (UpdateSource env params s)"
  "fst (updateMetricByName env (Inr params) name m) = fst (UpdateMetric env name params m)"
  "fst (updatePresetByName env (Inr params) name m) = fst (UpdatePreset env name params m)"
  by (auto simp: updateSourceByName_def UpdateSource_def updateMetricByName_def UpdateMetric_def updatePresetByName_def UpdatePreset_def
      split: sum.splits prod.splits option.splits)

lemmas item_handlers = handleSourceItem_def handleMetricItem_def handlePresetItem_def
lemmas collection_handlers = handleSources_def handleMetrics_def handlePresets_def

lemma read_only_handlers:
  assumes "\<not> is_change meth"
  shows "fst (handleSources env meth raw s) = s" "fst (handleSourceItem env meth raw name s) = s"
    "fst (handleMetrics env meth raw m) = m" "fst (handleMetricItem env meth raw name m) = m"
    "fst (handlePresets env meth raw m) = m" "fst (handlePresetItem env meth raw name m) = m"
  using assms
  by (auto simp: is_change_def collection_handlers item_handlers split: http_method.splits sum.splits)

lemma EnsureAuth_changes: "fst (EnsureAuth env r h x) \<noteq> x \<Longrightarrow> validateToken env r = None \<and> fst (h x) \<noteq> x"
  by (simp add: EnsureAuth_def split: option.splits)

lemma fst_on_sources [simp]: "fst (on_sources h x) = (fst (h (fst x)), snd x)"
  by (simp add: on_sources_def split: prod.split)

lemma fst_on_metrics [simp]: "fst (on_metrics h x) = (fst x, fst (h (snd x)))"
  by (simp add: on_metrics_def split: prod.split)

text \<open>A request that changes a storage carries an accepted token and a method that asks for a change.\<close>

lemma serve_changes:
  assumes "fst (serve env (ep, r) x) \<noteq> x"
  shows "validateToken env r = None \<and> is_change (rq_method r)"
proof -
  have "validateToken env r = None"
    using assms by (auto simp: serve_def Let_def dest: EnsureAuth_changes split: if_splits endpoint.splits)
  moreover have "is_change (rq_method r)"
  proof (rule ccontr)
    assume "\<not> is_change (rq_method r)"
    note ro = read_only_handlers [OF this]
    show False
      using assms by (auto simp: serve_def Let_def ro dest: EnsureAuth_changes split: if_splits endpoint.splits)
  qed
  ultimately show ?thesis by blast
qed

lemma handler_tokens:
  "rbody (snd (handleSources env meth raw s)) \<noteq> Token t" "rbody (snd (handleSourceItem env meth raw name s)) \<noteq> Token t"
  "rbody (snd (handleMetrics env meth raw m)) \<noteq> Token t" "rbody (snd (handleMetricItem env meth raw name m)) \<noteq> Token t"
  "rbody (snd (handlePresets env meth raw m)) \<noteq> Token t" "rbody (snd (handlePresetItem env meth raw name m)) \<noteq> Token t"
  by (auto simp: collection_handlers item_handlers getSourceByName_def updateSourceByName_def deleteSourceByName_def
      getMetricByName_def updateMetricByName_def deleteMetricByName_def getPresetByName_def updatePresetByName_def
      deletePresetByName_def reply_def http_Error_def with_allow_def method_not_allowed_def
      split: http_method.splits sum.splits prod.splits option.splits)

lemma snd_on_sources [simp]: "snd (on_sources h x) = snd (h (fst x))"
  by (simp add: on_sources_def split: prod.split)

lemma snd_on_metrics [simp]: "snd (on_metrics h x) = snd (h (snd x))"
  by (simp add: on_metrics_def split: prod.split)

lemma EnsureAuth_token: "rbody (snd (EnsureAuth env r h x)) = Token t \<Longrightarrow> rbody (snd (h x)) = Token t"
  by (simp add: EnsureAuth_def http_Error_def split: option.splits)

lemma other_tokens:
  "rbody (handleTestConnect env meth raw) \<noteq> Token t" "rbody (handleLiveness env) \<noteq> Token t"
  "rbody (handleReadiness env) \<noteq> Token t" "rbody (handleStatic env meth path) \<noteq> Token t"
  by (auto simp: handleTestConnect_def handleLiveness_def handleReadiness_def handleStatic_def reply_def http_Error_def
      with_allow_def Let_def split: http_method.splits sum.splits option.splits opened.splits)

text \<open>A token is issued only to somebody who logs in, and expires eight hours later.\<close>

lemma serve_token:
  assumes "rbody (snd (serve env (ep, r) x)) = Token t"
  shows "logged_in env (ep, r) \<and> (\<exists>u. we_sign env u (token_exp (rq_time r)) = Inr t)"
proof -
  have "ep = LoginEp \<and> rbody (handleLogin env (rq_time r) (rq_method r) (rq_raw r)) = Token t"
    using assms
    by (auto simp: serve_def Let_def handler_tokens other_tokens reply_def http_Error_def dest!: EnsureAuth_token
        split: if_splits endpoint.splits)
  then show ?thesis
    by (auto simp: handleLogin_def logged_in_def generateJWT_def http_Error_def reply_def with_allow_def
        split: http_method.splits sum.splits if_splits)
qed

lemma serve_all_nth:
  "i < length ers \<Longrightarrow>
     serve env (ers ! i) (fst (serve_all env ers x) ! i) = (fst (serve_all env ers x) ! Suc i, snd (serve_all env ers x) ! i)"
proof (induction ers arbitrary: x i)
  case (Cons er ers)
  obtain x' resp where st: "serve env er x = (x', resp)" by fastforce
  have hd: "fst (serve_all env ers x') ! 0 = x'" by (cases ers) (auto simp: Let_def split: prod.split)
  show ?case
  proof (cases i)
    case 0
    with st hd show ?thesis by (simp add: Let_def case_prod_beta)
  next
    case (Suc j)
    with Cons st show ?thesis by (simp add: Let_def case_prod_beta)
  qed
qed simp

text \<open>
  C9: Every change of the configuration over the web interface follows a login with the right password less
  than eight hours before. This rests on the token library: a token it accepts was signed with the key of this process and
  has not expired, the expiry can be read off a signed token, and a client only holds
  signed tokens that the server gave out.
\<close>

theorem changes_need_login:
  fixes env :: "('s, 'm, 'tok, 'raw) web_env"
  assumes parse: "\<And>now t. we_parse env now t = None \<Longrightarrow> \<exists>u e. we_sign env u e = Inr t \<and> now < e"
    and sign: "\<And>u e u' e' t. we_sign env u e = Inr t \<Longrightarrow> we_sign env u' e' = Inr t \<Longrightarrow> e = e'"
    and served: "serve_all env ers x = (xs, resps)"
    and issued: "\<And>i t u e. i < length ers \<Longrightarrow> request_token (snd (ers ! i)) = Some t \<Longrightarrow> we_sign env u e = Inr t \<Longrightarrow>
      \<exists>j<i. rbody (resps ! j) = Token t"
    and change: "i < length ers" "xs ! Suc i \<noteq> xs ! i"
  shows "is_change (rq_method (snd (ers ! i))) \<and>
    (\<exists>j<i. logged_in env (ers ! j) \<and> rq_time (snd (ers ! i)) < rq_time (snd (ers ! j)) + Hour * 8)"
proof -
  obtain ep r where er: "ers ! i = (ep, r)" by fastforce
  have "serve env (ep, r) (xs ! i) = (xs ! Suc i, resps ! i)"
    using serve_all_nth [OF change(1), of env x] served er by simp
  then have valid: "validateToken env r = None" and ch: "is_change (rq_method r)"
    using serve_changes [of env ep r "xs ! i"] change(2) by auto
  from valid obtain t where t: "request_token r = Some t" "we_parse env (unix_time (rq_time r)) t = None"
    by (auto simp: validateToken_def split: option.splits)
  from parse [OF t(2)] obtain u e where ue: "we_sign env u e = Inr t" "unix_time (rq_time r) < e" by blast
  from issued [OF change(1) _ ue(1)] t(1) er obtain j where j: "j < i" "rbody (resps ! j) = Token t" by auto
  obtain ep' r' where er': "ers ! j = (ep', r')" by fastforce
  have "serve env (ep', r') (xs ! j) = (xs ! Suc j, resps ! j)"
    using serve_all_nth [of j ers env x] served er' j(1) change(1) by simp
  then have login: "logged_in env (ep', r')" and "\<exists>u. we_sign env u (token_exp (rq_time r')) = Inr t"
    using serve_token [of env ep' r' "xs ! j" t] j(2) by auto
  then have "e = token_exp (rq_time r')" using sign ue(1) by blast
  with ue(2) have "unix_time (rq_time r) < unix_time (rq_time r' + Hour * 8)" by (simp add: token_exp_def)
  then have "rq_time r < rq_time r' + Hour * 8"
    unfolding unix_time_def using zdiv_mono1 [of "rq_time r' + Hour * 8" "rq_time r" Second] by (force simp: Second_def)
  with ch login er er' j(1) show ?thesis by auto
qed

text \<open>
  A token library for the witnesses: a token is the name and the expiry. A body is a login or a source.
\<close>

type_synonym sample_token = "string \<times> int"
type_synonym sample_raw = "login_req + source"

definition sample_env :: "(source_table, config_db, sample_token, sample_raw) web_env" where
  "sample_env = \<lparr>we_WebUser = ''admin'', we_WebPassword = ''pw'',
     we_json_source = case_sum (\<lambda>_. Inl (ErrText ''json'')) Inr, we_json_metric = (\<lambda>_. Inl (ErrText ''json'')),
     we_json_metrics = (\<lambda>_. Inl (ErrText ''json'')), we_json_preset = (\<lambda>_. Inl (ErrText ''json'')),
     we_json_presets = (\<lambda>_. Inl (ErrText ''json'')), we_json_login = case_sum Inr (\<lambda>_. Inl (ErrText ''json'')),
     we_sign = (\<lambda>u e. Inr (u, e)), we_parse = (\<lambda>now t. if now < snd t then None else Some (ErrText ''expired'')),
     we_GetSources = pg_GetSources None, we_CreateSource = pg_CreateSource None, we_UpdateSource = pg_UpdateSource None,
     we_DeleteSource = pg_DeleteSource None, we_GetMetrics = pg_GetMetrics None, we_CreateMetric = pg_CreateMetric None,
     we_UpdateMetric = pg_UpdateMetric None, we_DeleteMetric = pg_DeleteMetric None, we_CreatePreset = pg_CreatePreset None,
     we_UpdatePreset = pg_UpdatePreset None, we_DeletePreset = pg_DeletePreset None, we_Ping = (\<lambda>_. None),
     we_ready = True, we_ctxErr = None, we_WebDisable = [], we_WebBasePath = [], we_indexHTML = [],
     we_open = (\<lambda>_. NotExist)\<rparr>"

definition sample_request :: "int \<Rightarrow> http_method \<Rightarrow> sample_token option \<Rightarrow> sample_raw \<Rightarrow> (sample_token, sample_raw) request" where
  "sample_request t meth tok raw = \<lparr>rq_time = t, rq_method = meth, rq_header = [tok], rq_query = None, rq_raw = Inr raw\<rparr>"

definition sample_login :: "endpoint \<times> (sample_token, sample_raw) request" where
  "sample_login = (LoginEp, sample_request 0 MethodPost None (Inl \<lparr>Username = ''admin'', Password = ''pw''\<rparr>))"

definition sample_db :: config_db where "sample_db = \<lparr>t_metric = [], t_preset = []\<rparr>"

lemmas sample_eval = sample_env_def sample_request_def sample_login_def sample_db_def serve_def EnsureAuth_def validateToken_def
  request_token_def unix_time_def token_exp_def Second_def Minute_def Hour_def handleLogin_def IsCorrectPassword_def
  generateJWT_def http_Error_def reply_def on_sources_def handleSources_def web_CreateSource_def pg_CreateSource_def

theorem changes_need_login_witness:
  "let md = sample_source ''a'' ''postgresql://a'';
       ers = [sample_login, (SourcesEp, sample_request Hour MethodPost (Some (''admin'', 28800)) (Inr md))];
       (xs, resps) = serve_all sample_env ers ([], sample_db)
   in xs ! 2 \<noteq> xs ! 1 \<and> is_change (rq_method (snd (ers ! 1))) \<and>
      (\<exists>j<1. logged_in sample_env (ers ! j) \<and> rq_time (snd (ers ! 1)) < rq_time (snd (ers ! j)) + Hour * 8)"
proof -
  define md where "md = sample_source ''a'' ''postgresql://a''"
  define ers where "ers = [sample_login, (SourcesEp, sample_request Hour MethodPost (Some (''admin'', 28800)) (Inr md))]"
  define xs where "xs = [([], sample_db), ([], sample_db), ([(Name md, source_to_row md)], sample_db)]"
  define resps where "resps = [reply 200 (Token (''admin'', 28800)), reply 201 NoBody :: sample_token response]"
  have run: "serve_all sample_env ers ([], sample_db) = (xs, resps)"
    unfolding ers_def xs_def resps_def by (simp add: sample_eval)
  have change: "xs ! Suc 1 \<noteq> xs ! 1" by (simp add: xs_def)
  have "is_change (rq_method (snd (ers ! 1))) \<and>
      (\<exists>j<1. logged_in sample_env (ers ! j) \<and> rq_time (snd (ers ! 1)) < rq_time (snd (ers ! j)) + Hour * 8)"
  proof (rule changes_need_login [OF _ _ run _ _ change])
    fix i t u e assume "i < length ers" "request_token (snd (ers ! i)) = Some t"
    then show "\<exists>j<i. rbody (resps ! j) = Token t"
      by (auto simp: ers_def resps_def sample_eval less_Suc_eq)
  qed (auto simp: sample_env_def ers_def split: if_splits)
  with change show ?thesis
    unfolding Let_def md_def [symmetric] ers_def [symmetric] run prod.case by (simp only: numeral_2_eq_2 One_nat_def simp_thms)
qed

section \<open>The sources behind the interface are a map\<close>

text \<open>The change of the sources a request asks for, if it is authorised and well-formed.\<close>

definition source_effect :: "('s, 'm, 'tok, 'raw) web_env \<Rightarrow> endpoint \<times> ('tok, 'raw) request \<Rightarrow> (string, source) store_op option" where
  "source_effect env er =
     (case er of (ep, r) \<Rightarrow>
        if validateToken env r \<noteq> None then None
        else case (ep, rq_method r, rq_raw r) of
          (SourcesEp, MethodPost, Inr p) \<Rightarrow>
            (case we_json_source env p of Inr md \<Rightarrow> Some (Add (Name md) md) | Inl _ \<Rightarrow> None)
        | (SourceEp name, MethodPut, Inr p) \<Rightarrow>
            (case we_json_source env p of
               Inr md \<Rightarrow> if name \<noteq> [] \<and> Name md = name then Some (Put name md) else None
             | Inl _ \<Rightarrow> None)
        | (SourceEp name, MethodDelete, _) \<Rightarrow> if name \<noteq> [] then Some (Remove name) else None
        | _ \<Rightarrow> None)"

text \<open>The specification: the requests answered with success, applied to a map.\<close>

fun api_spec :: "('s, 'm, 'tok, 'raw) web_env \<Rightarrow> (source \<Rightarrow> source) \<Rightarrow> (endpoint \<times> ('tok, 'raw) request) list \<Rightarrow> 'tok response list
    \<Rightarrow> (string \<rightharpoonup> source) \<Rightarrow> (string \<rightharpoonup> source)" where
  "api_spec env nrm (er # ers) (resp # resps) m =
     api_spec env nrm ers resps
       (case source_effect env er of Some opn \<Rightarrow> if status resp < 300 then map_op nrm opn m else m | None \<Rightarrow> m)"
| "api_spec env nrm _ _ m = m"

text \<open>
  What the interface relies on: its storage is a \<open>kv_store\<close>, and the list it reads holds the entries of the map.
\<close>

locale source_api = kv_store view "\<lambda>_. we_UpdateSource env" "\<lambda>_. we_CreateSource env" "we_DeleteSource env" inv ok nrm
  for env :: "('s, 'm, 'tok, 'raw) web_env" and view inv ok nrm +
  assumes listed: "view s = Some m \<Longrightarrow>
    \<exists>xs. we_GetSources env s = Inr xs \<and> (\<forall>n. map_option nrm (find (\<lambda>md. Name md = n) xs) = m n)"
begin

lemma item_served:
  assumes "view s = Some m" "name \<noteq> []"
  shows "case snd (handleSourceItem env MethodGet raw name s) of resp \<Rightarrow>
    (case m name of None \<Rightarrow> status resp = 404 | Some v \<Rightarrow> status resp = 200 \<and> (\<exists>md. rbody resp = OneSource md \<and> nrm md = v))"
proof -
  from listed [OF assms(1)] obtain xs where xs: "we_GetSources env s = Inr xs"
    "m name = map_option nrm (find (\<lambda>md. Name md = name) xs)" by (metis)
  then show ?thesis using assms(2)
    by (cases "find (\<lambda>md. Name md = name) xs") (auto simp: handleSourceItem_def getSourceByName_def http_Error_def reply_def)
qed

lemma created:
  assumes "inv s" "view s = Some m" "we_json_source env p = Inr md" "ok (Name md) md"
    "handleSources env MethodPost (Inr p) s = (s', resp)"
  shows "inv s' \<and> view s' = Some (if status resp < 300 then m(Name md \<mapsto> nrm md) else m)"
proof -
  obtain s1 e where c: "we_CreateSource env md s = (s1, e)" by fastforce
  from assms(1-4) add_ok [where s = s and k = "Name md" and v = md and s' = s1] add_err [where v = md and s = s and s' = s1] assms(5) c show ?thesis
    by (cases e) (auto simp: handleSources_def web_CreateSource_def http_Error_def reply_def split: if_splits)
qed

lemma updated:
  assumes "inv s" "view s = Some m" "we_json_source env p = Inr md" "ok (Name md) md" "Name md \<noteq> []"
    "handleSourceItem env MethodPut (Inr p) (Name md) s = (s', resp)"
  shows "inv s' \<and> view s' = Some (if status resp < 300 then m(Name md \<mapsto> nrm md) else m)"
proof -
  obtain s1 e where c: "we_UpdateSource env md s = (s1, e)" by fastforce
  from assms(1-5) put_ok [where s = s and k = "Name md" and v = md and s' = s1] put_err [where v = md and s = s and s' = s1] assms(6) c show ?thesis
    by (cases e) (auto simp: handleSourceItem_def updateSourceByName_def http_Error_def reply_def)
qed

lemma deleted:
  assumes "inv s" "view s = Some m" "name \<noteq> []" "handleSourceItem env MethodDelete raw name s = (s', resp)"
  shows "inv s' \<and> view s' = Some (if status resp < 300 then m(name := None) else m)"
proof -
  obtain s1 e where c: "we_DeleteSource env name s = (s1, e)" by fastforce
  from assms(1-3) remove_ok [of s name s1] remove_err [of name s s1] assms(4) c show ?thesis
    by (cases e) (auto simp: handleSourceItem_def deleteSourceByName_def http_Error_def reply_def)
qed

end

text \<open>A request without an effect on the sources leaves their storage as it is.\<close>

lemma no_effect:
  assumes "source_effect env (ep, r) = None" "serve env (ep, r) x = (x', resp)"
  shows "fst x' = fst x"
proof (rule ccontr)
  assume ne: "fst x' \<noteq> fst x"
  then have ch: "validateToken env r = None \<and> is_change (rq_method r)" using serve_changes [of env ep r x] assms(2) by auto
  from ne assms(2) have "ep = SourcesEp \<or> (\<exists>n. ep = SourceEp n)"
    by (auto simp: serve_def Let_def EnsureAuth_def on_metrics_def split: if_splits endpoint.splits option.splits prod.splits)
  with ne assms ch show False
    by (auto simp: serve_def Let_def EnsureAuth_def on_sources_def is_change_def source_effect_def handleSources_def
        web_CreateSource_def handleSourceItem_def updateSourceByName_def split: sum.splits if_splits prod.splits)
qed

lemma source_effect_cases:
  assumes "source_effect env (ep, r) = Some opn"
  obtains (create) p md where "ep = SourcesEp" "rq_method r = MethodPost" "rq_raw r = Inr p" "we_json_source env p = Inr md"
      "opn = Add (Name md) md" "validateToken env r = None"
    | (update) p md where "ep = SourceEp (Name md)" "rq_method r = MethodPut" "rq_raw r = Inr p"
      "we_json_source env p = Inr md" "Name md \<noteq> []" "opn = Put (Name md) md" "validateToken env r = None"
    | (delete) name where "ep = SourceEp name" "rq_method r = MethodDelete" "name \<noteq> []" "opn = Remove name"
      "validateToken env r = None"
  using assms
  by (auto simp: source_effect_def split: if_splits endpoint.splits http_method.splits sum.splits)

context source_api
begin

lemma request_step:
  assumes "inv (fst x)" "view (fst x) = Some m" "serve env (ep, r) x = (x', resp)"
    and ok: "\<And>opn. source_effect env (ep, r) = Some opn \<Longrightarrow> store_op_ok ok opn"
  shows "inv (fst x') \<and> view (fst x') =
    Some (case source_effect env (ep, r) of Some opn \<Rightarrow> if status resp < 300 then map_op nrm opn m else m | None \<Rightarrow> m)"
proof (cases "source_effect env (ep, r)")
  case None
  with no_effect [OF None assms(3)] assms(1,2) show ?thesis by simp
next
  case (Some opn)
  note okop = ok [OF Some]
  from Some show ?thesis
  proof (cases rule: source_effect_cases)
    case (create p md)
    with assms(3) have "handleSources env MethodPost (Inr p) (fst x) = (fst x', resp)"
      by (auto simp: serve_def EnsureAuth_def on_sources_def split: prod.splits)
    from created [OF assms(1,2) create(4) _ this] okop create Some show ?thesis by simp
  next
    case (update p md)
    with assms(3) have "handleSourceItem env MethodPut (Inr p) (Name md) (fst x) = (fst x', resp)"
      by (auto simp: serve_def EnsureAuth_def on_sources_def split: prod.splits)
    from updated [OF assms(1,2) update(4) _ update(5) this] okop update Some show ?thesis by simp
  next
    case (delete name)
    with assms(3) have "handleSourceItem env MethodDelete (rq_raw r) name (fst x) = (fst x', resp)"
      by (auto simp: serve_def EnsureAuth_def on_sources_def split: prod.splits)
    from deleted [OF assms(1,2) delete(3) this] delete Some show ?thesis by simp
  qed
qed

lemma requests_refine:
  assumes "inv (fst x)" "view (fst x) = Some m" "serve_all env ers x = (xs, resps)"
    and "\<And>er opn. er \<in> set ers \<Longrightarrow> source_effect env er = Some opn \<Longrightarrow> store_op_ok ok opn"
  shows "inv (fst (last xs)) \<and> view (fst (last xs)) = Some (api_spec env nrm ers resps m)"
  using assms
proof (induction ers arbitrary: x m xs resps)
  case (Cons er ers)
  obtain x1 resp where st: "serve env er x = (x1, resp)" by fastforce
  obtain ys rs where run: "serve_all env ers x1 = (ys, rs)" by fastforce
  have eq: "xs = x # ys" "resps = resp # rs" using Cons.prems(3) st run by auto
  have "ys \<noteq> []" using run by (cases ers) (auto split: prod.splits)
  obtain ep r where er: "er = (ep, r)" by fastforce
  from request_step [OF Cons.prems(1,2) st [unfolded er]] Cons.prems(4) er
  have x1: "inv (fst x1)" "view (fst x1) =
      Some (case source_effect env er of Some opn \<Rightarrow> if status resp < 300 then map_op nrm opn m else m | None \<Rightarrow> m)"
    by auto
  have "op_ok opn" if "e \<in> set ers" "source_effect env e = Some opn" for e opn
    using Cons.prems(4) [OF _ that(2)] that(1) by simp
  from Cons.IH [OF x1 run this] \<open>ys \<noteq> []\<close> show ?case by (simp add: eq)
qed auto

end

lemma find_by_name: "map_option filled (find (\<lambda>md. Name md = n) xs) = by_name xs n"
  by (induction xs) (auto simp: by_name_def)

interpretation pg_api: source_api "pg_web None env" pg_view "\<lambda>_. True" "\<lambda>k md. k = Name md" filled
proof (intro source_api.intro source_api_axioms.intro)
  show "kv_store pg_view (\<lambda>_. we_UpdateSource (pg_web None env)) (\<lambda>_. we_CreateSource (pg_web None env))
     (we_DeleteSource (pg_web None env)) (\<lambda>_. True) (\<lambda>k md. k = Name md) filled"
    using pg_sources.kv_store_axioms [of None] by (simp add: pg_web_def)
qed (auto simp: pg_web_def pg_view_def find_by_name split: sum.splits)

interpretation yaml_api: source_api "yaml_web getenv werr env" "yaml_view getenv" "yaml_inv getenv" "yaml_ok getenv" filled
proof (intro source_api.intro source_api_axioms.intro)
  show "kv_store (yaml_view getenv) (\<lambda>_. we_UpdateSource (yaml_web getenv werr env)) (\<lambda>_. we_CreateSource (yaml_web getenv werr env))
     (we_DeleteSource (yaml_web getenv werr env)) (yaml_inv getenv) (yaml_ok getenv) filled"
    using yaml_sources.kv_store_axioms [of getenv werr] by (simp add: yaml_web_def)
qed (auto simp: yaml_web_def yaml_view_def find_by_name split: sum.splits)

lemma pg_requests_view:
  assumes "serve_all (pg_web None env) ers (tab, db) = (xs, resps)"
  shows "(\<lambda>n. map_option (row_to_source n) (gget (fst (last xs)) n)) =
    api_spec (pg_web None env) filled ers resps (\<lambda>n. map_option (row_to_source n) (gget tab n))"
proof -
  have "store_op_ok (\<lambda>k md. k = Name md) opn" if "source_effect (pg_web None env) er = Some opn" for er opn
    using that by (cases er) (auto elim!: source_effect_cases)
  from pg_api.requests_refine [of "(tab, db)", OF _ _ assms this] show ?thesis by (simp add: pg_view_eq)
qed


lemma pg_web_sample: "pg_web None sample_env = sample_env"
  by (simp add: pg_web_def sample_env_def)


text \<open>The same for a server on YAML files, for sources without references to environment variables.\<close>

lemma yaml_rest_api_refines:
  assumes "yaml_inv getenv node" "yaml_view getenv node = Some m"
    and "serve_all (yaml_web getenv werr env) ers (node, mnode) = (xs, resps)" "name \<noteq> []"
    and "\<And>er opn. er \<in> set ers \<Longrightarrow> source_effect (yaml_web getenv werr env) er = Some opn \<Longrightarrow> store_op_ok (yaml_ok getenv) opn"
  shows "case snd (handleSourceItem (yaml_web getenv werr env) MethodGet raw name (fst (last xs))) of resp \<Rightarrow>
    (case api_spec (yaml_web getenv werr env) filled ers resps m name of
       None \<Rightarrow> status resp = 404
     | Some v \<Rightarrow> status resp = 200 \<and> (\<exists>md. rbody resp = OneSource md \<and> filled md = v))"
  using yaml_api.requests_refine [OF _ _ assms(3,5)] assms(1,2,4) by (intro yaml_api.item_served) auto

section \<open>Bulk creation\<close>

context kv_store
begin

lemma create_all_prefix:
  assumes "inv s" "get s = Some m" "\<forall>(k, v) \<in> set named. ok k v" "create_all add named s = (s', err)"
  shows "\<exists>dn rest. named = dn @ rest \<and> get s' = Some (m ++ map_of (rev (map (apsnd nrm) dn))) \<and>
    (case err of None \<Rightarrow> rest = [] | Some e \<Rightarrow> \<exists>k v rest'. rest = (k, v) # rest' \<and> add k v s' = (s', Some e))"
  using assms
proof (induction named arbitrary: s m)
  case Nil
  then show ?case by simp
next
  case (Cons kv named)
  obtain k v where kv: "kv = (k, v)" by fastforce
  obtain s1 e1 where a: "add k v s = (s1, e1)" by fastforce
  show ?case
  proof (cases e1)
    case (Some e)
    with a add_err have "s1 = s" by blast
    with Cons.prems kv a Some have "s' = s" "err = Some e" by auto
    with Cons.prems(2) a Some \<open>s1 = s\<close> kv show ?thesis by (intro exI [of _ "[]"] exI [of _ "kv # named"]) auto
  next
    case None
    have okk: "ok k v" using Cons.prems(3) kv by simp
    from add_ok [OF Cons.prems(1) okk a [unfolded None]] Cons.prems(2)
    have s1: "inv s1" "get s1 = Some (m(k \<mapsto> nrm v))" by auto
    have "create_all add named s1 = (s', err)" using Cons.prems(4) kv a None by simp
    moreover have "\<forall>(k, v) \<in> set named. ok k v" using Cons.prems(3) by simp
    ultimately obtain dn rest where d: "named = dn @ rest"
      "get s' = Some (m(k \<mapsto> nrm v) ++ map_of (rev (map (apsnd nrm) dn)))"
      "case err of None \<Rightarrow> rest = [] | Some e \<Rightarrow> \<exists>k v rest'. rest = (k, v) # rest' \<and> add k v s' = (s', Some e)"
      using Cons.IH [OF s1] by blast
    then show ?thesis by (intro exI [of _ "kv # dn"] exI [of _ rest]) (auto simp: kv map_add_assoc)
  qed
qed

end

text \<open>
  A request that creates several metrics is no transaction. In whatever order the map is traversed, the metrics ahead of the
  first that is refused are created and stay; the answer is 201 exactly when none is refused, and 409 when the
  one refused has a query but its name is taken.
\<close>

theorem bulk_creation:
  assumes "we_json_metrics env p = Inr named" "named \<noteq> []"
    and "handleMetrics (pg_web None env) MethodPost (Inr p) db = (db', resp)"
  shows "\<exists>dn rest. named = dn @ rest \<and> gget (t_metric db') = gget (t_metric db) ++ map_of (rev dn) \<and>
    (status resp = 201 \<longleftrightarrow> rest = []) \<and>
    (\<forall>k v rest'. rest = (k, v) # rest' \<longrightarrow> SQLs v = [] \<or> ghas (t_metric db') k) \<and>
    (\<forall>k v rest'. rest = (k, v) # rest' \<and> SQLs v \<noteq> [] \<longrightarrow> status resp = 409)"
proof -
  obtain m' err where c: "create_all (pg_CreateMetric None) named db = (m', err)" by fastforce
  from assms(3) have r: "db' = m'" "status resp = (case err of None \<Rightarrow> 201 | Some e \<Rightarrow> if errors_Is e ErrMetricExists then 409 else 500)"
    by (auto simp: handleMetrics_def web_CreateMetric_def pg_web_def assms(1,2) c http_Error_def reply_def split: option.splits)
  from pg_metrics.create_all_prefix [OF _ _ _ c] obtain dn rest where d: "named = dn @ rest"
    "pg_metric_view m' = Some (map_of (t_metric db) ++ map_of (rev (map (apsnd id) dn)))"
    "case err of None \<Rightarrow> rest = [] | Some e \<Rightarrow> \<exists>k v rest'. rest = (k, v) # rest' \<and> pg_CreateMetric None k v m' = (m', Some e)"
    by (auto simp: pg_metric_view_eq)
  have "apsnd id = (id :: string \<times> metric \<Rightarrow> _)" by auto
  with d(2) r(1) have t: "gget (t_metric db') = gget (t_metric db) ++ map_of (rev dn)" by (simp add: pg_metric_view_eq)
  show ?thesis
    by (rule exI [of _ dn], rule exI [of _ rest])
      (use d(1,3) r t in \<open>auto simp: pg_CreateMetric_def null_error_def split: option.splits if_splits\<close>)
qed

definition sample_metrics :: "(string, metric) gomap" where
  "sample_metrics = [(''cpu'', plain_metric [(11, ''select 1'')]), (''wal'', plain_metric [(11, ''select 2'')])]"

text \<open>\<open>wal\<close> is there already: \<open>cpu\<close> stays created although the answer is an error.\<close>

theorem bulk_creation_witness:
  "let env = sample_env\<lparr>we_json_metrics := \<lambda>_. Inr sample_metrics\<rparr>;
       db = \<lparr>t_metric = [(''wal'', plain_metric [(11, ''select 0'')])], t_preset = []\<rparr>;
       (db', resp) = handleMetrics (pg_web None env) MethodPost (Inr (Inl \<lparr>Username = [], Password = []\<rparr>)) db
   in status resp = 409 \<and> ghas (t_metric db') ''cpu'' \<and>
      (\<exists>dn rest. sample_metrics = dn @ rest \<and> gget (t_metric db') = gget (t_metric db) ++ map_of (rev dn) \<and> rest \<noteq> [])"
proof -
  define env where "env = sample_env\<lparr>we_json_metrics := \<lambda>_. Inr sample_metrics\<rparr>"
  define db where "db = \<lparr>t_metric = [(''wal'', plain_metric [(11, ''select 0'')])], t_preset = []\<rparr>"
  define p :: sample_raw where "p = Inl \<lparr>Username = [], Password = []\<rparr>"
  obtain db' resp where h: "handleMetrics (pg_web None env) MethodPost (Inr p) db = (db', resp)" by fastforce
  have st: "status resp = 409" and cpu: "ghas (t_metric db') ''cpu''"
    using h by (auto simp: env_def db_def handleMetrics_def web_CreateMetric_def pg_web_def sample_env_def sample_metrics_def
        pg_CreateMetric_def plain_metric_def http_Error_def)
  have j: "we_json_metrics env p = Inr sample_metrics" "sample_metrics \<noteq> []" by (simp_all add: env_def sample_metrics_def)
  from bulk_creation [OF j h] st cpu show ?thesis
    unfolding Let_def env_def [symmetric] db_def [symmetric] p_def [symmetric] h prod.case by fastforce
qed

section \<open>Well-typed tables\<close>

text \<open>The constraints of the tables that the programs rely on: unique names, and a query for every metric.\<close>

definition config_typed :: "source_table \<times> config_db \<Rightarrow> bool" where
  "config_typed x \<longleftrightarrow> gwf (fst x) \<and> gwf (t_metric (snd x)) \<and> gwf (t_preset (snd x)) \<and>
     (\<forall>(n, v) \<in> set (t_metric (snd x)). SQLs v \<noteq> [])"

text \<open>A handler keeps what the operations of its storage keep.\<close>

lemma source_handlers_keep:
  assumes "\<And>md s. P s \<Longrightarrow> P (fst (we_CreateSource env md s))" "\<And>md s. P s \<Longrightarrow> P (fst (we_UpdateSource env md s))"
    "\<And>n s. P s \<Longrightarrow> P (fst (we_DeleteSource env n s))" "P s"
  shows "P (fst (handleSources env meth raw s))" "P (fst (handleSourceItem env meth raw name s))"
  using assms(1) [OF assms(4)] assms(2) [OF assms(4)] assms(3) [OF assms(4)] assms(4)
  by (auto simp: handleSources_def web_CreateSource_def handleSourceItem_def updateSourceByName_def deleteSourceByName_def
      split: http_method.split sum.split option.split prod.split) (metis fst_conv)+

lemma create_all_keeps:
  assumes "\<And>n v m. P m \<Longrightarrow> P (fst (create n v m))" "P m"
  shows "P (fst (create_all create named m))"
  using assms(2)
proof (induction named arbitrary: m)
  case (Cons nv named)
  obtain n v where nv: "nv = (n, v)" by fastforce
  obtain m1 e where c: "create n v m = (m1, e)" by fastforce
  from assms(1) [OF Cons.prems, of n v] c have "P m1" by simp
  with Cons.IH c nv show ?case by (cases e) auto
qed simp

lemma metric_handlers_keep:
  assumes "\<And>n v m. P m \<Longrightarrow> P (fst (we_CreateMetric env n v m))" "\<And>n v m. P m \<Longrightarrow> P (fst (we_UpdateMetric env n v m))"
    "\<And>n m. P m \<Longrightarrow> P (fst (we_DeleteMetric env n m))" "P m"
  shows "P (fst (handleMetrics env meth raw m))" "P (fst (handleMetricItem env meth raw name m))"
  using create_all_keeps [of P "we_CreateMetric env", OF assms(1,4)] assms(2) [OF assms(4)] assms(3) [OF assms(4)] assms(4)
  by (auto simp: handleMetrics_def web_CreateMetric_def handleMetricItem_def updateMetricByName_def deleteMetricByName_def
      split: http_method.split sum.split option.split prod.split) (metis fst_conv)+

lemma preset_handlers_keep:
  assumes "\<And>n v m. P m \<Longrightarrow> P (fst (we_CreatePreset env n v m))" "\<And>n v m. P m \<Longrightarrow> P (fst (we_UpdatePreset env n v m))"
    "\<And>n m. P m \<Longrightarrow> P (fst (we_DeletePreset env n m))" "P m"
  shows "P (fst (handlePresets env meth raw m))" "P (fst (handlePresetItem env meth raw name m))"
  using create_all_keeps [of P "we_CreatePreset env", OF assms(1,4)] assms(2) [OF assms(4)] assms(3) [OF assms(4)] assms(4)
  by (auto simp: handlePresets_def web_CreatePreset_def handlePresetItem_def updatePresetByName_def deletePresetByName_def
      split: http_method.split sum.split option.split prod.split) (metis fst_conv)+

definition metric_tables_typed :: "config_db \<Rightarrow> bool" where
  "metric_tables_typed db \<longleftrightarrow> gwf (t_metric db) \<and> gwf (t_preset db) \<and> (\<forall>v \<in> ran (gget (t_metric db)). SQLs v \<noteq> [])"

lemma config_typed_iff: "config_typed x \<longleftrightarrow> gwf (fst x) \<and> metric_tables_typed (snd x)"
  by (auto simp: config_typed_def metric_tables_typed_def ran_distinct) force+

lemma map_fst_trigger: "map (fst \<circ> (\<lambda>(n, d, ms). (n, d, gdel name ms))) ps = map fst ps"
  by (induction ps) auto

lemma pg_metrics_typed:
  assumes "metric_tables_typed db"
  shows "metric_tables_typed (fst (pg_CreateMetric fail n v db))" "metric_tables_typed (fst (pg_UpdateMetric fail n v db))"
    "metric_tables_typed (fst (pg_DeleteMetric fail n db))" "metric_tables_typed (fst (pg_CreatePreset fail n pr db))"
    "metric_tables_typed (fst (pg_UpdatePreset fail n pr db))" "metric_tables_typed (fst (pg_DeletePreset fail n db))"
  using assms
  by (auto simp: metric_tables_typed_def pg_CreateMetric_def pg_UpdateMetric_def pg_DeleteMetric_def pg_CreatePreset_def
      pg_UpdatePreset_def pg_DeletePreset_def gomap_simps map_fst_trigger ran_def simp del: map_of_eq_Some_iff split: option.split if_splits)

lemma pg_sources_typed:
  assumes "gwf tab"
  shows "gwf (fst (pg_CreateSource fail md tab))" "gwf (fst (pg_UpdateSource fail md tab))" "gwf (fst (pg_DeleteSource fail n tab))"
  using assms by (simp_all add: pg_CreateSource_def pg_UpdateSource_def pg_DeleteSource_def split: option.split)

lemma pg_web_ops [simp]:
  "we_CreateSource (pg_web fail env) = pg_CreateSource fail" "we_UpdateSource (pg_web fail env) = pg_UpdateSource fail"
  "we_DeleteSource (pg_web fail env) = pg_DeleteSource fail" "we_CreateMetric (pg_web fail env) = pg_CreateMetric fail"
  "we_UpdateMetric (pg_web fail env) = pg_UpdateMetric fail" "we_DeleteMetric (pg_web fail env) = pg_DeleteMetric fail"
  "we_CreatePreset (pg_web fail env) = pg_CreatePreset fail" "we_UpdatePreset (pg_web fail env) = pg_UpdatePreset fail"
  "we_DeletePreset (pg_web fail env) = pg_DeletePreset fail"
  by (simp_all add: pg_web_def)

lemma serve_typed:
  assumes "config_typed x"
  shows "config_typed (fst (serve (pg_web fail env) er x))"
proof -
  obtain ep r where er: "er = (ep, r)" by fastforce
  from assms have x: "gwf (fst x)" "metric_tables_typed (snd x)" by (simp_all add: config_typed_iff)
  note src = source_handlers_keep [of gwf "pg_web fail env" "fst x", simplified, OF pg_sources_typed x(1)]
  note met = metric_handlers_keep [of metric_tables_typed "pg_web fail env" "snd x", simplified, OF pg_metrics_typed(1-3) x(2)]
  note pre = preset_handlers_keep [of metric_tables_typed "pg_web fail env" "snd x", simplified, OF pg_metrics_typed(4-6) x(2)]
  show ?thesis
    by (auto simp: er serve_def Let_def EnsureAuth_def config_typed_iff x src met pre split: endpoint.split option.split)
qed

lemma serve_all_typed:
  assumes "config_typed x" "serve_all (pg_web fail env) ers x = (xs, resps)" "y \<in> set xs"
  shows "config_typed y"
  using assms
proof (induction ers arbitrary: x xs resps)
  case (Cons er ers)
  obtain x1 resp where st: "serve (pg_web fail env) er x = (x1, resp)" by fastforce
  obtain ys rs where run: "serve_all (pg_web fail env) ers x1 = (ys, rs)" by fastforce
  have "config_typed x1" using serve_typed [OF Cons.prems(1), of fail env er] st by simp
  with Cons.IH [OF _ run] Cons.prems st run show ?case by auto
qed auto



end
