(* ===== verification/Config_Schema.thy ===== *)
theory Config_Schema
  imports Source_Store Metric_Store
begin

text \<open>
  The schema of the configuration database (\<open>internal/metrics/postgres_schema.go\<close>): creating it with the default
  definitions, and the migrations of its contents. Running the migrations that are missing is left to the library \<open>pgx-migrator\<close>;
  a migration is what its function does to the tables, in a transaction.
\<close>

section \<open>Creating the schema\<close>

record config_state =
  c_exists :: bool
  c_source :: source_table
  c_db :: config_db

text \<open>
  \<open>initSchema\<close>, in one transaction. \<open>exists\<close> is the answer to whether the schema exists, \<open>fail i\<close> the
  outcome of the \<open>i\<close>-th step of the transaction: its begin, the script, and the commit.
\<close>

definition no_tables :: config_db where "no_tables = \<lparr>t_metric = [], t_preset = []\<rparr>"

definition initSchema :: "goerr option \<Rightarrow> (nat \<Rightarrow> goerr option) \<Rightarrow> (nat \<Rightarrow> goerr option) \<Rightarrow> metrics \<Rightarrow> config_state
    \<Rightarrow> config_state \<times> goerr option" where
  "initSchema existsErr fail wfail defaults st =
     (case existsErr of
        Some err \<Rightarrow> (st, Some err)
      | None \<Rightarrow>
          if c_exists st then (st, None)
          else case fail 0 of
                 Some err \<Rightarrow> (st, Some err)
               | None \<Rightarrow>
                   (case fail 1 of
                      Some err \<Rightarrow> (st, Some err)
                    | None \<Rightarrow>
                        (case writeMetricsToPostgres wfail defaults no_tables of
                           (_, Some err) \<Rightarrow> (st, Some err)
                         | (db, None) \<Rightarrow>
                             (case fail 2 of
                                Some err \<Rightarrow> (st, Some err)
                              | None \<Rightarrow> (\<lparr>c_exists = True, c_source = [], c_db = db\<rparr>, None)))))"

section \<open>The migration of recommendations\<close>

definition recommendations :: string where "recommendations = ''recommendations''"

definition reco_metrics :: "(string, int) gomap" where
  "reco_metrics = [(''reco_add_index'', 43200), (''reco_default_public_schema'', 50400), (''reco_disabled_triggers'', 57600),
     (''reco_drop_index'', 64800), (''reco_nested_views'', 72000), (''reco_partial_index_candidates'', 79200),
     (''reco_sprocs_wo_search_path'', 86400), (''reco_superusers'', 93600)]"

text \<open>\<open>name LIKE 'reco_%'\<close>: the underscore stands for any one character.\<close>

definition like_reco :: "string \<Rightarrow> bool" where
  "like_reco name \<longleftrightarrow> HasPrefix name ''reco'' \<and> length name > 4"

definition set_storage :: "string \<times> metric \<Rightarrow> string \<times> metric" where
  "set_storage nm = (case nm of (n, m) \<Rightarrow> (n, if like_reco n \<and> StorageName m = [] then m\<lparr>StorageName := recommendations\<rparr> else m))"

text \<open>\<open>metrics - 'recommendations' || reco_metrics\<close> where the metric is present.\<close>

definition replace_reco :: "(string, int) gomap \<Rightarrow> (string, int) gomap" where
  "replace_reco ms = (if ghas ms recommendations then gcopy (gdel recommendations ms) reco_metrics else ms)"

definition replace_in_preset :: "string \<times> string \<times> (string, int) gomap \<Rightarrow> string \<times> string \<times> (string, int) gomap" where
  "replace_in_preset p =
     (case p of (n, d, ms) \<Rightarrow> (n, d, if n = ''exhaustive'' \<or> n = ''full'' then replace_reco ms else ms))"

definition replace_in_source :: "string \<times> source_row \<Rightarrow> string \<times> source_row" where
  "replace_in_source nr =
     (case nr of (n, r) \<Rightarrow> (n, r\<lparr>r_config := map_option replace_reco (r_config r),
                                 r_config_standby := map_option replace_reco (r_config_standby r)\<rparr>))"

definition migration_00824 :: "source_table \<times> config_db \<Rightarrow> source_table \<times> config_db" where
  "migration_00824 x =
     (let db = snd x;
          db = db\<lparr>t_metric := map set_storage (t_metric db)\<rparr>;
          db = fst (pg_DeleteMetric None recommendations db);
          db = db\<lparr>t_preset := map replace_in_preset (t_preset db)\<rparr>;
          db = (if ghas (t_preset db) recommendations then db
                else db\<lparr>t_preset := gset recommendations (''performance and security recommendations'', reco_metrics) (t_preset db)\<rparr>)
      in (map replace_in_source (fst x), db))"

text \<open>All migrations; the first does nothing and the last changes a constraint only.\<close>

definition MigrationsCount :: nat where "MigrationsCount = 3"

definition config_migrations :: "(string \<times> (source_table \<times> config_db \<Rightarrow> source_table \<times> config_db)) list" where
  "config_migrations =
     [(''00179 Apply metrics migrations for v3'', id), (''00824 Refactor recommendations'', migration_00824),
      (''01405 Add prometheus to source dbtype check constraint'', id)]"

section \<open>Theorems\<close>

text \<open>Creating the schema is atomic.\<close>

lemma initSchema_atomic: "initSchema ex fail wfail defaults st = (st', Some err) \<Longrightarrow> st' = st"
  by (auto simp: initSchema_def split: option.splits if_splits prod.splits)

lemma replace_reco_get:
  assumes "gget ms recommendations \<noteq> None"
  shows "gget (replace_reco ms) = (gget ms)(recommendations := None) ++ gget reco_metrics"
proof -
  have "gwf reco_metrics" by (simp add: reco_metrics_def)
  with assms show ?thesis by (simp add: replace_reco_def map_of_gcopy gomap_simps)
qed

lemma replace_reco_none: "gget (replace_reco ms) recommendations = None"
proof (cases "gget ms recommendations")
  case None
  then show ?thesis by (simp add: replace_reco_def)
next
  case (Some v)
  then have "gget (replace_reco ms) = (gget ms)(recommendations := None) ++ gget reco_metrics" by (intro replace_reco_get) simp
  then show ?thesis by (simp add: map_add_def reco_metrics_def recommendations_def)
qed

lemma gget_map_rows: "(\<And>n v. fst (f (n, v)) = n) \<Longrightarrow> gget (map f m) n = map_option (\<lambda>v. snd (f (n, v))) (gget m n)"
proof (induction m)
  case (Cons x m)
  obtain k v where x: "x = (k, v)" by fastforce
  obtain w where "f (k, v) = (k, w)" using Cons.prems [of k v] by (metis eq_fst_iff)
  with Cons x show ?case by simp
qed simp

lemma row_keys [simp]: "fst (set_storage nm) = fst nm" "fst (replace_in_preset p) = fst p" "fst (replace_in_source r) = fst r"
  by (simp_all add: set_storage_def replace_in_preset_def replace_in_source_def split: prod.split)

definition trigger_row :: "string \<times> string \<times> (string, int) gomap \<Rightarrow> string \<times> string \<times> (string, int) gomap" where
  "trigger_row p = (case p of (n, d, ms) \<Rightarrow> (n, d, gdel recommendations ms))"

lemma DeleteMetric_tables:
  "t_metric (fst (pg_DeleteMetric None n db)) = gdel n (t_metric db)"
  "ghas (t_metric db) recommendations \<Longrightarrow> t_preset (fst (pg_DeleteMetric None recommendations db)) = map trigger_row (t_preset db)"
  by (simp_all add: pg_DeleteMetric_def trigger_row_def)

lemma migration_presets:
  assumes "migration_00824 (tab, db) = (tab', db')" "ghas (t_metric db) recommendations" "n \<noteq> recommendations"
  shows "gget (t_preset db') n = map_option (\<lambda>(d, ms). (d, gdel recommendations ms)) (gget (t_preset db) n)"
proof -
  have has: "ghas (map set_storage (t_metric db)) recommendations" using assms(2) by (simp add: gget_map_rows)
  let ?ps = "map replace_in_preset (map trigger_row (t_preset db))"
  have "t_preset db' = (if ghas ?ps recommendations then ?ps
      else gset recommendations (''performance and security recommendations'', reco_metrics) ?ps)"
    using assms(1) DeleteMetric_tables(2) [of "db\<lparr>t_metric := map set_storage (t_metric db)\<rparr>"] has
    by (auto simp: migration_00824_def Let_def split: if_splits)
  then have "gget (t_preset db') n = gget ?ps n" using assms(3) by (simp add: gomap_simps)
  also have "\<dots> = map_option (\<lambda>v. snd (replace_in_preset (n, snd (trigger_row (n, v))))) (gget (t_preset db) n)"
  proof -
    have "fst (trigger_row p) = fst p" for p by (simp add: trigger_row_def split: prod.split)
    then show ?thesis by (simp add: gget_map_rows option.map_comp comp_def del: map_map)
  qed
  also have "\<dots> = map_option (\<lambda>(d, ms). (d, gdel recommendations ms)) (gget (t_preset db) n)"
    by (rule option.map_cong0)
      (auto simp: replace_in_preset_def trigger_row_def replace_reco_def gomap_simps split: prod.split)
  finally show ?thesis .
qed

text \<open>
  The migration of recommendations does what it means to for sources, but not for presets. In the configuration of a source the metric
  \<open>recommendations\<close> is replaced by the eight metrics with their intervals and all other entries stay. When the metric is in its table, deleting
  it removes it from all presets first, so the replacement in the presets \<open>exhaustive\<close> and \<open>full\<close>
  finds nothing to replace: they lose the metric and gain none of the eight.
\<close>

theorem migration_00824_effects:
  assumes "migration_00824 (tab, db) = (tab', db')"
    and "gget tab src = Some r" "r_config r = Some ms" "gget ms recommendations \<noteq> None"
    and "ghas (t_metric db) recommendations" "n = ''exhaustive'' \<or> n = ''full''" "gget (t_preset db) n = Some (d, ps)"
  shows "(\<exists>r' ms'. gget tab' src = Some r' \<and> r_config r' = Some ms' \<and>
      gget ms' = (gget ms)(recommendations := None) ++ gget reco_metrics) \<and>
    gget (t_metric db') recommendations = None \<and> ghas (t_preset db') recommendations \<and>
    gget (t_preset db') n = Some (d, gdel recommendations ps)"
proof -
  have "tab' = map replace_in_source tab" using assms(1) by (simp add: migration_00824_def Let_def)
  then have "gget tab' src = Some (r\<lparr>r_config := map_option replace_reco (r_config r),
      r_config_standby := map_option replace_reco (r_config_standby r)\<rparr>)"
    using assms(2) by (simp add: gget_map_rows replace_in_source_def)
  then have "\<exists>r' ms'. gget tab' src = Some r' \<and> r_config r' = Some ms' \<and>
      gget ms' = (gget ms)(recommendations := None) ++ gget reco_metrics"
    using assms(3) replace_reco_get [OF assms(4)] by simp
  moreover have "gget (t_metric db') recommendations = None"
    using assms(1) DeleteMetric_tables(1) [of recommendations "db\<lparr>t_metric := map set_storage (t_metric db)\<rparr>"]
    by (auto simp: migration_00824_def Let_def gomap_simps split: if_splits)
  moreover have "ghas (t_preset db') recommendations"
    using assms(1) by (auto simp: migration_00824_def Let_def gomap_simps split: if_splits)
  moreover have "gget (t_preset db') n = Some (d, gdel recommendations ps)"
  proof -
    have "n \<noteq> recommendations" using assms(6) by (auto simp: recommendations_def)
    with migration_presets [OF assms(1,5)] assms(7) show ?thesis by simp
  qed
  ultimately show ?thesis by blast
qed

text \<open>The pattern also matches the metric \<open>recovery\<close>, whose rows are stored with the recommendations from then on.\<close>

lemma recovery_redirected:
  assumes "migration_00824 (tab, db) = (tab', db')" "gget (t_metric db) ''recovery'' = Some m" "StorageName m = []"
  shows "gget (t_metric db') ''recovery'' = Some (m\<lparr>StorageName := recommendations\<rparr>)"
proof -
  have "like_reco ''recovery''" by (simp add: like_reco_def HasPrefix_def)
  moreover have "t_metric db' = gdel recommendations (map set_storage (t_metric db))"
    using assms(1) DeleteMetric_tables(1) [of recommendations "db\<lparr>t_metric := map set_storage (t_metric db)\<rparr>"]
    by (auto simp: migration_00824_def Let_def split: if_splits)
  ultimately show ?thesis using assms(2,3) by (simp add: gomap_simps gget_map_rows set_storage_def recommendations_def)
qed

theorem migration_00824_effects_witness:
  "let row = source_to_row ((sample_source ''a'' ''postgresql://a'')\<lparr>Metrics := Some [(recommendations, 60), (''wal'', 30)]\<rparr>);
       db = \<lparr>t_metric = [(recommendations, plain_metric [(11, ''select 1'')])], t_preset = [(''full'', ''all'', [(recommendations, 60)])]\<rparr>;
       (tab', db') = migration_00824 ([(''a'', row)], db)
   in gget (t_preset db') ''full'' = Some (''all'', gdel recommendations [(recommendations, 60)]) \<and>
      (\<exists>r' ms'. gget tab' ''a'' = Some r' \<and> r_config r' = Some ms' \<and> gget ms' ''reco_add_index'' = Some 43200)"
proof -
  define ms where "ms = [(recommendations, 60 :: int), (''wal'', 30)]"
  define row where "row = source_to_row ((sample_source ''a'' ''postgresql://a'')\<lparr>Metrics := Some ms\<rparr>)"
  define db where "db = \<lparr>t_metric = [(recommendations, plain_metric [(11, ''select 1'')])], t_preset = [(''full'', ''all'', [(recommendations, 60 :: int)])]\<rparr>"
  obtain tab' db' where m: "migration_00824 ([(''a'', row)], db) = (tab', db')" by fastforce
  have cfg: "r_config row = Some ms" by (simp add: row_def source_to_row_def MarshallParamToJSONB_def olen_def ms_def)
  have get: "gget ms recommendations \<noteq> None" "gget [(''a'', row)] ''a'' = Some row" "ghas (t_metric db) recommendations"
    "gget (t_preset db) ''full'' = Some (''all'', [(recommendations, 60)])" "''full'' = ''exhaustive'' \<or> ''full'' = ''full''"
    by (simp_all add: ms_def db_def)
  from migration_00824_effects [OF m get(2) cfg get(1,3) get(5,4)] obtain r' ms' where
    e: "gget tab' ''a'' = Some r'" "r_config r' = Some ms'" "gget ms' = (gget ms)(recommendations := None) ++ gget reco_metrics"
      "gget (t_preset db') ''full'' = Some (''all'', gdel recommendations [(recommendations, 60)])" by blast
  have "gget ms' ''reco_add_index'' = Some 43200" by (simp add: e(3) map_add_def reco_metrics_def)
  with e m show ?thesis
    unfolding Let_def ms_def [symmetric] row_def [symmetric] db_def [symmetric] m prod.case by blast
qed

end
