(* ===== verification/Sink_Upkeep.thy ===== *)
theory Sink_Upkeep
  imports Pg_Sink
begin

text \<open>
  What the PostgreSQL sink does to its database besides writing rows (\<open>internal/sinks/postgres.go\<close>): empty tables for known
  metrics, the listing of sources, and the maintenance job that drops old partitions and refreshes the listing. The statements call functions that pgwatch installs in the
  database (\<open>internal/sinks/sql/admin_functions.sql\<close>), which are modelled on the tables they read and change.

  The model is that of a database without TimescaleDB. A metric table is a list of partitions, a partition has its bounds and the
  source and time of each of its rows; times are nanoseconds. The order of strings stands for the collation of the
  database. An argument \<open>fail\<close> is the error of a statement that does not come through; then it changes nothing.
\<close>

section \<open>The database\<close>

record part =
  pFrom :: int
  pTo :: int
  pRows :: "(string \<times> int) list"

record upkeep_db =
  tables :: "(string, part list) gomap"
  listing :: "(string \<times> string) list"

definition table_rows :: "part list \<Rightarrow> (string \<times> int) list" where
  "table_rows ps = concat (map pRows ps)"

section \<open>Functions in the database\<close>

definition ensure_dummy_metrics_table :: "string \<Rightarrow> upkeep_db \<Rightarrow> upkeep_db \<times> bool" where
  "ensure_dummy_metrics_table metric db =
     (if ghas (tables db) metric then (db, False) else (db\<lparr>tables := gset metric [] (tables db)\<rparr>, True))"

definition is_old :: "int \<Rightarrow> int \<Rightarrow> part \<Rightarrow> bool" where
  "is_old now older_than p \<longleftrightarrow> pTo p < now - older_than"

definition drop_old_time_partitions :: "int \<Rightarrow> int \<Rightarrow> upkeep_db \<Rightarrow> upkeep_db \<times> nat" where
  "drop_old_time_partitions now older_than db =
     (db\<lparr>tables := map (\<lambda>(m, ps). (m, filter (\<lambda>p. \<not> is_old now older_than p) ps)) (tables db)\<rparr>,
      length (filter (is_old now older_than) (concat (map snd (tables db)))))"

text \<open>The recursive query that finds the sources of a table: from one name it looks up the next greater one.\<close>

fun min_str :: "string list \<Rightarrow> string option" where
  "min_str [] = None"
| "min_str (x # xs) = (case min_str xs of None \<Rightarrow> Some x | Some y \<Rightarrow> Some (if str_less y x then y else x))"

lemma str_less_asym: "str_less a b \<Longrightarrow> \<not> str_less b a"
  using str_less_trans str_less_irrefl by blast

lemma sorted_less_distinct: "sorted_wrt str_less xs \<Longrightarrow> distinct xs"
  by (induction xs) auto

lemma min_str_Some: "min_str xs = Some x \<Longrightarrow> x \<in> set xs \<and> (\<forall>y\<in>set xs. \<not> str_less y x)"
proof (induction xs arbitrary: x)
  case (Cons a xs)
  show ?case
  proof (cases "min_str xs")
    case None
    then have "xs = []" by (cases xs) (auto split: option.splits)
    with Cons.prems show ?thesis by simp
  next
    case (Some y)
    have y: "y \<in> set xs" "\<And>z. z \<in> set xs \<Longrightarrow> \<not> str_less z y" using Cons.IH [OF Some] by auto
    show ?thesis
    proof (cases "str_less y a")
      case True
      then have "x = y" "\<not> str_less a y" using Cons.prems Some str_less_asym by auto
      with y show ?thesis by simp
    next
      case False
      then have "\<not> str_less z a" if "z \<in> set xs" for z
        using y(2) [OF that] str_less_trans str_less_linear [of y a] by blast
      moreover have "x = a" using Cons.prems Some False by simp
      ultimately show ?thesis by simp
    qed
  qed
qed simp

lemma min_str_None [simp]: "min_str xs = None \<longleftrightarrow> xs = []"
  by (cases xs) (auto split: option.splits)

lemma skip_scan_shrinks:
  assumes "min_str (filter (str_less t) xs) = Some t'"
  shows "length (filter (str_less t') xs) < length (filter (str_less t) xs)"
proof -
  have t': "t' \<in> set xs" "str_less t t'" using min_str_Some [OF assms] by auto
  have "filter (str_less t') xs = filter (str_less t') (filter (str_less t) xs)"
    using t'(2) str_less_trans by (auto simp: intro!: filter_cong)
  also have "length \<dots> < length (filter (str_less t) xs)"
    using t' by (intro length_filter_less [of t']) auto
  finally show ?thesis .
qed

function skip_scan :: "string list \<Rightarrow> string option \<Rightarrow> string list" where
  "skip_scan xs None = []"
| "skip_scan xs (Some t) = t # skip_scan xs (min_str (filter (str_less t) xs))"
  by pat_completeness auto

termination
  by (relation "measure (\<lambda>(xs, t). case t of None \<Rightarrow> 0 | Some t \<Rightarrow> Suc (length (filter (str_less t) xs)))")
     (auto split: option.split dest: skip_scan_shrinks)

definition found_dbnames :: "part list \<Rightarrow> string list" where
  "found_dbnames ps = (let names = map fst (table_rows ps) in skip_scan names (min_str names))"

text \<open>
  One round of the loop in \<open>maintain_unique_sources\<close>. The condition of the insertion looks for \<^emph>\<open>any\<close> of the names, not for the one that is inserted.
\<close>

definition refresh_metric :: "string \<Rightarrow> part list \<Rightarrow> (string \<times> string) list \<Rightarrow> (string \<times> string) list \<times> nat" where
  "refresh_metric metric ps lst =
     (let found = found_dbnames ps
      in if found = []
         then (filter (\<lambda>(d, m). m \<noteq> metric) lst, length (filter (\<lambda>(d, m). m = metric) lst))
         else (let kept = filter (\<lambda>(d, m). \<not> (d \<notin> set found \<and> m = metric)) lst;
                   inserted = (if list_ex (\<lambda>(d, m). d \<in> set found \<and> m = metric) kept then [] else map (\<lambda>d. (d, metric)) found)
               in (kept @ inserted, length (filter (\<lambda>(d, m). d \<notin> set found \<and> m = metric) lst) + length inserted)))"

fun refresh_all :: "(string \<times> part list) list \<Rightarrow> (string \<times> string) list \<Rightarrow> (string \<times> string) list \<times> nat" where
  "refresh_all [] lst = (lst, 0)"
| "refresh_all ((metric, ps) # ts) lst =
     (let (lst, k) = refresh_metric metric ps lst; (lst, n) = refresh_all ts lst in (lst, k + n))"

definition maintain_unique_sources :: "bool \<Rightarrow> upkeep_db \<Rightarrow> upkeep_db \<times> nat" where
  "maintain_unique_sources locked db =
     (if locked then (db, 0)
      else (let (lst, n) = refresh_all (tables db) (listing db);
                metrics = gkeys (tables db)
            in (db\<lparr>listing := filter (\<lambda>(d, m). m \<in> set metrics) lst\<rparr>,
                n + length (filter (\<lambda>(d, m). m \<notin> set metrics) lst))))"

section \<open>The operations of the sink\<close>

definition EnsureMetricDummy :: "goerr option \<Rightarrow> string \<Rightarrow> upkeep_db \<Rightarrow> upkeep_db \<times> goerr option" where
  "EnsureMetricDummy fail metric db =
     (if fail = None then (fst (ensure_dummy_metrics_table metric db), None) else (db, fail))"

definition AddDBUniqueMetricToListingTable :: "goerr option \<Rightarrow> string \<Rightarrow> string \<Rightarrow> upkeep_db \<Rightarrow> upkeep_db \<times> goerr option" where
  "AddDBUniqueMetricToListingTable fail dbUnique metric db =
     (if fail = None
      then (if (dbUnique, metric) \<in> set (listing db) then db else db\<lparr>listing := listing db @ [(dbUnique, metric)]\<rparr>, None)
      else (db, fail))"

definition SyncMetric_db :: "(nat \<Rightarrow> goerr option) \<Rightarrow> string \<Rightarrow> string \<Rightarrow> sync_op \<Rightarrow> upkeep_db \<Rightarrow> upkeep_db \<times> goerr option" where
  "SyncMetric_db fail sourceName metricName opr db =
     (if opr = AddOp
      then (let (db, e1) = AddDBUniqueMetricToListingTable (fail 0) sourceName metricName db;
                (db, e2) = EnsureMetricDummy (fail 1) metricName db
            in (db, errors_Join [e1, e2]))
      else (db, None))"

text \<open>The two jobs; the second component is what is logged. The interval is the option itself, as PostgreSQL reads it.\<close>

datatype upkeep_log = DropFailed goerr | Dropped nat | MaintainFailed goerr | Maintained nat

definition DeleteOldPartitions :: "goerr option \<Rightarrow> int \<Rightarrow> int \<Rightarrow> upkeep_db \<Rightarrow> upkeep_db \<times> upkeep_log list" where
  "DeleteOldPartitions fail now retention db =
     (case fail of
        Some err \<Rightarrow> (db, [DropFailed err])
      | None \<Rightarrow> (let (db, partsDropped) = drop_old_time_partitions now retention db
                 in (db, if partsDropped > 0 then [Dropped partsDropped] else [])))"

definition MaintainUniqueSources :: "goerr option \<Rightarrow> bool \<Rightarrow> upkeep_db \<Rightarrow> upkeep_db \<times> upkeep_log list" where
  "MaintainUniqueSources fail locked db =
     (case fail of
        Some err \<Rightarrow> (db, [MaintainFailed err])
      | None \<Rightarrow> (let (db, rowsAffected) = maintain_unique_sources locked db in (db, [Maintained rowsAffected])))"

record job_env =
  je_now :: int
  je_dropFails :: "goerr option"
  je_maintainFails :: "goerr option"
  je_locked :: bool

definition maintenance_job :: "int \<Rightarrow> job_env \<Rightarrow> upkeep_db \<Rightarrow> upkeep_db \<times> upkeep_log list" where
  "maintenance_job retention env db =
     (let (db, l1) = DeleteOldPartitions (je_dropFails env) (je_now env) retention db;
          (db, l2) = MaintainUniqueSources (je_maintainFails env) (je_locked env) db
      in (db, l1 @ l2))"

section \<open>The sources of a table\<close>

lemma skip_scan_spec:
  "(\<forall>t. start = Some t \<longrightarrow> t \<in> set xs) \<Longrightarrow>
     set (skip_scan xs start) = {x \<in> set xs. \<exists>t. start = Some t \<and> \<not> str_less x t} \<and> sorted_wrt str_less (skip_scan xs start)"
proof (induction xs start rule: skip_scan.induct)
  case (2 xs t)
  let ?next = "min_str (filter (str_less t) xs)"
  have "\<forall>t. ?next = Some t \<longrightarrow> t \<in> set xs" by (auto dest: min_str_Some)
  then have ih: "set (skip_scan xs ?next) = {x \<in> set xs. \<exists>t. ?next = Some t \<and> \<not> str_less x t}"
      "sorted_wrt str_less (skip_scan xs ?next)"
    using "2.IH" by blast+
  have "(\<exists>t'. ?next = Some t' \<and> \<not> str_less x t') \<longleftrightarrow> str_less t x" if x: "x \<in> set xs" for x
  proof (cases ?next)
    case None
    then show ?thesis using x by (auto simp: filter_empty_conv)
  next
    case (Some t')
    note t' = min_str_Some [OF Some]
    have "str_less t x" if "\<not> str_less x t'"
      using t' that str_less_trans str_less_linear [of x t'] by auto
    moreover have "\<not> str_less x t'" if "str_less t x" using t' that x by simp
    ultimately show ?thesis using Some by auto
  qed
  then have rest: "set (skip_scan xs ?next) = {x \<in> set xs. str_less t x}" using ih(1) by auto
  have "x = t \<or> str_less t x \<longleftrightarrow> \<not> str_less x t" for x
    using str_less_linear [of x t] str_less_asym by auto
  with rest "2.prems" ih(2) show ?case by auto
qed simp

text \<open>The recursive query finds what \<open>SELECT DISTINCT\<close> would, in order.\<close>

lemma skip_scan_distinct: "skip_scan xs (min_str xs) = sort_strs (remdups xs)"
proof (rule sorted_strs_unique)
  have start: "\<forall>t. min_str xs = Some t \<longrightarrow> t \<in> set xs" using min_str_Some by blast
  note spec = skip_scan_spec [OF start]
  have set: "set (skip_scan xs (min_str xs)) = set xs"
    using spec min_str_Some [of xs] by (cases "min_str xs") auto
  have "distinct (skip_scan xs (min_str xs))"
    using spec sorted_less_distinct by blast
  with set show "mset (skip_scan xs (min_str xs)) = mset (sort_strs (remdups xs))"
    by (simp add: set_eq_iff_mset_eq_distinct [symmetric])
  show "sorted_wrt (\<lambda>a b. \<not> str_less b a) (skip_scan xs (min_str xs))"
    using spec str_less_asym by (metis (mono_tags, lifting) sorted_wrt_mono_rel)
qed simp

lemma found_dbnames_set [simp]: "set (found_dbnames ps) = fst ` set (table_rows ps)"
  by (simp add: found_dbnames_def skip_scan_distinct)

section \<open>The listing\<close>

definition sources_of :: "part list \<Rightarrow> string set" where
  "sources_of ps = fst ` set (table_rows ps)"

definition stays_listed :: "string \<Rightarrow> string \<Rightarrow> part list \<Rightarrow> (string \<times> string) list \<Rightarrow> bool" where
  "stays_listed d m ps lst \<longleftrightarrow> d \<in> sources_of ps \<and> ((d, m) \<in> set lst \<or> (\<forall>d'\<in>sources_of ps. (d', m) \<notin> set lst))"

lemma refresh_metric_set:
  "(d, m) \<in> set (fst (refresh_metric metric ps lst)) \<longleftrightarrow>
     (if m = metric then stays_listed d m ps lst else (d, m) \<in> set lst)"
proof -
  have found: "found_dbnames ps = [] \<longleftrightarrow> sources_of ps = {}"
    by (metis found_dbnames_set set_empty sources_of_def)
  show ?thesis
    by (auto simp: refresh_metric_def Let_def found stays_listed_def list_ex_iff sources_of_def [symmetric])
qed

lemma refresh_all_set:
  "distinct (map fst ts) \<Longrightarrow> (d, m) \<in> set (fst (refresh_all ts lst)) \<longleftrightarrow>
     (case map_of ts m of None \<Rightarrow> (d, m) \<in> set lst | Some ps \<Rightarrow> stays_listed d m ps lst)"
proof (induction ts lst rule: refresh_all.induct)
  case (2 metric ps ts lst)
  let ?lst = "fst (refresh_metric metric ps lst)"
  have ih: "(d, m) \<in> set (fst (refresh_all ts ?lst)) \<longleftrightarrow>
      (case map_of ts m of None \<Rightarrow> (d, m) \<in> set ?lst | Some ps \<Rightarrow> stays_listed d m ps ?lst)"
    using "2.IH" [OF refl, of ?lst "snd (refresh_metric metric ps lst)"] "2.prems" by simp
  have same: "stays_listed d m qs ?lst = stays_listed d m qs lst" if "m \<noteq> metric" for qs
    using that by (simp add: stays_listed_def refresh_metric_set)
  show ?case
  proof (cases "m = metric")
    case True
    moreover have "map_of ts metric = None" using "2.prems" by (simp add: map_of_eq_None_iff)
    ultimately show ?thesis using ih by (simp add: split_beta Let_def refresh_metric_set)
  next
    case False
    with ih same show ?thesis by (simp add: split_beta Let_def refresh_metric_set cong: option.case_cong)
  qed
qed simp

text \<open>The errors are those of the calls that \<open>Pg_Sink\<close> describes by their answers.\<close>

lemma SyncMetric_db_error:
  "ps_listing sql d m = fail 0 \<Longrightarrow> ps_dummy sql m = fail 1 \<Longrightarrow> snd (SyncMetric_db fail d m opr db) = Pg_SyncMetric sql d m opr"
  by (simp add: SyncMetric_db_def Pg_SyncMetric_def AddDBUniqueMetricToListingTable_def EnsureMetricDummy_def split_beta Let_def)

lemma sync_listed:
  assumes "SyncMetric_db (\<lambda>_. None) d m AddOp db = (db', e)"
  shows "e = None \<and> (d, m) \<in> set (listing db') \<and> ghas (tables db') m \<and> (distinct (listing db) \<longrightarrow> distinct (listing db'))"
  using assms
  by (auto simp: SyncMetric_db_def AddDBUniqueMetricToListingTable_def EnsureMetricDummy_def ensure_dummy_metrics_table_def
      errors_Join_def Let_def gomap_simps split: if_splits)

text \<open>
  C39: what the maintenance leaves in the listing of sources. No entry is stale: a source that is listed for a metric has rows in its table. But a source
  with rows that is not listed is added only if no other source of the metric is: as soon as one is listed, the others stay
  missing, although the function is there to list the sources of every table.
\<close>

theorem listing_misses_sources:
  assumes "gwf (tables db)" "MaintainUniqueSources None False db = (db', logged)"
  shows "(d, m) \<in> set (listing db') \<longleftrightarrow>
    (\<exists>ps. gget (tables db) m = Some ps \<and> d \<in> sources_of ps \<and>
       ((d, m) \<in> set (listing db) \<or> (\<forall>d'\<in>sources_of ps. (d', m) \<notin> set (listing db))))"
proof -
  have "(d, m) \<in> set (listing db') \<longleftrightarrow>
      (d, m) \<in> set (fst (refresh_all (tables db) (listing db))) \<and> m \<in> set (gkeys (tables db))"
    using assms(2) by (auto simp: MaintainUniqueSources_def maintain_unique_sources_def split_beta Let_def simp del: set_map)
  moreover have "m \<in> set (gkeys (tables db)) \<longleftrightarrow> gget (tables db) m \<noteq> None"
    by (simp add: map_of_eq_None_iff del: not_None_eq)
  ultimately show ?thesis
    using refresh_all_set [of "tables db" d m "listing db"] assms(1)
    by (cases "gget (tables db) m") (simp_all add: stays_listed_def del: map_of_eq_Some_iff)
qed

definition two_sources :: upkeep_db where
  "two_sources = \<lparr>tables = [(''wal'', [\<lparr>pFrom = 0, pTo = 10, pRows = [(''a'', 1), (''b'', 2), (''a'', 3)]\<rparr>])],
     listing = [(''a'', ''wal''), (''c'', ''wal'')]\<rparr>"

text \<open>\<open>b\<close> has rows and stays missing; \<open>c\<close> has none and is removed.\<close>

theorem listing_misses_sources_witness:
  "\<exists>db' logged. MaintainUniqueSources None False two_sources = (db', logged) \<and> (''a'', ''wal'') \<in> set (listing db') \<and>
     (''b'', ''wal'') \<notin> set (listing db') \<and> (''c'', ''wal'') \<notin> set (listing db')"
proof -
  obtain db' logged where run: "MaintainUniqueSources None False two_sources = (db', logged)" by fastforce
  have "gwf (tables two_sources)" by (simp add: two_sources_def)
  from listing_misses_sources [OF this run] run show ?thesis
    by (auto simp: two_sources_def sources_of_def table_rows_def)
qed

section \<open>Retention\<close>

definition rows_inside :: "upkeep_db \<Rightarrow> bool" where
  "rows_inside db \<longleftrightarrow> (\<forall>(m, ps)\<in>set (tables db). \<forall>p\<in>set ps. \<forall>(d, t)\<in>set (pRows p). pFrom p \<le> t \<and> t < pTo p)"

lemma job_tables:
  "tables (fst (maintenance_job retention env db)) =
     (if je_dropFails env = None
      then map (\<lambda>(m, ps). (m, filter (\<lambda>p. \<not> is_old (je_now env) retention p) ps)) (tables db) else tables db)"
  by (auto simp: maintenance_job_def DeleteOldPartitions_def MaintainUniqueSources_def maintain_unique_sources_def
      drop_old_time_partitions_def split_beta Let_def split: option.splits)

lemma job_table:
  "gget (tables (fst (maintenance_job retention env db))) m =
     map_option (\<lambda>ps. if je_dropFails env = None then filter (\<lambda>p. \<not> is_old (je_now env) retention p) ps else ps)
       (gget (tables db) m)"
  by (cases "gget (tables db) m") (simp_all add: job_tables map_of_map)

text \<open>
  C22: the maintenance job loses no row that is younger than the retention interval, whether or not its statements fail: if
  partitions hold only rows between their bounds, every row of the last \<open>retention\<close> nanoseconds is still in its table, and no row appears.
\<close>

theorem retention_respected:
  assumes "rows_inside db" "gget (tables db) m = Some ps"
    and "maintenance_job retention env db = (db', logged)"
  shows "\<exists>ps'. gget (tables db') m = Some ps' \<and> set (table_rows ps') \<subseteq> set (table_rows ps) \<and>
    (\<forall>(d, t)\<in>set (table_rows ps). je_now env - retention \<le> t \<longrightarrow> (d, t) \<in> set (table_rows ps'))"
proof -
  have inside: "t < pTo p" if "p \<in> set ps" "(d, t) \<in> set (pRows p)" for p d t
    using assms(1,2) that by (fastforce simp: rows_inside_def dest: map_of_SomeD)
  have t: "gget (tables db') m =
      Some (if je_dropFails env = None then filter (\<lambda>p. \<not> is_old (je_now env) retention p) ps else ps)"
    using job_table [of retention env db m] assms(2,3) by simp
  then show ?thesis
    by (fastforce simp: table_rows_def is_old_def dest: inside)
qed

text \<open>
  C40: \<open>--retention=0\<close> is accepted, by a check whose message says that it disables the deletion of old data. The maintenance job passes
  it on like any other interval, so that every run drops all partitions that ended before it.
\<close>

theorem retention_zero_drops_all:
  assumes "ps_intervals sql = Inr (0, maintenance, True)" "0 < seconds maintenance"
    and "ps_ping sql 0 = None" "ps_schemaExists sql = Inr True" "ps_isTimescale sql = Inr False" "\<And>m. ps_dummy sql m = None"
    and "je_dropFails env = None" "gget (tables db) m = Some ps"
  shows "\<exists>w. NewWriterFromPostgresConn opts sql = Inr (w, Some (seconds maintenance)) \<and>
    gget (tables (fst (maintenance_job (seconds 0) env db))) m = Some (filter (\<lambda>p. je_now env \<le> pTo p) ps)"
proof -
  have zero: "seconds 0 = 0" by (simp add: seconds_def fits64_def)
  have "Pg_init opts sql = ((0, seconds maintenance), None)"
    using assms(1-4) retry_ping_up [of "ps_ping sql" 0 0 Init_retries] by (simp add: Pg_init_def Init_def init_checks_def Let_def zero)
  moreover have "filter (\<lambda>p. \<not> is_old (je_now env) (seconds 0) p) ps = filter (\<lambda>p. je_now env \<le> pTo p) ps"
    by (rule filter_cong) (auto simp: is_old_def zero)
  moreover have "foldl (\<lambda>err name. errors_Join [err, ps_dummy sql name]) None ns = None" for ns
    by (induction ns) (simp_all add: assms(6) errors_Join_def)
  ultimately show ?thesis
    using assms by (simp add: job_table NewWriterFromPostgresConn_def ReadMetricSchemaType_def EnsureBuiltinMetricDummies_def scheduleJob_def)
qed

definition zero_retention :: pg_sql where
  "zero_retention = \<lparr>ps_ping = (\<lambda>_. None), ps_intervals = Inr (0, 43200, True), ps_schemaExists = Inr True, ps_script = (\<lambda>_. None),
     ps_isTimescale = Inr False, ps_listing = (\<lambda>_ _. None), ps_dummy = (\<lambda>_. None)\<rparr>"

definition zero_opts :: sink_opts where
  "zero_opts = \<lparr>Sinks = [], BatchingDelay = 950000000, PartitionInterval = ''1 day'', RetentionInterval = ''0'',
     MaintenanceInterval = ''12 hours'', soRealDbnameField = ''real_dbname'', soSystemIdentifierField = ''sys_id''\<rparr>"

definition noon_job :: job_env where
  "noon_job = \<lparr>je_now = 50, je_dropFails = None, je_maintainFails = None, je_locked = False\<rparr>"

theorem retention_respected_witness:
  "\<exists>ps'. gget (tables (fst (maintenance_job 48 noon_job two_sources))) ''wal'' = Some ps' \<and> (''b'', 2) \<in> set (table_rows ps')"
proof -
  obtain db' logged where run: "maintenance_job 48 noon_job two_sources = (db', logged)" by fastforce
  have "rows_inside two_sources" by (simp add: rows_inside_def two_sources_def)
  moreover obtain ps where "gget (tables two_sources) ''wal'' = Some ps" "(''b'', 2) \<in> set (table_rows ps)"
    by (simp add: two_sources_def table_rows_def)
  ultimately show ?thesis
    using retention_respected [OF _ _ run, of "''wal''" ps] run by (fastforce simp: noon_job_def)
qed

theorem retention_zero_drops_all_witness:
  "(\<exists>w. NewWriterFromPostgresConn zero_opts zero_retention = Inr (w, Some (43200 * Second))) \<and>
   gget (tables (fst (maintenance_job (seconds 0) noon_job two_sources))) ''wal'' = Some []"
proof -
  have "0 < seconds 43200" "seconds 43200 = 43200 * Second" by (simp_all add: seconds_def fits64_def Second_def)
  moreover obtain ps where ps: "gget (tables two_sources) ''wal'' = Some ps" "filter (\<lambda>p. 50 \<le> pTo p) ps = []"
    by (simp add: two_sources_def)
  ultimately show ?thesis
    using retention_zero_drops_all [of zero_retention 43200 noon_job two_sources "''wal''" ps zero_opts]
    by (simp add: zero_retention_def noon_job_def)
qed

end
