(* ===== verification/Sink_Partitions.thy ===== *)
theory Sink_Partitions
  imports Pg_Sink
begin

text \<open>
  The time partitions of the PostgreSQL sink: the function \<open>ensure_partition_metric_time\<close> that pgwatch installs in
  its database (\<open>internal/sinks/sql/ensure_partition_postgres.sql\<close>), and the loop \<open>EnsureMetricTimePartsExist\<close> of
  \<open>internal/sinks/postgres.go\<close> that calls it and caches its answers.

  The schema \<open>subpartitions\<close> is a list of partitions with name, metric and bounds. Calendar arithmetic is a parameter: \<open>date_trunc\<close>, the addition of the
  partition interval to a time, and \<open>to_char\<close>. The table of a metric exists as soon as it has a partition, the advisory lock makes a call atomic, and names are not cut at
  the length limit of the server. The contract between the two parts is the locale \<open>partition_provider\<close>.
\<close>

section \<open>Partitions\<close>

record sub_part =
  spName :: string
  spMetric :: string
  spFrom :: int
  spTo :: int

datatype trunc_unit = WeekUnit | DayUnit | HourUnit

record part_env =
  pt_period :: int
  pt_trunc :: "trunc_unit \<Rightarrow> int \<Rightarrow> int"
  pt_add :: "int \<Rightarrow> int"
  pt_char :: "bool \<Rightarrow> int \<Rightarrow> string"

definition partitions_to_precreate :: nat where "partitions_to_precreate = 3"

definition l_unit :: "part_env \<Rightarrow> trunc_unit" where
  "l_unit env =
     (if pt_period env \<ge> 7 * 24 * Hour then WeekUnit else if pt_period env \<ge> 24 * Hour then DayUnit else HourUnit)"

definition l_trunc :: "part_env \<Rightarrow> int \<Rightarrow> int" where
  "l_trunc env = pt_trunc env (l_unit env)"

definition l_time_suffix :: "part_env \<Rightarrow> int \<Rightarrow> string" where
  "l_time_suffix env = pt_char env (pt_period env \<ge> 24 * Hour)"

definition l_part_name :: "part_env \<Rightarrow> string \<Rightarrow> int \<Rightarrow> string" where
  "l_part_name env metric t = metric @ ''_'' @ l_time_suffix env t"

fun l_existing_upper_bound :: "string \<Rightarrow> sub_part list \<Rightarrow> int option" where
  "l_existing_upper_bound metric [] = None"
| "l_existing_upper_bound metric (q # qs) =
     (if spMetric q = metric
      then (case l_existing_upper_bound metric qs of None \<Rightarrow> Some (spTo q) | Some u \<Rightarrow> Some (max (spTo q) u))
      else l_existing_upper_bound metric qs)"

definition holds_time :: "string \<Rightarrow> int \<Rightarrow> sub_part \<Rightarrow> bool" where
  "holds_time metric t q \<longleftrightarrow> spMetric q = metric \<and> spFrom q \<le> t \<and> t < spTo q"

definition overlaps :: "string \<Rightarrow> int \<Rightarrow> int \<Rightarrow> sub_part \<Rightarrow> bool" where
  "overlaps metric s e q \<longleftrightarrow> spMetric q = metric \<and> s < spTo q \<and> spFrom q < e"

text \<open>
  The loop that creates partitions; the server refuses a partition that overlaps another one of the table.
\<close>

fun create_parts :: "part_env \<Rightarrow> string \<Rightarrow> nat \<Rightarrow> int \<Rightarrow> sub_part list \<Rightarrow> goerr + sub_part list" where
  "create_parts env metric 0 l_part_start db = Inr db"
| "create_parts env metric (Suc n) l_part_start db =
     (let l_part_end = pt_add env l_part_start; name = l_part_name env metric l_part_start
      in if list_ex (\<lambda>q. spName q = name) db then create_parts env metric n l_part_end db
         else if list_ex (overlaps metric l_part_start l_part_end) db
         then Inl (ErrText ''partition would overlap'')
         else create_parts env metric n l_part_end
                (db @ [\<lparr>spName = name, spMetric = metric, spFrom = l_part_start, spTo = l_part_end\<rparr>]))"

definition new_parts :: "part_env \<Rightarrow> string \<Rightarrow> int \<Rightarrow> sub_part list \<Rightarrow> sub_part list \<times> (goerr + part_info)" where
  "new_parts env metric l_part_start db =
     (case create_parts env metric (Suc partitions_to_precreate) l_part_start db of
        Inl err \<Rightarrow> (db, Inl err)
      | Inr db' \<Rightarrow> (db', Inr \<lparr>StartTime = l_part_start, EndTime = pt_add env l_part_start\<rparr>))"

definition ensure_partition_metric_time :: "part_env \<Rightarrow> string \<Rightarrow> int \<Rightarrow> sub_part list \<Rightarrow> sub_part list \<times> (goerr + part_info)" where
  "ensure_partition_metric_time env metric metric_timestamp db =
     (if pt_period env < Hour then (db, Inl (ErrText ''Partition period must be at least 1 hour''))
      else case l_existing_upper_bound metric db of
             None \<Rightarrow> new_parts env metric (l_trunc env metric_timestamp) db
           | Some upper \<Rightarrow>
               (if metric_timestamp < upper
                then (case find (holds_time metric metric_timestamp) db of
                        Some q \<Rightarrow> (db, Inr \<lparr>StartTime = spFrom q, EndTime = spTo q\<rparr>)
                      | None \<Rightarrow> new_parts env metric (l_trunc env metric_timestamp) db)
                else new_parts env metric (max (l_trunc env metric_timestamp) upper) db))"

section \<open>The loop over the metrics of a batch\<close>

text \<open>
  The loop with the database it works on. A time that is zero in Go lies outside the range of \<open>UnixNano\<close>, so that the
  check for it never fires and is left out. The cache keeps what was stored before an error.
\<close>

definition ensure_metric_db ::
  "(string \<Rightarrow> int \<Rightarrow> 'd \<Rightarrow> 'd \<times> (goerr + part_info)) \<Rightarrow> bool \<Rightarrow> string \<Rightarrow> part_info \<Rightarrow> bounds \<times> 'd \<Rightarrow> (bounds \<times> 'd) \<times> goerr option" where
  "ensure_metric_db ensure force metric pb st =
     (let (parts, db) = st;
          cached = gget parts metric;
          ask_start = (case cached of None \<Rightarrow> True | Some p \<Rightarrow> StartTime pb < StartTime p \<or> force);
          (db, r) = (if ask_start then ensure metric (StartTime pb) db else (db, Inr (the cached)))
      in case r of
           Inl err \<Rightarrow> ((parts, db), Some err)
         | Inr p \<Rightarrow>
             (let parts = (if ask_start then gset metric p parts else parts)
              in if EndTime pb > EndTime p \<or> EndTime pb = EndTime p \<or> force
                 then (case ensure metric (EndTime pb) db of
                         (db, Inl err) \<Rightarrow> ((parts, db), Some err)
                       | (db, Inr p) \<Rightarrow> ((gset metric p parts, db), None))
                 else ((parts, db), None)))"

fun EnsureMetricTimePartsExist ::
  "(string \<Rightarrow> int \<Rightarrow> 'd \<Rightarrow> 'd \<times> (goerr + part_info)) \<Rightarrow> bool \<Rightarrow> (string \<times> part_info) list \<Rightarrow> bounds \<times> 'd \<Rightarrow> (bounds \<times> 'd) \<times> goerr option" where
  "EnsureMetricTimePartsExist ensure force [] st = (st, None)"
| "EnsureMetricTimePartsExist ensure force ((metric, pb) # rest) st =
     (case ensure_metric_db ensure force metric pb st of
        (st, Some err) \<Rightarrow> (st, Some err)
      | (st, None) \<Rightarrow> EnsureMetricTimePartsExist ensure force rest st)"

text \<open>On a provider without state this is the loop of \<open>Pg_Sink\<close>.\<close>

lemma stateless_ensure_metric:
  "ensure_metric_db (\<lambda>m t d. (d, ensure m t)) force metric pb (parts, d) =
     (let (parts, err) = ensure_metric ensure force metric pb parts in ((parts, d), err))"
  by (auto simp: ensure_metric_db_def ensure_metric_def Let_def split: sum.splits)

lemma stateless_ensure_parts:
  "EnsureMetricTimePartsExist (\<lambda>m t d. (d, ensure m t)) force bs (parts, d) =
     (let (parts, err) = ensure_parts ensure force bs parts in ((parts, d), err))"
  by (induction ensure force bs parts rule: ensure_parts.induct)
     (auto simp: stateless_ensure_metric Let_def split: prod.splits option.splits)

section \<open>The contract\<close>

text \<open>A cache is sound if what it says is there has partitions. The start of the bounds is asked for, or known to a sound cache, unless the cached range ended before it.\<close>

definition cache_sound :: "('d \<Rightarrow> string \<Rightarrow> int \<Rightarrow> bool) \<Rightarrow> bounds \<Rightarrow> 'd \<Rightarrow> bool" where
  "cache_sound has_part parts d \<longleftrightarrow>
     (\<forall>m p u. gget parts m = Some p \<longrightarrow> StartTime p \<le> u \<longrightarrow> u < EndTime p \<longrightarrow> has_part d m u)"

definition start_known :: "bool \<Rightarrow> bounds \<Rightarrow> string \<Rightarrow> part_info \<Rightarrow> bool" where
  "start_known force parts m b \<longleftrightarrow>
     force \<or> (case gget parts m of None \<Rightarrow> True | Some p \<Rightarrow> StartTime b < EndTime p)"

text \<open>
  What the loop relies on: the answer is a range around the time asked for, everything in this range has a partition, and no partition disappears.
\<close>

locale partition_provider =
  fixes ensure :: "string \<Rightarrow> int \<Rightarrow> 'd \<Rightarrow> 'd \<times> (goerr + part_info)"
    and has_part :: "'d \<Rightarrow> string \<Rightarrow> int \<Rightarrow> bool"
    and inv :: "'d \<Rightarrow> bool"
  assumes ensure_inv: "inv d \<Longrightarrow> inv (fst (ensure m t d))"
    and ensure_keeps: "inv d \<Longrightarrow> has_part d n u \<Longrightarrow> has_part (fst (ensure m t d)) n u"
    and ensure_range: "inv d \<Longrightarrow> ensure m t d = (d', Inr p) \<Longrightarrow> StartTime p \<le> t \<and> t < EndTime p"
    and ensure_part: "inv d \<Longrightarrow> ensure m t d = (d', Inr p) \<Longrightarrow> StartTime p \<le> u \<Longrightarrow> u < EndTime p \<Longrightarrow> has_part d' m u"
    and ensure_total: "inv d \<Longrightarrow> \<exists>p. snd (ensure m t d) = Inr p"
begin

lemma ensure_answers:
  assumes "inv d"
  obtains d' p where "ensure m t d = (d', Inr p)" "inv d'" "StartTime p \<le> t" "t < EndTime p"
    "\<And>u. StartTime p \<le> u \<Longrightarrow> u < EndTime p \<Longrightarrow> has_part d' m u" "\<And>n u. has_part d n u \<Longrightarrow> has_part d' n u"
proof -
  obtain d' p where e: "ensure m t d = (d', Inr p)" using ensure_total [OF assms, of m t] by (metis prod.collapse)
  then show thesis
    using that [OF e] ensure_inv [OF assms, of m t] ensure_keeps [OF assms, of _ _ m t] ensure_range [OF assms e] ensure_part [OF assms e]
    by simp
qed

lemma sound_keeps:
  "cache_sound has_part parts d \<Longrightarrow> (\<And>n u. has_part d n u \<Longrightarrow> has_part d' n u) \<Longrightarrow> cache_sound has_part parts d'"
  unfolding cache_sound_def by blast

lemma sound_gset:
  "cache_sound has_part parts d \<Longrightarrow> (\<And>u. StartTime p \<le> u \<Longrightarrow> u < EndTime p \<Longrightarrow> has_part d m u) \<Longrightarrow>
     cache_sound has_part (gset m p parts) d"
  unfolding cache_sound_def by (simp add: map_of_gset del: map_of_eq_Some_iff)

lemma ensure_metric_ok:
  assumes "inv d" "force \<or> cache_sound has_part parts d" "StartTime pb \<le> EndTime pb"
  shows "\<exists>parts' d'. ensure_metric_db ensure force m pb (parts, d) = ((parts', d'), None) \<and> inv d' \<and>
    (\<forall>n u. has_part d n u \<longrightarrow> has_part d' n u) \<and> has_part d' m (EndTime pb) \<and>
    (start_known force parts m pb \<longrightarrow> has_part d' m (StartTime pb)) \<and> (\<forall>n. n \<noteq> m \<longrightarrow> gget parts' n = gget parts n) \<and>
    (cache_sound has_part parts d \<longrightarrow> cache_sound has_part parts' d')"
proof (cases "case gget parts m of None \<Rightarrow> True | Some p \<Rightarrow> StartTime pb < StartTime p \<or> force")
  case ask: True
  obtain d1 p where e1: "ensure m (StartTime pb) d = (d1, Inr p)" "inv d1" "StartTime p \<le> StartTime pb" "StartTime pb < EndTime p"
    and h1: "\<And>u. StartTime p \<le> u \<Longrightarrow> u < EndTime p \<Longrightarrow> has_part d1 m u" and k1: "\<And>n u. has_part d n u \<Longrightarrow> has_part d1 n u"
    using ensure_answers [OF assms(1), of m "StartTime pb"] by metis
  let ?parts = "gset m p parts"
  have s1: "cache_sound has_part parts d \<Longrightarrow> cache_sound has_part ?parts d1"
    using sound_gset [OF sound_keeps [OF _ k1] h1] by blast
  show ?thesis
  proof (cases "EndTime pb > EndTime p \<or> EndTime pb = EndTime p \<or> force")
    case more: True
    obtain d2 q where e2: "ensure m (EndTime pb) d1 = (d2, Inr q)" "inv d2" "StartTime q \<le> EndTime pb" "EndTime pb < EndTime q"
      and h2: "\<And>u. StartTime q \<le> u \<Longrightarrow> u < EndTime q \<Longrightarrow> has_part d2 m u" and k2: "\<And>n u. has_part d1 n u \<Longrightarrow> has_part d2 n u"
      using ensure_answers [OF e1(2), of m "EndTime pb"] by metis
    have "ensure_metric_db ensure force m pb (parts, d) = ((gset m q ?parts, d2), None)"
      using ask more e1(1) e2(1) by (simp add: ensure_metric_db_def)
    moreover have "cache_sound has_part parts d \<longrightarrow> cache_sound has_part (gset m q ?parts) d2"
      using sound_gset [OF sound_keeps [OF s1 k2] h2] by blast
    ultimately show ?thesis
      using e1 e2 h1 h2 k1 k2 by (auto simp: map_of_gset)
  next
    case False
    then have "ensure_metric_db ensure force m pb (parts, d) = ((?parts, d1), None)"
      using ask e1(1) by (auto simp: ensure_metric_db_def split: option.splits)
    with False s1 e1 h1 k1 assms(3) show ?thesis by (auto simp: map_of_gset)
  qed
next
  case False
  then obtain p where p: "gget parts m = Some p" "StartTime p \<le> StartTime pb" "\<not> force" by (auto split: option.splits)
  with assms(2) have s: "cache_sound has_part parts d" by simp
  then have h: "\<And>u. StartTime p \<le> u \<Longrightarrow> u < EndTime p \<Longrightarrow> has_part d m u" using p(1) unfolding cache_sound_def by blast
  show ?thesis
  proof (cases "EndTime pb < EndTime p")
    case True
    then have "ensure_metric_db ensure force m pb (parts, d) = ((parts, d), None)"
      using p by (simp add: ensure_metric_db_def del: map_of_eq_Some_iff)
    with True h s p assms(1,3) show ?thesis by (auto simp del: map_of_eq_Some_iff)
  next
    case more: False
    obtain d2 q where e2: "ensure m (EndTime pb) d = (d2, Inr q)" "inv d2" "StartTime q \<le> EndTime pb" "EndTime pb < EndTime q"
      and h2: "\<And>u. StartTime q \<le> u \<Longrightarrow> u < EndTime q \<Longrightarrow> has_part d2 m u" and k2: "\<And>n u. has_part d n u \<Longrightarrow> has_part d2 n u"
      using ensure_answers [OF assms(1), of m "EndTime pb"] by metis
    have "ensure_metric_db ensure force m pb (parts, d) = ((gset m q parts, d2), None)"
      using p more e2(1) by (auto simp add: ensure_metric_db_def simp del: map_of_eq_Some_iff)
    moreover have "cache_sound has_part (gset m q parts) d2" using sound_gset [OF sound_keeps [OF s k2] h2] by blast
    moreover have "has_part d2 m (StartTime pb)" if "start_known force parts m pb"
      using that p h k2 by (simp add: start_known_def del: map_of_eq_Some_iff)
    ultimately show ?thesis using e2 h2 k2 by (auto simp: map_of_gset)
  qed
qed

lemma ensure_batch_ok:
  assumes "inv d" "force \<or> cache_sound has_part parts d" "gwf bs" "\<forall>(m, b)\<in>set bs. StartTime b \<le> EndTime b"
  shows "\<exists>parts' d'. EnsureMetricTimePartsExist ensure force bs (parts, d) = ((parts', d'), None) \<and> inv d' \<and>
    (\<forall>n u. has_part d n u \<longrightarrow> has_part d' n u) \<and> (cache_sound has_part parts d \<longrightarrow> cache_sound has_part parts' d') \<and>
    (\<forall>(m, b)\<in>set bs. has_part d' m (EndTime b) \<and> (start_known force parts m b \<longrightarrow> has_part d' m (StartTime b)))"
  using assms
proof (induction bs arbitrary: parts d)
  case (Cons mb bs)
  obtain m b where mb: "mb = (m, b)" by fastforce
  obtain parts1 d1 where one: "ensure_metric_db ensure force m b (parts, d) = ((parts1, d1), None)" "inv d1"
      "\<forall>n u. has_part d n u \<longrightarrow> has_part d1 n u" "has_part d1 m (EndTime b)"
      "start_known force parts m b \<longrightarrow> has_part d1 m (StartTime b)" "\<forall>n. n \<noteq> m \<longrightarrow> gget parts1 n = gget parts n"
      "cache_sound has_part parts d \<longrightarrow> cache_sound has_part parts1 d1"
    using ensure_metric_ok [OF Cons.prems(1,2), of b m] Cons.prems(4) mb by auto
  have "gwf bs" "\<forall>(m, b)\<in>set bs. StartTime b \<le> EndTime b" "force \<or> cache_sound has_part parts1 d1"
    using Cons.prems one(7) by auto
  from Cons.IH [OF one(2) this(3,1,2)] obtain parts' d' where rest:
      "EnsureMetricTimePartsExist ensure force bs (parts1, d1) = ((parts', d'), None)" "inv d'"
      "\<forall>n u. has_part d1 n u \<longrightarrow> has_part d' n u" "cache_sound has_part parts1 d1 \<longrightarrow> cache_sound has_part parts' d'"
      "\<forall>(n, c)\<in>set bs. has_part d' n (EndTime c) \<and> (start_known force parts1 n c \<longrightarrow> has_part d' n (StartTime c))"
    by blast
  have "start_known force parts1 n c = start_known force parts n c" if "(n, c) \<in> set bs" for n c
  proof -
    have "n \<noteq> m" using that Cons.prems(3) mb by force
    with one(6) show ?thesis by (simp add: start_known_def)
  qed
  with one rest mb show ?case by (fastforce split: prod.splits)
qed auto

end

section \<open>Partitions that are cells of the calendar\<close>

text \<open>
  The partition interval is a unit of the calendar, as the default of one day is: truncating finds the start of the cell
  around a time, adding the interval finds the start of the next cell, and names of partitions are not ambiguous, which holds for the years of four digits. Partitions that were created with such an interval
  are cells; which of them exist is arbitrary.
\<close>

definition calendar_ok :: "part_env \<Rightarrow> bool" where
  "calendar_ok env \<longleftrightarrow> Hour \<le> pt_period env \<and>
     (\<forall>t. l_trunc env t \<le> t \<and> t < pt_add env (l_trunc env t)) \<and>
     (\<forall>t u. l_trunc env t \<le> u \<and> u < pt_add env (l_trunc env t) \<longrightarrow> l_trunc env u = l_trunc env t) \<and>
     (\<forall>t. l_trunc env (pt_add env (l_trunc env t)) = pt_add env (l_trunc env t)) \<and>
     (\<forall>m n t u. l_part_name env m (l_trunc env t) = l_part_name env n (l_trunc env u) \<longrightarrow> m = n \<and> l_trunc env t = l_trunc env u)"

definition is_cell :: "part_env \<Rightarrow> sub_part \<Rightarrow> bool" where
  "is_cell env q \<longleftrightarrow> l_trunc env (spFrom q) = spFrom q \<and> spTo q = pt_add env (spFrom q) \<and>
     spName q = l_part_name env (spMetric q) (spFrom q)"

definition grid_db :: "part_env \<Rightarrow> sub_part list \<Rightarrow> bool" where
  "grid_db env db \<longleftrightarrow> list_all (is_cell env) db"

definition has_part :: "sub_part list \<Rightarrow> string \<Rightarrow> int \<Rightarrow> bool" where
  "has_part db metric t \<longleftrightarrow> list_ex (holds_time metric t) db"

lemma calendar_facts:
  assumes "calendar_ok env"
  shows "l_trunc env t \<le> t" "t < pt_add env (l_trunc env t)" "l_trunc env (l_trunc env t) = l_trunc env t"
    "l_trunc env (pt_add env (l_trunc env t)) = pt_add env (l_trunc env t)"
    "\<lbrakk>l_trunc env g = g; g \<le> u; u < pt_add env g\<rbrakk> \<Longrightarrow> l_trunc env u = g"
proof -
  have b: "l_trunc env t \<le> t" "t < pt_add env (l_trunc env t)" for t using assms unfolding calendar_ok_def by blast+
  have c: "l_trunc env u = l_trunc env t" if "l_trunc env t \<le> u" "u < pt_add env (l_trunc env t)" for t u
    using assms that unfolding calendar_ok_def by blast
  show "l_trunc env t \<le> t" "t < pt_add env (l_trunc env t)" using b by auto
  show "l_trunc env (l_trunc env t) = l_trunc env t" using b [of t] by (intro c) auto
  show "l_trunc env (pt_add env (l_trunc env t)) = pt_add env (l_trunc env t)" using assms unfolding calendar_ok_def by blast
  show "l_trunc env u = g" if "l_trunc env g = g" "g \<le> u" "u < pt_add env g" using c [of g u] that by simp
qed

text \<open>A name belongs to one cell of one metric, and cells that overlap are the same.\<close>

lemma same_name:
  assumes "calendar_ok env" "is_cell env q" "spName q = l_part_name env m g" "l_trunc env g = g"
  shows "spMetric q = m \<and> spFrom q = g"
proof -
  have "l_trunc env (spFrom q) = spFrom q" "l_part_name env (spMetric q) (spFrom q) = l_part_name env m g"
    using assms(2,3) by (simp_all add: is_cell_def)
  then show ?thesis using assms(1,4) unfolding calendar_ok_def by metis
qed

lemma same_cell:
  assumes "calendar_ok env" "is_cell env q" "overlaps m g (pt_add env g) q" "l_trunc env g = g"
  shows "spFrom q = g"
proof -
  have q: "l_trunc env (spFrom q) = spFrom q" "spTo q = pt_add env (spFrom q)" using assms(2) by (simp_all add: is_cell_def)
  have "g < pt_add env g" "spFrom q < pt_add env (spFrom q)"
    using calendar_facts(2) [OF assms(1), of g] calendar_facts(2) [OF assms(1), of "spFrom q"] assms(4) q(1) by simp_all
  then have "l_trunc env (max g (spFrom q)) = g" "l_trunc env (max g (spFrom q)) = spFrom q"
    using assms(3) q by (auto intro!: calendar_facts(5) [OF assms(1)] assms(4) simp: overlaps_def)
  then show ?thesis by simp
qed

lemma create_parts_ok:
  assumes "calendar_ok env" "grid_db env db" "l_trunc env g = g"
  shows "\<exists>db'. create_parts env m n g db = Inr db' \<and> grid_db env db' \<and> set db \<subseteq> set db' \<and>
    (\<forall>q\<in>set db' - set db. spMetric q = m \<and> g \<le> spFrom q) \<and>
    (0 < n \<longrightarrow> (\<exists>q\<in>set db'. spMetric q = m \<and> spFrom q = g \<and> spTo q = pt_add env g))"
  using assms(2,3)
proof (induction n arbitrary: g db)
  case (Suc n)
  let ?e = "pt_add env g" and ?name = "l_part_name env m g"
  have nx: "l_trunc env ?e = ?e" "g < ?e"
    using calendar_facts(2,4) [OF assms(1), of g] Suc.prems(2) by simp_all
  show ?case
  proof (cases "\<exists>q\<in>set db. spName q = ?name")
    case True
    then obtain q where q: "q \<in> set db" "spName q = ?name" by blast
    then have "is_cell env q" using Suc.prems(1) by (simp add: grid_db_def list_all_iff)
    with same_name [OF assms(1) this q(2) Suc.prems(2)] have q': "spMetric q = m" "spFrom q = g" "spTo q = ?e"
      by (auto simp: is_cell_def)
    obtain db' where db': "create_parts env m n ?e db = Inr db'" "grid_db env db'" "set db \<subseteq> set db'"
        "\<forall>q\<in>set db' - set db. spMetric q = m \<and> ?e \<le> spFrom q"
      using Suc.IH [OF Suc.prems(1) nx(1)] by blast
    have "create_parts env m (Suc n) g db = Inr db'" using True db'(1) by (simp add: Let_def list_ex_iff)
    moreover have "\<forall>q\<in>set db' - set db. spMetric q = m \<and> g \<le> spFrom q" using db'(4) nx(2) by (auto dest!: bspec)
    moreover have "\<exists>q\<in>set db'. spMetric q = m \<and> spFrom q = g \<and> spTo q = ?e" using q(1) q' db'(3) by blast
    ultimately show ?thesis using db'(2,3) by blast
  next
    case False
    let ?q = "\<lparr>spName = ?name, spMetric = m, spFrom = g, spTo = ?e\<rparr>"
    have "\<not> overlaps m g ?e q" if "q \<in> set db" for q
    proof
      assume o: "overlaps m g ?e q"
      have cell: "is_cell env q" using Suc.prems(1) that by (simp add: grid_db_def list_all_iff)
      then have "spFrom q = g" "spMetric q = m" using same_cell [OF assms(1) cell o Suc.prems(2)] o by (simp_all add: overlaps_def)
      with cell False that show False by (auto simp: is_cell_def)
    qed
    then have step: "create_parts env m (Suc n) g db = create_parts env m n ?e (db @ [?q])"
      using False by (auto simp: Let_def list_ex_iff)
    have "grid_db env (db @ [?q])" using Suc.prems by (simp add: grid_db_def is_cell_def)
    from Suc.IH [OF this nx(1)] obtain db' where db': "create_parts env m n ?e (db @ [?q]) = Inr db'" "grid_db env db'"
        "set (db @ [?q]) \<subseteq> set db'" "\<forall>q\<in>set db' - set (db @ [?q]). spMetric q = m \<and> ?e \<le> spFrom q"
      by blast
    have "spMetric q = m \<and> g \<le> spFrom q" if "q \<in> set db' - set db" for q
    proof (cases "q = ?q")
      case False
      then have "spMetric q = m \<and> ?e \<le> spFrom q" using db'(4) that by simp
      with nx(2) show ?thesis by simp
    qed simp
    then have new: "\<forall>q\<in>set db' - set db. spMetric q = m \<and> g \<le> spFrom q" by blast
    have sub: "?q \<in> set db'" "set db \<subseteq> set db'" using db'(3) by simp_all
    then have "\<exists>q\<in>set db'. spMetric q = m \<and> spFrom q = g \<and> spTo q = ?e" by (intro bexI [of _ ?q]) simp_all
    moreover have "create_parts env m (Suc n) g db = Inr db'" using step db'(1) by (simp only:)
    ultimately show ?thesis using new sub(2) db'(2) by blast
  qed
qed simp

lemma upper_bound_of: "l_existing_upper_bound m db = Some u \<Longrightarrow> \<exists>q\<in>set db. spMetric q = m \<and> spTo q = u"
  by (induction db arbitrary: u) (force split: if_splits option.splits simp: max_def)+

text \<open>The function always answers, with the cell around the time, which then exists.\<close>

lemma ensure_cell:
  assumes "calendar_ok env" "grid_db env db"
  shows "\<exists>db'. ensure_partition_metric_time env m t db = (db', Inr \<lparr>StartTime = l_trunc env t, EndTime = pt_add env (l_trunc env t)\<rparr>) \<and>
    grid_db env db' \<and> set db \<subseteq> set db' \<and> (\<forall>q\<in>set db' - set db. spMetric q = m \<and> l_trunc env t \<le> spFrom q) \<and>
    (\<exists>q\<in>set db'. spMetric q = m \<and> spFrom q = l_trunc env t \<and> spTo q = pt_add env (l_trunc env t))"
proof -
  let ?g = "l_trunc env t"
  have cell: "is_cell env q" if "q \<in> set db" for q using assms(2) that by (simp add: grid_db_def list_all_iff)
  have period: "\<not> pt_period env < Hour" using assms(1) by (simp add: calendar_ok_def)
  have "\<exists>db'. new_parts env m ?g db = (db', Inr \<lparr>StartTime = ?g, EndTime = pt_add env ?g\<rparr>) \<and>
    grid_db env db' \<and> set db \<subseteq> set db' \<and> (\<forall>q\<in>set db' - set db. spMetric q = m \<and> ?g \<le> spFrom q) \<and>
    (\<exists>q\<in>set db'. spMetric q = m \<and> spFrom q = ?g \<and> spTo q = pt_add env ?g)"
    using create_parts_ok [OF assms calendar_facts(3) [OF assms(1)], of m "Suc partitions_to_precreate" t]
    by (auto simp: new_parts_def simp del: create_parts.simps)
  moreover have "max ?g upper = ?g" if u: "l_existing_upper_bound m db = Some upper" "upper \<le> t" for upper
  proof (rule ccontr)
    assume "max ?g upper \<noteq> ?g"
    then have "?g < upper" by auto
    obtain q where "q \<in> set db" "spTo q = upper" using upper_bound_of [OF u(1)] by blast
    then have "l_trunc env (spFrom q) = spFrom q" "upper = pt_add env (spFrom q)" using cell [of q] by (simp_all add: is_cell_def)
    then have "l_trunc env upper = upper" using calendar_facts(4) [OF assms(1), of "spFrom q"] by simp
    moreover have "l_trunc env upper = ?g"
      using \<open>?g < upper\<close> u(2) calendar_facts(2) [OF assms(1), of t]
      by (intro calendar_facts(5) [OF assms(1) calendar_facts(3) [OF assms(1)]]) simp_all
    ultimately show False using \<open>?g < upper\<close> by simp
  qed
  moreover have "spFrom q = ?g \<and> spTo q = pt_add env ?g" if "find (holds_time m t) db = Some q" for q
  proof -
    have q: "q \<in> set db" "holds_time m t q" using that by (auto simp: find_Some_iff)
    have c: "l_trunc env (spFrom q) = spFrom q" "spTo q = pt_add env (spFrom q)" using cell [OF q(1)] by (simp_all add: is_cell_def)
    have "?g = spFrom q" using q(2) c(2) by (intro calendar_facts(5) [OF assms(1) c(1)]) (simp_all add: holds_time_def)
    with c(2) show ?thesis by simp
  qed
  moreover have "q \<in> set db \<and> spMetric q = m" if "find (holds_time m t) db = Some q" for q
    using that by (auto simp: find_Some_iff holds_time_def)
  ultimately show ?thesis
    using assms(2) period unfolding ensure_partition_metric_time_def by (auto split: option.split)
qed

lemma has_part_mono: "set db \<subseteq> set db' \<Longrightarrow> has_part db m t \<Longrightarrow> has_part db' m t"
  by (auto simp: has_part_def list_ex_iff)

interpretation pg_parts: partition_provider "ensure_partition_metric_time env" has_part "\<lambda>db. calendar_ok env \<and> grid_db env db"
proof unfold_locales
  fix d m t n u
  assume "calendar_ok env \<and> grid_db env d"
  then obtain db' where e: "ensure_partition_metric_time env m t d =
        (db', Inr \<lparr>StartTime = l_trunc env t, EndTime = pt_add env (l_trunc env t)\<rparr>)" "grid_db env db'" "set d \<subseteq> set db'"
      "\<exists>q\<in>set db'. spMetric q = m \<and> spFrom q = l_trunc env t \<and> spTo q = pt_add env (l_trunc env t)" and cal: "calendar_ok env"
    using ensure_cell [of env d m t] by blast
  then show "calendar_ok env \<and> grid_db env (fst (ensure_partition_metric_time env m t d))"
    "\<exists>p. snd (ensure_partition_metric_time env m t d) = Inr p" by simp_all
  show "has_part (fst (ensure_partition_metric_time env m t d)) n u" if "has_part d n u"
    using e(1) has_part_mono [OF e(3) that] by simp
  fix d' p assume a: "ensure_partition_metric_time env m t d = (d', Inr p)"
  then show "StartTime p \<le> t \<and> t < EndTime p" using e(1) calendar_facts(1,2) [OF cal, of t] by auto
  show "has_part d' m u" if "StartTime p \<le> u" "u < EndTime p"
    using a e(1,4) that by (auto simp: has_part_def list_ex_iff holds_time_def)
qed

section \<open>What the sink can rely on\<close>


text \<open>Dropping partitions, as the maintenance job does, leaves cells.\<close>

lemma grid_db_filter: "grid_db env db \<Longrightarrow> grid_db env (filter keep db)"
  by (simp add: grid_db_def list_all_iff)

text \<open>Hourly partitions, with a text that counts hours.\<close>

definition hour_code :: "int \<Rightarrow> nat" where
  "hour_code k = (if 0 \<le> k then 2 * nat k else 2 * nat (- k) + 1)"

definition count_hours :: "int \<Rightarrow> string" where
  "count_hours t = replicate (hour_code (t div Hour)) CHR ''x''"

lemma hour_code_inj: "hour_code k = hour_code j \<Longrightarrow> k = j"
  by (auto simp: hour_code_def split: if_splits) (metis Suc_double_not_eq_double double_not_eq_Suc_double)+

definition hourly :: part_env where
  "hourly = \<lparr>pt_period = Hour, pt_trunc = (\<lambda>_ t. t div Hour * Hour), pt_add = (\<lambda>t. t + Hour), pt_char = (\<lambda>_. count_hours)\<rparr>"

lemma split_name:
  assumes "m @ ''_'' @ replicate k CHR ''x'' = n @ ''_'' @ replicate j CHR ''x''"
  shows "m = n \<and> k = j"
proof -
  have "takeWhile (\<lambda>c. c \<noteq> CHR ''_'') (replicate k CHR ''x'' @ CHR ''_'' # zs) = replicate k CHR ''x''" for k zs
    by (induction k) simp_all
  then have "takeWhile (\<lambda>c. c \<noteq> CHR ''_'') (rev (m @ ''_'' @ replicate k CHR ''x'')) = replicate k CHR ''x''" for m k
    by simp
  then have "replicate k CHR ''x'' = replicate j CHR ''x''" using assms by metis
  then have "k = j" by (metis length_replicate)
  with assms show ?thesis by simp
qed

lemma hourly_ok: "calendar_ok hourly"
proof -
  have pos: "(0::int) < Hour" by (simp add: Hour_def Minute_def Second_def)
  have T: "l_trunc hourly = (\<lambda>t. t div Hour * Hour)" "pt_add hourly = (\<lambda>t. t + Hour)" "pt_period hourly = Hour"
    by (simp_all add: hourly_def l_trunc_def)
  have bounds: "t div Hour * Hour \<le> t" "t < t div Hour * Hour + Hour" for t
    using pos div_mult_mod_eq [of t Hour] pos_mod_sign [of Hour t] pos_mod_bound [of Hour t] by linarith+
  have cell: "u div Hour = t div Hour" if "t div Hour * Hour \<le> u" "u < t div Hour * Hour + Hour" for t u
    using that pos by (intro int_div_pos_eq [where r = "u - t div Hour * Hour"]) (auto simp: algebra_simps)
  have name: "l_part_name hourly m (t div Hour * Hour) = m @ ''_'' @ replicate (hour_code (t div Hour)) CHR ''x''" for m t
    using pos by (simp add: l_part_name_def l_time_suffix_def hourly_def count_hours_def)
  have "m = n \<and> t div Hour = u div Hour" if "l_part_name hourly m (t div Hour * Hour) = l_part_name hourly n (u div Hour * Hour)" for m n t u
    using split_name [OF that [unfolded name]] hour_code_inj by blast
  then have "\<forall>m n t u. l_part_name hourly m (t div Hour * Hour) = l_part_name hourly n (u div Hour * Hour) \<longrightarrow>
      m = n \<and> t div Hour * Hour = u div Hour * Hour" by metis
  moreover have "\<forall>t u. t div Hour * Hour \<le> u \<and> u < t div Hour * Hour + Hour \<longrightarrow> u div Hour * Hour = t div Hour * Hour"
    using cell by metis
  moreover have "\<forall>t. (t div Hour * Hour + Hour) div Hour * Hour = t div Hour * Hour + Hour" using pos by (simp add: distrib_right)
  moreover have "\<forall>t. t div Hour * Hour \<le> t \<and> t < t div Hour * Hour + Hour" using bounds by blast
  ultimately show ?thesis unfolding calendar_ok_def T by blast
qed

lemma hourly_grid: "grid_db hourly []" by (simp add: grid_db_def)


text \<open>
  C36: the exception in the theorem before is real. If the range in the cache ended before the earliest row of a batch whose rows span two
  cells, only the partition of the latest row is asked for, although the earliest has none: its row is refused by the server. This
  happens to a metric that was not written for longer than partitions are created ahead.
\<close>

theorem earliest_row_without_partition:
  assumes "calendar_ok env" "grid_db env db" "gget parts m = Some p"
    and "StartTime p < EndTime p" "EndTime p \<le> StartTime b" "l_trunc env (StartTime b) < l_trunc env (EndTime b)"
    and "\<not> has_part db m (StartTime b)"
  shows "\<exists>parts' db'. EnsureMetricTimePartsExist (ensure_partition_metric_time env) False [(m, b)] (parts, db) = ((parts', db'), None) \<and>
    has_part db' m (EndTime b) \<and> \<not> has_part db' m (StartTime b)"
proof -
  let ?g = "l_trunc env (EndTime b)"
  obtain db' where db': "ensure_partition_metric_time env m (EndTime b) db = (db', Inr \<lparr>StartTime = ?g, EndTime = pt_add env ?g\<rparr>)"
      "\<forall>q\<in>set db' - set db. spMetric q = m \<and> ?g \<le> spFrom q"
      "\<exists>q\<in>set db'. spMetric q = m \<and> spFrom q = ?g \<and> spTo q = pt_add env ?g"
    using ensure_cell [OF assms(1,2), of m "EndTime b"] by blast
  have before: "StartTime b < ?g"
  proof (rule ccontr)
    assume "\<not> StartTime b < ?g"
    then have "l_trunc env (l_trunc env (EndTime b)) = l_trunc env (StartTime b)"
      using assms(6) calendar_facts(2) [OF assms(1), of "StartTime b"]
      by (intro calendar_facts(5) [OF assms(1) calendar_facts(3) [OF assms(1)]]) simp_all
    with assms(6) show False using calendar_facts(3) [OF assms(1), of "EndTime b"] by simp
  qed
  then have later: "EndTime p \<le> EndTime b" using assms(5) calendar_facts(1) [OF assms(1), of "EndTime b"] by simp
  have "EnsureMetricTimePartsExist (ensure_partition_metric_time env) False [(m, b)] (parts, db) =
      ((gset m \<lparr>StartTime = ?g, EndTime = pt_add env ?g\<rparr> parts, db'), None)"
    using assms(3-5) later db'(1) by (auto simp: ensure_metric_db_def simp del: map_of_eq_Some_iff)
  moreover have "\<not> holds_time m (StartTime b) q" if "q \<in> set db'" for q
  proof (cases "q \<in> set db")
    case True
    then show ?thesis using assms(7) by (auto simp: has_part_def list_ex_iff)
  next
    case False
    then have "?g \<le> spFrom q" using db'(2) that by blast
    then show ?thesis using before by (simp add: holds_time_def)
  qed
  moreover have "has_part db' m (EndTime b)"
    using db'(3) calendar_facts(1,2) [OF assms(1), of "EndTime b"] by (auto simp: has_part_def list_ex_iff holds_time_def)
  ultimately show ?thesis by (auto simp: has_part_def list_ex_iff)
qed

theorem earliest_row_without_partition_witness:
  "\<exists>parts' db'. EnsureMetricTimePartsExist (ensure_partition_metric_time hourly) False
       [(''wal'', \<lparr>StartTime = Hour * 5, EndTime = Hour * 6\<rparr>)] ([(''wal'', \<lparr>StartTime = 0, EndTime = Hour\<rparr>)], []) = ((parts', db'), None) \<and>
     has_part db' ''wal'' (Hour * 6) \<and> \<not> has_part db' ''wal'' (Hour * 5)"
proof -
  have "l_trunc hourly (Hour * 5) < l_trunc hourly (Hour * 6)"
    by (simp add: hourly_def l_trunc_def Hour_def Minute_def Second_def)
  then show ?thesis
    using earliest_row_without_partition [OF hourly_ok hourly_grid, of "[(''wal'', \<lparr>StartTime = 0, EndTime = Hour\<rparr>)]" "''wal''"
        "\<lparr>StartTime = 0, EndTime = Hour\<rparr>" "\<lparr>StartTime = Hour * 5, EndTime = Hour * 6\<rparr>"]
    by (simp add: has_part_def Hour_def Minute_def Second_def)
qed

end
