(* ===== verification/Config_Effect.thy ===== *)
theory Config_Effect
  imports Web_Server Reaper_Loop
begin

text \<open>
  The way of a change of the configuration from the web server (\<open>Web_Server\<close>) through the table of sources
  (\<open>Source_Store\<close>) and their resolution (\<open>Source_Resolver\<close>) to the workers of the main loop (\<open>Reaper_Loop\<close>).
\<close>

lemma list_all2_ex:
  assumes "list_all2 P xs ys"
  shows "x \<in> set xs \<Longrightarrow> \<exists>y\<in>set ys. P x y" "y \<in> set ys \<Longrightarrow> \<exists>x\<in>set xs. P x y"
  using assms by (induction xs ys rule: list_all2_induct) auto

section \<open>Which connections get a worker\<close>

text \<open>A connection is admitted by the sweep if it can be opened, answers, and is not filtered out.\<close>

definition admits :: "loop_env \<Rightarrow> nat \<Rightarrow> sconn \<Rightarrow> bool" where
  "admits env i c =
     (case conn_Connect (le_pool env i) (le_http env) (le_opts env) c of
        (_, Some _) \<Rightarrow> False
      | (Prom _, None) \<Rightarrow> True
      | (Db md, None) \<Rightarrow>
          (case FetchRuntimeInfo (le_info env i) (le_now env) True (le_ctxErr env) md of
             (_, Some _) \<Rightarrow> False
           | (md, None) \<Rightarrow>
               \<not> (IsInRecovery md \<and> OnlyIfMaster (dbSource md)) \<and>
               (let DBSizeMB = go_div (ApproxDbSize md) 1048576 in DBSizeMB = 0 \<or> MinDbSizeMB (le_opts env) \<le> DBSizeMB)))"

lemma helpers_conns: "CreateSourceHelpers env i md st = Some st' \<Longrightarrow> conns st' = conns st"
  by (auto simp: CreateSourceHelpers_def Let_def split: if_splits option.splits prod.splits)

lemma sync_metrics_conns [simp]: "conns (sync_metrics d ms st) = conns st"
  by (induction d ms st rule: sync_metrics.induct) (auto split: option.splits)

lemma Shutdown_src [simp]: "src_of (ShutdownWorker n st) i = src_of st i"
  by (simp add: ShutdownWorker_def Let_def split: option.splits)

lemma Shutdown_conns: "i \<notin> set (monitoredSources st) \<or> name_of st i \<noteq> n \<Longrightarrow> conns (ShutdownWorker n st) i = conns st i"
  by (auto simp: ShutdownWorker_def Let_def GetMonitoredDatabase_def find_Some_iff split: option.splits)

text \<open>The ways through the goroutine of one source.\<close>

lemma process_sourceE:
  assumes "process_source env i st = Some st'"
  obtains (skipped) c where "\<not> admits env i (conns st i)" "GetSource c = src_of st i" "conns st' = (conns st)(i := c)"
      "worker_conn st' = worker_conn st"
    | (filtered) c where "\<not> admits env i (conns st i)" "GetSource c = src_of st i"
      "st' = ShutdownWorker (name_of st i) (upd_conn i c st)"
    | (started) c st1 where "admits env i (conns st i)" "GetSource c = src_of st i" "conns st1 = (conns st)(i := c)"
      "quiet st st1" "st' = StartWorker (name_of st i) i st1"
proof -
  obtain c err where conn: "conn_Connect (le_pool env i) (le_http env) (le_opts env) (conns st i) = (c, err)" by fastforce
  have src: "GetSource c = src_of st i"
    using conn_Connect_source [of "le_pool env i" "le_http env" "le_opts env" "conns st i"] conn by simp
  show thesis
  proof (cases err)
    case (Some e)
    with conn have "\<not> admits env i (conns st i)" by (cases c) (simp_all add: admits_def)
    moreover have "st' = WriteInstanceDown (le_now env) (name_of st i) (upd_conn i c st)"
      using assms conn Some by (simp add: process_source_def Let_def)
    moreover have "worker_conn (WriteInstanceDown (le_now env) (name_of st i) (upd_conn i c st)) = worker_conn st"
      by (rule worker_conn_cong) simp_all
    ultimately show thesis using skipped [of c] src by simp
  next
    case ok: None
    show thesis
    proof (cases c)
      case (Prom pc)
      with conn ok have "admits env i (conns st i)" by (simp add: admits_def)
      moreover have "st' = StartWorker (name_of st i) i (upd_conn i c st)"
        using assms conn ok Prom by (simp add: process_source_def Let_def)
      ultimately show thesis using started [of c "upd_conn i c st"] src quiet_upd by simp
    next
      case (Db md0)
      obtain md err1 where info: "FetchRuntimeInfo (le_info env i) (le_now env) True (le_ctxErr env) md0 = (md, err1)"
        by fastforce
      have md: "dbSource md = src_of st i"
        using FetchRuntimeInfo_source [of "le_info env i" "le_now env" True "le_ctxErr env" md0] info src Db by simp
      let ?st1 = "upd_conn i (Db md) st"
      have twice: "upd_conn i (Db md) (upd_conn i c st) = ?st1" by (simp add: upd_conn_def)
      have adm: "admits env i (conns st i) \<longleftrightarrow> err1 = None \<and> \<not> fst (FilterSource env md ?st1)"
        using conn ok Db info by (auto simp: admits_def FilterSource_def Let_def split: option.split)
      show thesis
      proof (cases "err1 = None \<and> \<not> fst (FilterSource env md ?st1)")
        case True
        then have filter: "FilterSource env md ?st1 = (False, ?st1)"
          by (auto simp: FilterSource_def Let_def split: if_splits)
        then obtain st2 where h: "CreateSourceHelpers env i md ?st1 = Some st2"
            "st' = StartWorker (name_of st i) i (SyncMetricsToSinks md (TrackRecoveryStatus md st2))"
          using assms conn ok Db info True twice by (auto simp: process_source_def Let_def split: option.splits)
        have "quiet st (SyncMetricsToSinks md (TrackRecoveryStatus md st2))"
          unfolding SyncMetricsToSinks_def TrackRecoveryStatus_def
          by (rule quiet_trans [OF quiet_upd quiet_trans [OF quiet_helpers [OF h(1)]
                quiet_trans [OF quiet_fields(1) quiet_sync_metrics]]]) (simp add: md)
        moreover have "conns (SyncMetricsToSinks md (TrackRecoveryStatus md st2)) = (conns st)(i := Db md)"
          by (simp add: SyncMetricsToSinks_def TrackRecoveryStatus_def helpers_conns [OF h(1)])
        ultimately show thesis using started [of "Db md"] True adm md h(2) by simp
      next
        case False
        show thesis
        proof (cases err1)
          case (Some e)
          then have "st' = ?st1"
            using assms conn ok Db info twice by (simp add: process_source_def Let_def)
          moreover have "worker_conn ?st1 = worker_conn st" by (rule worker_conn_cong) simp_all
          ultimately show thesis using skipped [of "Db md"] False adm md by simp
        next
          case None
          with False have "st' = ShutdownWorker (name_of st i) ?st1"
            using assms conn ok Db info md twice
            by (auto simp: process_source_def Let_def FilterSource_def split: if_splits)
          then show thesis using filtered [of "Db md"] False adm md by simp
        qed
      qed
    qed
  qed
qed

lemma process_source_src: "process_source env i st = Some st' \<Longrightarrow> src_of st' k = src_of st k"
  by (erule process_sourceE) auto

lemma process_source_others:
  assumes "process_source env i st = Some st'" "reg_ok st" "n \<noteq> name_of st i"
  shows "worker_conn st' n = worker_conn st n"
  using assms(1)
proof (cases rule: process_sourceE)
  case (filtered c)
  have "quiet st (upd_conn i c st)" using filtered(2) by (intro quiet_upd) simp
  with filtered(3) assms(2,3) show ?thesis by (simp add: Shutdown_registry quiet_reg quiet_worker)
next
  case (started c st1)
  with assms(2,3) show ?thesis by (simp add: reg.worker_start quiet_reg quiet_worker)
qed simp

lemma process_source_conns:
  assumes "process_source env i st = Some st'" "k \<noteq> i" "name_of st k \<noteq> name_of st i"
  shows "conns st' k = conns st k"
  using assms(1)
proof (cases rule: process_sourceE)
  case (filtered c)
  with assms(2,3) Shutdown_conns [of k "upd_conn i c st" "name_of st i"] show ?thesis by simp
qed (use assms(2) in simp_all)

lemma process_source_starts:
  assumes "process_source env i st = Some st'" "reg_ok st" "admits env i (conns st i)"
  shows "worker_conn st' (name_of st i) \<noteq> None"
  using assms(1)
proof (cases rule: process_sourceE)
  case (started c st1)
  with assms(2) show ?thesis by (simp add: reg.worker_start quiet_reg)
qed (use assms(3) in simp_all)

section \<open>The sweep\<close>

lemma sweep_src: "sweep env is st = Some st' \<Longrightarrow> src_of st' k = src_of st k"
  by (induction "is" arbitrary: st) (auto split: option.splits dest!: process_source_src [of _ _ _ _ k])

lemma sweep_others:
  assumes "sweep env is st = Some st'" "mid_ok st" "set is \<subseteq> set (monitoredSources st)" "n \<notin> name_of st ` set is"
  shows "worker_conn st' n = worker_conn st n"
  using assms
proof (induction "is" arbitrary: st)
  case (Cons i "is")
  obtain st1 where p: "process_source env i st = Some st1" "sweep env is st1 = Some st'"
    using Cons.prems(1) by (auto split: option.splits)
  have one: "mid_ok st1" "same_names st st1"
    using mid_ok_process [OF Cons.prems(2) _ p(1)] Cons.prems(3) by simp_all
  have "worker_conn st1 n = worker_conn st n"
    using process_source_others [OF p(1)] Cons.prems(2,4) by (simp add: mid_ok_def sources_ok_def)
  with Cons.IH [OF p(2) one(1)] one(2) Cons.prems(3,4) show ?case by (simp add: same_names_def)
qed simp

text \<open>Every monitored connection that is admitted has a worker after the sweep.\<close>

lemma sweep_starts:
  assumes "sweep env is st = Some st'" "mid_ok st" "distinct is" "set is \<subseteq> set (monitoredSources st)"
    and "i \<in> set is" "admits env i (conns st i)"
  shows "worker_conn st' (name_of st i) \<noteq> None"
  using assms
proof (induction "is" arbitrary: st)
  case (Cons k "is")
  obtain st1 where p: "process_source env k st = Some st1" "sweep env is st1 = Some st'"
    using Cons.prems(1) by (auto split: option.splits)
  have one: "mid_ok st1" "same_names st st1"
    using mid_ok_process [OF Cons.prems(2) _ p(1)] Cons.prems(4) by simp_all
  then have nm: "\<And>j. name_of st1 j = name_of st j" "monitoredSources st1 = monitoredSources st" by (auto simp: same_names_def)
  have inj: "inj_on (name_of st) (set (monitoredSources st))"
    using Cons.prems(2) by (simp add: mid_ok_def sources_ok_def distinct_map)
  have other: "name_of st j \<noteq> name_of st k" if "j \<in> set is" for j
    using inj_onD [OF inj, of j k] Cons.prems(3,4) that by auto
  have away: "name_of st k \<notin> name_of st1 ` set is"
  proof
    assume "name_of st k \<in> name_of st1 ` set is"
    then obtain j where "j \<in> set is" "name_of st k = name_of st1 j" by blast
    with other [of j] nm(1) [of j] show False by simp
  qed
  show ?case
  proof (cases "i = k")
    case True
    have "worker_conn st1 (name_of st i) \<noteq> None"
      using process_source_starts [OF p(1)] Cons.prems(2,6) True by (simp add: mid_ok_def sources_ok_def)
    moreover have "worker_conn st' (name_of st i) = worker_conn st1 (name_of st i)"
      using Cons.prems(4) away True by (intro sweep_others [OF p(2) one(1)]) (simp_all add: nm(2))
    ultimately show ?thesis by simp
  next
    case False
    then have i: "i \<in> set is" using Cons.prems(5) by simp
    then have "conns st1 i = conns st i" using process_source_conns [OF p(1) False] other by simp
    with Cons.IH [OF p(2) one(1) _ _ i] Cons.prems(3,4,6) show ?thesis by (simp add: nm)
  qed
qed simp

text \<open>Without the option to create helpers an iteration never panics.\<close>

lemma process_source_returns: "\<not> CreateHelpers (le_opts env) \<Longrightarrow> process_source env i st \<noteq> None"
  by (simp add: process_source_def CreateSourceHelpers_def Let_def split_beta split: sconn.split)

lemma sweep_returns: "\<not> CreateHelpers (le_opts env) \<Longrightarrow> sweep env is st \<noteq> None"
  by (induction "is" arbitrary: st) (auto simp: process_source_returns split: option.split)

lemma iteration_returns: "\<not> CreateHelpers (le_opts env) \<Longrightarrow> iteration env st \<noteq> None"
  by (simp add: iteration_def Let_def sweep_returns split: option.split)

lemma cleanup_keeps:
  assumes "mid_ok st" "n \<in> set (map (name_of st) (monitoredSources st))"
  shows "worker_conn (fold (cleanup_worker None) ns st) n = worker_conn st n"
  using assms
proof (induction ns arbitrary: st)
  case (Cons k ns)
  let ?st = "cleanup_worker None k st"
  have reg: "reg_ok st" using Cons.prems by (simp add: mid_ok_def sources_ok_def)
  have one: "mid_ok ?st" "same_names st ?st"
    using Cons.prems by (simp_all add: cleanup_worker_def mid_ok_Shutdown)
  then have "n \<in> set (map (name_of ?st) (monitoredSources ?st))" using Cons.prems(2) by (simp add: same_names_def)
  moreover have "worker_conn ?st n = worker_conn st n"
    using Cons.prems(2) GetMonitored_None [of st "monitoredSources st" k]
    by (auto simp: cleanup_worker_def Shutdown_registry [OF reg])
  ultimately show ?case using Cons.IH [OF one(1)] by simp
qed simp

lemma Cleanup_keeps:
  assumes "mid_ok st" "n \<in> set (map (name_of st) (monitoredSources st))"
  shows "worker_conn (CleanupRemovedWorkers None st) n = worker_conn st n"
proof -
  let ?st1 = "fold (cleanup_worker None) (gkeys (cancelFuncs st)) st"
  let ?st2 = "fold cleanup_prev (prevLoopMonitoredDBs ?st1) ?st1"
  have "worker_conn (CleanupRemovedWorkers None st) = worker_conn ?st2"
    unfolding CleanupRemovedWorkers_def Let_def by (rule worker_conn_cong) simp_all
  also have "\<dots> = worker_conn ?st1" by (intro quiet_worker quiet_fold quiet_cleanup_prev)
  finally show ?thesis using cleanup_keeps [OF assms] by simp
qed

lemma cleanup_src: "src_of (CleanupRemovedWorkers ctxErr st) i = src_of st i"
proof -
  have "src_of (fold (cleanup_worker ctxErr) ns st) i = src_of st i" for ns st
    by (induction ns arbitrary: st) (auto simp: cleanup_worker_def)
  moreover have "src_of (fold cleanup_prev is st) i = src_of st i" for "is" st
    by (induction "is" arbitrary: st) (auto simp: cleanup_prev_def)
  ultimately show ?thesis by (simp add: CleanupRemovedWorkers_def Let_def)
qed

section \<open>Loading\<close>

lemma alloc_fresh:
  "alloc_conns (map Fresh cs) st = (is, st') \<Longrightarrow>
     map (conns st') is = cs \<and> (\<forall>i\<in>set is. nextConn st \<le> i) \<and> (\<forall>i<nextConn st. conns st' i = conns st i) \<and>
     monitoredSources st' = monitoredSources st"
proof (induction cs arbitrary: st "is")
  case (Cons c cs)
  let ?st = "st\<lparr>conns := (conns st)(nextConn st := c), nextConn := Suc (nextConn st)\<rparr>"
  obtain is1 where rec: "alloc_conns (map Fresh cs) ?st = (is1, st')" "is = nextConn st # is1"
    using Cons.prems by (auto simp: Let_def split: prod.splits)
  with Cons.IH [OF rec(1)] show ?case by (auto simp: Suc_le_eq)
qed simp

text \<open>
  A new connection stays in the list unless its source is monitored already with an equal configuration; then the
  old connection takes its place.
\<close>

definition taken_for :: "rstate \<Rightarrow> nat \<Rightarrow> nat \<Rightarrow> bool" where
  "taken_for st i j \<longleftrightarrow>
     (if \<exists>k\<in>set (monitoredSources st). Source_Equal (src_of st k) (src_of st i)
      then Source_Equal (src_of st j) (src_of st i) else j = i)"

lemma taken_for_cong:
  "(\<And>i. src_of st' i = src_of st i) \<Longrightarrow> monitoredSources st' = monitoredSources st \<Longrightarrow> taken_for st' = taken_for st"
  by (simp add: taken_for_def fun_eq_iff)

lemma Source_Equal_Name: "Source_Equal a b \<Longrightarrow> Name a = Name b"
  by (simp add: Source_Equal_def Let_def)

lemma replace_known_taken:
  assumes "replace_known is st = (is', st')" "distinct (map (name_of st) (monitoredSources st))"
  shows "list_all2 (taken_for st) is is' \<and> (\<forall>i. src_of st' i = src_of st i) \<and>
    (\<forall>i. i \<notin> set (monitoredSources st) \<longrightarrow> conns st' i = conns st i)"
  using assms
proof (induction "is" arbitrary: st is')
  case (Cons i "is")
  let ?old = "GetMonitoredDatabase st (monitoredSources st) (name_of st i)"
  have old: "k \<in> set (monitoredSources st) \<Longrightarrow> Source_Equal (src_of st k) (src_of st i) \<Longrightarrow> ?old = Some k" for k
    using GetMonitored_Some [OF Cons.prems(2)] Source_Equal_Name by blast
  show ?case
  proof (cases "\<exists>k\<in>set (monitoredSources st). Source_Equal (src_of st k) (src_of st i)")
    case True
    then obtain k where k: "?old = Some k" "Source_Equal (src_of st k) (src_of st i)" using old by blast
    then obtain is1 where rec: "replace_known is st = (is1, st')" "is' = k # is1"
      using Cons.prems(1) by (auto split: prod.splits)
    with Cons.IH [OF rec(1) Cons.prems(2)] True k show ?thesis by (simp add: taken_for_def)
  next
    case False
    show ?thesis
    proof (cases ?old)
      case None
      then obtain is1 where rec: "replace_known is st = (is1, st')" "is' = i # is1"
        using Cons.prems(1) by (auto split: prod.splits)
      with Cons.IH [OF rec(1) Cons.prems(2)] False show ?thesis by (simp add: taken_for_def)
    next
      case (Some k)
      let ?st = "ShutdownWorker (name_of st k) st"
      have "k \<in> set (monitoredSources st)" using Some GetMonitored_Some [OF Cons.prems(2)] by blast
      then obtain is1 where rec: "replace_known is ?st = (is1, st')" "is' = i # is1"
        using Cons.prems(1) Some False by (auto split: prod.splits)
      have m: "monitoredSources ?st = monitoredSources st" using Shutdown_names by (simp add: same_names_def)
      have t: "taken_for ?st = taken_for st" by (rule taken_for_cong) (simp_all add: m)
      from Cons.IH [OF rec(1)] Cons.prems(2) rec(2) False show ?thesis
        by (auto simp: m t Shutdown_conns) (simp_all add: taken_for_def)
    qed
  qed
qed simp

text \<open>The intervals of presets are not compared, so filling them in keeps a configuration equal to what it was equal to.\<close>

lemma Source_Equal_presets:
  assumes "Source_Equal a s" "PresetMetrics a \<noteq> [] \<or> main = Metrics a" "PresetMetricsStandby a \<noteq> [] \<or> standby = MetricsStandby a"
  shows "Source_Equal (a\<lparr>Metrics := main, MetricsStandby := standby\<rparr>) s"
  using assms by (auto simp: Source_Equal_def Let_def)

lemma GetSource_SetMetricIntervals:
  "GetSource (conn_SetMetricIntervals m sb c) = (GetSource c)\<lparr>Metrics := (if m = None then Metrics (GetSource c) else m),
     MetricsStandby := (case c of Db _ \<Rightarrow> if sb = None then MetricsStandby (GetSource c) else sb | Prom _ \<Rightarrow> MetricsStandby (GetSource c))\<rparr>"
  by (cases c) (auto simp: SetMetricIntervals_def Prom_SetMetricIntervals_def)

lemma preset_source:
  assumes "Source_Equal (src_of st k) s"
  shows "Source_Equal (src_of (apply_preset i st) k) s"
proof (cases "k = i")
  case True
  have "Source_Equal (GetSource (conn_SetMetricIntervals m sb (conns st i))) s"
    if "m \<noteq> None \<longrightarrow> PresetMetrics (src_of st i) \<noteq> []" "sb \<noteq> None \<longrightarrow> PresetMetricsStandby (src_of st i) \<noteq> []" for m sb
    unfolding GetSource_SetMetricIntervals using assms that True by (intro Source_Equal_presets) (auto split: sconn.split)
  with assms True show ?thesis by (simp add: apply_preset_def Let_def)
qed (use assms in \<open>simp add: apply_preset_def Let_def\<close>)

lemma preset_fresh:
  assumes "\<exists>s'. conns st k = NewSourceConn s' \<and> Source_Equal s' s"
  shows "\<exists>s'. conns (apply_preset i st) k = NewSourceConn s' \<and> Source_Equal s' s"
proof (cases "k = i")
  case True
  obtain s' where s': "conns st k = NewSourceConn s'" "Source_Equal s' s" using assms by blast
  then have "GetSource (conns st k) = s'" by (simp add: NewSourceConn_def NewDbConn_def NewPromConn_def)
  then have eq: "Source_Equal (src_of (apply_preset i st) k) s" using preset_source s'(2) by simp
  have "conns (apply_preset i st) k = NewSourceConn (src_of (apply_preset i st) k)"
    using s'(1) True
    by (auto simp: apply_preset_def Let_def NewSourceConn_def NewDbConn_def NewPromConn_def SetMetricIntervals_def
        Prom_SetMetricIntervals_def split: if_splits)
  with eq show ?thesis by blast
qed (use assms in \<open>auto simp: apply_preset_def Let_def\<close>)

lemma LoadMetrics_keeps:
  assumes "\<And>i st. P st \<Longrightarrow> P (apply_preset i st)" "\<And>st a b. P st \<Longrightarrow> P (st\<lparr>metricDefs := a, defined := b\<rparr>)" "P st"
  shows "P (fst (LoadMetrics env st))"
proof -
  have "P (fold apply_preset is st)" if "P st" for "is" st
    using that by (induction "is" arbitrary: st) (auto simp: assms(1))
  with assms(2,3) show ?thesis by (auto simp: LoadMetrics_def Let_def split: sum.splits)
qed

lemma Source_Equal_same: "wf_source s \<Longrightarrow> Source_Equal s s"
  by (simp add: Source_Equal_iff)

lemma GetSource_New [simp]: "GetSource (NewSourceConn s) = s"
  by (simp add: NewSourceConn_def NewDbConn_def NewPromConn_def)

text \<open>
  After loading, every monitored connection has the configuration of a selected source, and a selected source that is new or was changed
  is monitored through a new connection.
\<close>

lemma LoadSources_configured:
  fixes env st
  defines "st1 \<equiv> fst (LoadSources env st)"
  assumes "loop_ok st" "\<not> DoesEmergencyTriggerfileExist (le_stat env) (EmergencyPauseTriggerfile (le_mopts env))"
    and srcs: "le_sources env = Inr srcs" "sel = selected_sources (le_opts env) srcs"
    and res: "le_resolve env sel = (map Fresh (map NewSourceConn sel), [])" and wf: "\<forall>s\<in>set sel. wf_source s"
  shows "i \<in> set (monitoredSources st1) \<Longrightarrow> \<exists>s\<in>set sel. Source_Equal (src_of st1 i) s"
    and "s \<in> set sel \<Longrightarrow> \<forall>k\<in>set (monitoredSources st). \<not> Source_Equal (src_of st k) s \<Longrightarrow>
      \<exists>i\<in>set (monitoredSources st1). conns st1 i = NewSourceConn s"
proof -
  obtain is1 stA where al: "alloc_conns (map Fresh (map NewSourceConn sel)) st = (is1, stA)" by fastforce
  obtain is2 stB where rk: "replace_known is1 stA = (is2, stB)" by fastforce
  have st1: "st1 = stB\<lparr>monitoredSources := is2\<rparr>"
    using assms(3) srcs res al rk by (simp add: st1_def LoadSources_def)
  note a = alloc_fresh [OF al]
  have old: "k < nextConn st" if "k \<in> set (monitoredSources st)" for k
    using assms(2) that by (simp add: loop_ok_def sources_ok_def)
  have src: "src_of stA k = src_of st k" if "k \<in> set (monitoredSources st)" for k using a old [OF that] by simp
  have "map (name_of stA) (monitoredSources stA) = map (name_of st) (monitoredSources st)"
    using a src by simp
  then have "distinct (map (name_of stA) (monitoredSources stA))"
    using assms(2) by (simp add: loop_ok_def sources_ok_def)
  note r = replace_known_taken [OF rk this]
  have new: "\<exists>s\<in>set sel. conns stA i = NewSourceConn s" if "i \<in> set is1" for i
  proof -
    have "conns stA i \<in> set (map (conns stA) is1)" using that by simp
    then show ?thesis using a by auto
  qed
  show "\<exists>s\<in>set sel. Source_Equal (src_of st1 i) s" if i: "i \<in> set (monitoredSources st1)"
  proof -
    obtain j where j: "j \<in> set is1" "taken_for stA j i"
      using list_all2_ex(2) [of "taken_for stA" is1 is2 i] r i by (auto simp: st1)
    obtain s where s: "s \<in> set sel" "src_of stA j = s" using new [OF j(1)] by auto
    then have "Source_Equal (src_of stA i) s"
      using j(2) wf Source_Equal_same by (auto simp: taken_for_def split: if_splits)
    with s r show ?thesis by (auto simp: st1)
  qed
  show "\<exists>i\<in>set (monitoredSources st1). conns st1 i = NewSourceConn s"
    if s: "s \<in> set sel" and fresh: "\<forall>k\<in>set (monitoredSources st). \<not> Source_Equal (src_of st k) s"
  proof -
    have "NewSourceConn s \<in> set (map (conns stA) is1)" using a s by simp
    then obtain i where i: "i \<in> set is1" "conns stA i = NewSourceConn s" by auto
    then obtain j where j: "j \<in> set is2" "taken_for stA i j"
      using list_all2_ex(1) [of "taken_for stA" is1 is2 i] r by auto
    have "\<not> (\<exists>k\<in>set (monitoredSources stA). Source_Equal (src_of stA k) (src_of stA i))"
      using fresh i(2) src a by simp
    then have "j = i" using j(2) by (simp add: taken_for_def)
    moreover have "i \<notin> set (monitoredSources stA)" using a i(1) old by (auto simp: not_less [symmetric])
    then have "conns stB i = conns stA i" using r by blast
    ultimately show ?thesis using i(2) j(1) by (auto simp: st1)
  qed
qed

section \<open>From a request to a worker\<close>

lemma static_resolve:
  "\<forall>s\<in>set srcs. Kind s \<notin> {SourcePatroniDiscovery, SourcePostgresDiscovery} \<Longrightarrow>
     resolve_all w srcs r acc names err = (r, acc @ map NewSourceConn srcs, names, err)"
  by (induction srcs arbitrary: acc) (simp_all add: ResolveDatabase_def NewSourceConn_def)

text \<open>What one iteration makes of the sources it reads, if none of them has to be discovered.\<close>

lemma iteration_configured:
  assumes "reachable st" "env_ok env st" "iteration env st = Some st'" "le_ctxErr env = None"
    and "\<not> DoesEmergencyTriggerfileExist (le_stat env) (EmergencyPauseTriggerfile (le_mopts env))"
    and "le_sources env = Inr srcs" "sel = selected_sources (le_opts env) srcs"
    and "le_resolve env sel = (map Fresh (map NewSourceConn sel), [])" "\<forall>s\<in>set sel. wf_source s"
  shows "worker_conn st' n = Some i \<Longrightarrow> \<exists>s\<in>set sel. Name s = n \<and> Source_Equal (src_of st' i) s"
    and "s \<in> set sel \<Longrightarrow> \<forall>k\<in>set (monitoredSources st). \<not> Source_Equal (src_of st k) s \<Longrightarrow>
      \<forall>i s'. Source_Equal s' s \<longrightarrow> admits env i (NewSourceConn s') \<Longrightarrow> worker_conn st' (Name s) \<noteq> None"
proof -
  let ?a = "fst (LoadSources env st)" and ?b = "fst (LoadMetrics env (fst (LoadSources env st)))"
  have ok: "loop_ok st" using assms(1) by (rule reachable_ok)
  note conf = LoadSources_configured [OF ok assms(5-9)]
  have a: "mid_ok ?a" using LoadSources_mid_ok [OF ok assms(2)] by blast
  have q: "quiet ?a ?b" by (rule quiet_LoadMetrics)
  have b: "mid_ok ?b" using a q by (rule mid_ok_quiet)
  let ?o = "le_order env (monitoredSources ?b)"
  have order: "mset ?o = mset (monitoredSources ?b)" using assms(2) by (simp add: env_ok_def)
  then have os: "set ?o = set (monitoredSources ?b)" by (rule mset_eq_setD)
  have od: "distinct ?o"
    using b mset_eq_imp_distinct_iff [OF order] by (auto simp: mid_ok_def sources_ok_def distinct_map)
  obtain c where c: "sweep env ?o ?b = Some c" "st' = CleanupRemovedWorkers None c"
    using assms(3,4) by (auto simp: iteration_def Let_def split: option.splits)
  have cok: "mid_ok c" "same_names ?b c" using mid_ok_sweep [OF b _ c(1)] os by simp_all
  have src: "src_of st' i = src_of ?b i" for i using c(2) sweep_src [OF c(1)] cleanup_src by simp
  have same: "same_names ?a c" using q cok(2) same_names_trans by (auto simp: quiet_def)
  have st': "loop_ok st'" using Cleanup_loop_ok(1) [OF cok(1)] c(2) by simp
  have mon: "monitoredSources st' = monitoredSources ?a"
  proof -
    have "monitoredSources st' = monitoredSources c"
      using c(2) cleanup_fold [OF cok(1)] quiet_fold [of cleanup_prev, OF quiet_cleanup_prev]
      by (auto simp: CleanupRemovedWorkers_def Let_def same_names_def quiet_def)
    then show ?thesis using same by (simp add: same_names_def)
  qed
  show "\<exists>s\<in>set sel. Name s = n \<and> Source_Equal (src_of st' i) s" if w: "worker_conn st' n = Some i"
  proof -
    have i: "i \<in> set (monitoredSources ?a)" "name_of st' i = n" using st' w mon by (auto simp: loop_ok_def)
    then obtain s where s: "s \<in> set sel" "Source_Equal (src_of ?a i) s" using conf(1) by blast
    have "Source_Equal (src_of ?b i) s"
      by (rule LoadMetrics_keeps [where P = "\<lambda>st. Source_Equal (src_of st i) s"]) (simp_all add: preset_source s(2))
    with s(1) i(2) src show ?thesis using Source_Equal_Name by metis
  qed
  show "worker_conn st' (Name s) \<noteq> None"
    if s: "s \<in> set sel" "\<forall>k\<in>set (monitoredSources st). \<not> Source_Equal (src_of st k) s"
      and adm: "\<forall>i s'. Source_Equal s' s \<longrightarrow> admits env i (NewSourceConn s')"
  proof -
    obtain i where i: "i \<in> set (monitoredSources ?a)" "conns ?a i = NewSourceConn s" using conf(2) [OF s] by blast
    have "Source_Equal s s" using Source_Equal_same assms(9) s(1) by blast
    then have "\<exists>s'. conns ?b i = NewSourceConn s' \<and> Source_Equal s' s"
      using i(2) by (intro LoadMetrics_keeps [where P = "\<lambda>st. \<exists>s'. conns st i = NewSourceConn s' \<and> Source_Equal s' s"] preset_fresh) auto
    then obtain s' where s': "conns ?b i = NewSourceConn s'" "Source_Equal s' s" by blast
    have ib: "i \<in> set (monitoredSources ?b)" using i(1) q by (simp add: quiet_def same_names_def)
    have nm: "name_of ?b i = Name s" using s' Source_Equal_Name by simp
    have wc: "worker_conn c (Name s) \<noteq> None"
      using sweep_starts [OF c(1) b od _ _, of i] os ib s' adm nm by simp
    have "name_of c i = Name s" "i \<in> set (monitoredSources c)" using cok(2) nm ib by (simp_all add: same_names_def)
    then have "Name s \<in> set (map (name_of c) (monitoredSources c))" by force
    with Cleanup_keeps [OF cok(1)] wc c(2) show ?thesis by simp
  qed
qed

text \<open>The sources the reaper reads from the table are those that the requests left in the map of the interface.\<close>

lemma read_after_requests:
  assumes "serve_all (pg_web None wenv) ers (tab, db) = (xs, resps)" "config_typed (tab, db)"
    and "m = api_spec (pg_web None wenv) filled ers resps (\<lambda>n. map_option (row_to_source n) (gget tab n))"
  obtains srcs where "pg_GetSources None (fst (last xs)) = Inr srcs" "\<And>s. s \<in> set srcs \<longleftrightarrow> m (Name s) = Some s"
    "\<And>n s. m n = Some s \<Longrightarrow> Name s = n"
proof -
  have "xs \<noteq> []" using assms(1) by (cases ers) (auto split: prod.splits)
  then have wf: "gwf (fst (last xs))" using serve_all_typed [OF assms(2,1)] by (simp add: config_typed_iff)
  have view: "m n = map_option (row_to_source n) (gget (fst (last xs)) n)" for n
    using fun_cong [OF pg_requests_view [OF assms(1)], of n] assms(3) by simp
  have nm: "Name (row_to_source n r) = n" for n r by (simp add: row_to_source_def)
  have "s \<in> set (map (\<lambda>(n, r). row_to_source n r) (fst (last xs))) \<longleftrightarrow> m (Name s) = Some s" for s
    using wf by (auto simp: view nm map_of_eq_Some_iff intro: rev_image_eqI)
  moreover have "m n = Some s \<Longrightarrow> Name s = n" for n s by (auto simp: view nm)
  ultimately show thesis using that by (simp add: pg_GetSources_def)
qed

definition monitored_by :: "source_opts \<Rightarrow> source \<Rightarrow> bool" where
  "monitored_by opts s \<longleftrightarrow> IsEnabled s \<and> (Groups opts = [] \<or> Group s \<in> set (Groups opts))"

lemma selected_iff: "s \<in> set (selected_sources opts srcs) \<longleftrightarrow> s \<in> set srcs \<and> monitored_by opts s"
  by (auto simp: selected_sources_def monitored_by_def)


definition effect_env :: "source_table \<Rightarrow> loop_env" where
  "effect_env tab = (one_env one_source False)\<lparr>le_sources := pg_GetSources None tab,
     le_resolve := (\<lambda>srcs. case ResolveDatabases (sample_world (\<lambda>_. Inr [])) NewResolver srcs of (_, cs, names, _) \<Rightarrow> (map Fresh cs, names))\<rparr>"


end
