(* ===== verification/Openers.thy ===== *)
theory Openers
  imports Config_Schema Pg_Migration Multi_Writer Source_Resolver Web_Server
begin

text \<open>
  Opening what the program works with: pools of connections (\<open>internal/db/bootstrap.go\<close>), the storages of the
  configuration (\<open>metrics/postgres.go\<close>, \<open>sources/postgres.go\<close>, \<open>metrics/postgres_schema.go\<close>), the migrator of the PostgreSQL
  sink (\<open>sinks/postgres.go\<close>), the gRPC sink (\<open>sinks/rpc.go\<close>), TLS for etcd (\<open>sources/resolver.go\<close>), and the web server
  (\<open>webserver/webserver.go\<close>, \<open>jwt.go\<close>). Driver, migrator, TLS and URL libraries, files and sockets are parameters.
\<close>

section \<open>Pools\<close>

record pool_cfg =
  pcConnectTimeout :: int
  pcMaxConnIdleTime :: int
  pcMaxConnLifetime :: int
  pcRuntimeParams :: "(string, string) gomap"
  pcTraced :: bool

definition pgConnRecycleSeconds :: int where "pgConnRecycleSeconds = 1800"
definition applicationName :: string where "applicationName = ''pgwatch''"

fun run_callbacks :: "(pool_cfg \<Rightarrow> goerr + pool_cfg) list \<Rightarrow> pool_cfg \<Rightarrow> goerr + pool_cfg" where
  "run_callbacks [] cfg = Inr cfg"
| "run_callbacks (f # fs) cfg = (case f cfg of Inl err \<Rightarrow> Inl err | Inr cfg \<Rightarrow> run_callbacks fs cfg)"

definition pool_defaults :: "pool_cfg \<Rightarrow> pool_cfg" where
  "pool_defaults cfg =
     cfg\<lparr>pcConnectTimeout := (if pcConnectTimeout cfg = 0 then 5 * Second else pcConnectTimeout cfg),
         pcMaxConnIdleTime := 15 * Second, pcMaxConnLifetime := pgConnRecycleSeconds * Second,
         pcRuntimeParams := gset ''application_name'' applicationName (pcRuntimeParams cfg), pcTraced := True\<rparr>"

definition NewWithConfig :: "(pool_cfg \<Rightarrow> goerr + 'p) \<Rightarrow> (pool_cfg \<Rightarrow> goerr + pool_cfg) list \<Rightarrow> pool_cfg \<Rightarrow> goerr + 'p" where
  "NewWithConfig newPool callbacks cfg =
     (case run_callbacks callbacks (pool_defaults cfg) of Inl err \<Rightarrow> Inl err | Inr cfg \<Rightarrow> newPool cfg)"

definition db_New :: "(string \<Rightarrow> goerr + pool_cfg) \<Rightarrow> (pool_cfg \<Rightarrow> goerr + 'p) \<Rightarrow> (pool_cfg \<Rightarrow> goerr + pool_cfg) list \<Rightarrow> string \<Rightarrow> goerr + 'p" where
  "db_New parse newPool callbacks connStr =
     (case parse connStr of Inl err \<Rightarrow> Inl err | Inr cfg \<Rightarrow> NewWithConfig newPool callbacks cfg)"

text \<open>Without callbacks every pool has a connection timeout and names the program.\<close>

lemma New_config:
  assumes "db_New parse newPool [] connStr = Inr p"
  obtains cfg where "newPool cfg = Inr p" "pcConnectTimeout cfg \<noteq> 0" "gget (pcRuntimeParams cfg) ''application_name'' = Some ''pgwatch''"
    "pcMaxConnIdleTime cfg = 15 * Second"
  using assms that
  by (auto simp: db_New_def NewWithConfig_def pool_defaults_def applicationName_def gomap_simps Second_def split: sum.splits)

section \<open>The configuration database\<close>

text \<open>The answers a storage gets while it is opened; \<open>ans_new\<close> is the outcome of opening the pool.\<close>

record open_answers =
  ans_new :: "goerr option"
  ans_exists :: "goerr option"
  ans_step :: "nat \<Rightarrow> goerr option"
  ans_write :: "nat \<Rightarrow> goerr option"
  ans_ping :: "goerr option"

definition EnsureConfigSchema :: "open_answers \<Rightarrow> metrics \<Rightarrow> config_state \<Rightarrow> config_state \<times> goerr option" where
  "EnsureConfigSchema a defaults st = initSchema (ans_exists a) (ans_step a) (ans_write a) defaults st"

text \<open>The state of the database, whether a storage was returned, and the error; a failed ping returns both.\<close>

definition NewPostgresMetricReaderWriterConn :: "open_answers \<Rightarrow> metrics \<Rightarrow> config_state \<Rightarrow> config_state \<times> bool \<times> goerr option" where
  "NewPostgresMetricReaderWriterConn a defaults st =
     (case initSchema (ans_exists a) (ans_step a) (ans_write a) defaults st of
        (st, Some err) \<Rightarrow> (st, False, Some err)
      | (st, None) \<Rightarrow> (st, True, ans_ping a))"

definition NewPostgresMetricReaderWriter :: "open_answers \<Rightarrow> metrics \<Rightarrow> config_state \<Rightarrow> config_state \<times> bool \<times> goerr option" where
  "NewPostgresMetricReaderWriter a defaults st =
     (case ans_new a of Some err \<Rightarrow> (st, False, Some err) | None \<Rightarrow> NewPostgresMetricReaderWriterConn a defaults st)"

definition NewPostgresSourcesReaderWriterConn :: "open_answers \<Rightarrow> metrics \<Rightarrow> config_state \<Rightarrow> config_state \<times> bool \<times> goerr option" where
  "NewPostgresSourcesReaderWriterConn a defaults st =
     (case EnsureConfigSchema a defaults st of
        (st, Some err) \<Rightarrow> (st, False, Some err)
      | (st, None) \<Rightarrow> (st, True, ans_ping a))"

definition NewPostgresSourcesReaderWriter :: "open_answers \<Rightarrow> metrics \<Rightarrow> config_state \<Rightarrow> config_state \<times> bool \<times> goerr option" where
  "NewPostgresSourcesReaderWriter a defaults st =
     (case ans_new a of Some err \<Rightarrow> (st, False, Some err) | None \<Rightarrow> NewPostgresSourcesReaderWriterConn a defaults st)"

text \<open>The migrator library is created with the list of migrations and then runs them, or says whether any are missing.\<close>

definition MigrateConfigSchema :: "goerr + (config_state \<Rightarrow> config_state \<times> goerr option) \<Rightarrow> config_state \<Rightarrow> config_state \<times> goerr option" where
  "MigrateConfigSchema m st =
     (case m of Inl err \<Rightarrow> (st, Some (ErrWrap ''cannot initialize migration'' err)) | Inr migrate \<Rightarrow> migrate st)"

definition NeedsConfigSchemaMigration :: "goerr + (config_state \<Rightarrow> goerr + bool) \<Rightarrow> config_state \<Rightarrow> goerr + bool" where
  "NeedsConfigSchemaMigration m st = (case m of Inl err \<Rightarrow> Inl err | Inr needUpgrade \<Rightarrow> needUpgrade st)"

section \<open>The migrator of the sink\<close>

definition NewPostgresSinkMigrator :: "goerr option \<Rightarrow> pg_sql \<Rightarrow> goerr + pg_sql" where
  "NewPostgresSinkMigrator newErr sql =
     (case newErr of
        Some err \<Rightarrow> Inl err
      | None \<Rightarrow>
          (case ps_schemaExists sql of
             Inl err \<Rightarrow> Inl err
           | Inr True \<Rightarrow> Inr sql
           | Inr False \<Rightarrow>
               (case first_error (ps_script sql) metricSchemaSQLs of Some err \<Rightarrow> Inl err | None \<Rightarrow> Inr sql)))"

definition NewPostgresWriter :: "goerr option \<Rightarrow> sink_opts \<Rightarrow> pg_sql \<Rightarrow> goerr + pg_writer \<times> int option" where
  "NewPostgresWriter newErr opts sql = (case newErr of Some err \<Rightarrow> Inl err | None \<Rightarrow> NewWriterFromPostgresConn opts sql)"

definition pgw_Migrate :: "goerr + (unit \<Rightarrow> goerr option) \<Rightarrow> goerr option" where
  "pgw_Migrate m = (case m of Inl err \<Rightarrow> Some (ErrWrap ''cannot initialize migration'' err) | Inr migrate \<Rightarrow> migrate ())"

definition pgw_NeedsMigration :: "goerr + (goerr + bool) \<Rightarrow> goerr + bool" where
  "pgw_NeedsMigration m = (case m of Inl err \<Rightarrow> Inl err | Inr needUpgrade \<Rightarrow> needUpgrade)"

section \<open>TLS and the gRPC sink\<close>

record tls_env =
  te_ReadFile :: "string \<Rightarrow> goerr option"
  te_PEM :: "string \<Rightarrow> bool"
  te_KeyPair :: "string \<Rightarrow> string \<Rightarrow> goerr option"

definition LoadTLSCredentials :: "tls_env \<Rightarrow> string \<Rightarrow> goerr + string" where
  "LoadTLSCredentials te file =
     (case te_ReadFile te file of
        Some err \<Rightarrow> Inl (ErrText ''error loading CA file'')
      | None \<Rightarrow> if te_PEM te file then Inr file else Inl (ErrText ''invalid CA file''))"

text \<open>\<open>getTransport\<close>: the authority and the certificate of the client, each if it is configured.\<close>

record tls_config =
  tcRootCAs :: "string option"
  tcCertificate :: "(string \<times> string) option"

definition getTransport :: "tls_env \<Rightarrow> hostconfig \<Rightarrow> goerr + tls_config option" where
  "getTransport te conf =
     (if \<not> UsesTLS conf then Inr None
      else
        (case (if CAFile conf \<noteq> []
               then (case te_ReadFile te (CAFile conf) of
                       Some err \<Rightarrow> Inl (ErrWrap ''cannot load CA file'' err)
                     | None \<Rightarrow> if te_PEM te (CAFile conf) then Inr (Some (CAFile conf))
                               else Inl (ErrText (''no PEM certificates found in CA file '' @ CAFile conf)))
               else Inr None) of
           Inl err \<Rightarrow> Inl err
         | Inr ca \<Rightarrow>
             (if CertFile conf \<noteq> []
              then (case te_KeyPair te (CertFile conf) (KeyFile conf) of
                      Some err \<Rightarrow> Inl (ErrWrap ''cannot load client cert or key file'' err)
                    | None \<Rightarrow> Inr (Some \<lparr>tcRootCAs = ca, tcCertificate = Some (CertFile conf, KeyFile conf)\<rparr>))
              else Inr (Some \<lparr>tcRootCAs = ca, tcCertificate = None\<rparr>))))"

record rpc_uri =
  ruHost :: string
  ruUser :: "(string \<times> string option) option"
  ruParams :: "goerr + (string, string list) gomap"

text \<open>The credentials sent with every call.\<close>

definition rpc_login :: "rpc_uri \<Rightarrow> string \<times> string" where
  "rpc_login u = (case ruUser u of None \<Rightarrow> ([], []) | Some (name, pw) \<Rightarrow> (name, case pw of None \<Rightarrow> [] | Some p \<Rightarrow> p))"

text \<open>
  \<open>newClient\<close> creates the client for a host and the authority to trust, if any. A query parameter that is present has a first value. The
  result carries the writer and the credentials.
\<close>

definition NewRPCWriter ::
  "(string \<Rightarrow> goerr + rpc_uri) \<Rightarrow> tls_env \<Rightarrow> (string \<Rightarrow> string option \<Rightarrow> goerr option) \<Rightarrow> sink_env \<Rightarrow> string
     \<Rightarrow> goerr + rpc_writer \<times> (string \<times> string)" where
  "NewRPCWriter parse te newClient env connStr =
     (case parse connStr of
        Inl err \<Rightarrow> Inl (ErrText ''error parsing gRPC URI'')
      | Inr uri \<Rightarrow>
          (case ruParams uri of
             Inl err \<Rightarrow> Inl (ErrText ''error parsing gRPC URI parameters'')
           | Inr params \<Rightarrow>
               (case (case gget params ''sslrootca'' of
                        None \<Rightarrow> Inr None
                      | Some vals \<Rightarrow> (case LoadTLSCredentials te (hd vals) of Inl err \<Rightarrow> Inl err | Inr ca \<Rightarrow> Inr (Some ca))) of
                  Inl err \<Rightarrow> Inl err
                | Inr creds \<Rightarrow>
                    (case newClient (ruHost uri) creds of
                       Some err \<Rightarrow> Inl err
                     | None \<Rightarrow>
                         (case RPC_Ping env \<lparr>rw_ctxErr = None, rw_calls = [], rw_closed = False\<rparr> of
                            (_, Some err) \<Rightarrow> Inl err
                          | (rw, None) \<Rightarrow> Inr (rw, rpc_login uri))))))"

text \<open>With an authority in the URI the client is created with it or not at all.\<close>

lemma rpc_tls_enforced:
  assumes "NewRPCWriter parse te newClient env connStr = Inr r" "parse connStr = Inr uri" "ruParams uri = Inr params"
    "gget params ''sslrootca'' = Some (ca # cas)"
  shows "te_PEM te ca \<and> newClient (ruHost uri) (Some ca) = None"
  using assms by (auto simp: NewRPCWriter_def LoadTLSCredentials_def split: option.splits if_splits sum.splits prod.splits)

section \<open>Credentials in a URL\<close>

record 'u parsed_url =
  puUser :: "(string \<times> string option) option"
  puRest :: 'u

definition RedactURL :: "(string \<Rightarrow> goerr + 'u parsed_url) \<Rightarrow> ('u parsed_url \<Rightarrow> string) \<Rightarrow> string \<Rightarrow> string" where
  "RedactURL parse render rawURL =
     (case parse rawURL of
        Inl _ \<Rightarrow> rawURL
      | Inr u \<Rightarrow>
          (case puUser u of
             None \<Rightarrow> rawURL
           | Some (name, None) \<Rightarrow> rawURL
           | Some (name, Some _) \<Rightarrow> render (u\<lparr>puUser := Some (name, Some ''xxxxx'')\<rparr>)))"

text \<open>What is shown of a URL does not depend on the password in it.\<close>

lemma RedactURL_hides:
  assumes "parse url1 = Inr (u\<lparr>puUser := Some (name, Some pw1)\<rparr>)" "parse url2 = Inr (u\<lparr>puUser := Some (name, Some pw2)\<rparr>)"
  shows "RedactURL parse render url1 = RedactURL parse render url2"
  using assms by (simp add: RedactURL_def)

section \<open>The web server\<close>

text \<open>The key of the process is drawn at first use; \<open>draw\<close> is what the random generator yields then.\<close>

definition jwtSecretKey :: "'k \<Rightarrow> 'k option \<Rightarrow> 'k option \<times> 'k" where
  "jwtSecretKey draw key = (case key of None \<Rightarrow> (Some draw, draw) | Some k \<Rightarrow> (Some k, k))"

fun key_uses :: "'k list \<Rightarrow> 'k option \<Rightarrow> 'k list" where
  "key_uses [] key = []"
| "key_uses (draw # draws) key = (let (key, k) = jwtSecretKey draw key in k # key_uses draws key)"

lemma one_key: "\<exists>k. set (key_uses draws key) \<subseteq> {k}"
proof -
  have "set (key_uses draws (Some k)) \<subseteq> {k}" for k by (induction draws) (auto simp: jwtSecretKey_def)
  then show ?thesis by (cases key; cases draws) (auto simp: jwtSecretKey_def)
qed

text \<open>\<open>prepareIndexHTML\<close>: the template with the base path.\<close>

definition prepareIndexHTML :: "goerr + (string \<Rightarrow> goerr + string) \<Rightarrow> string \<Rightarrow> goerr + string" where
  "prepareIndexHTML tmpl webBasePath = (case tmpl of Inl err \<Rightarrow> Inl err | Inr render \<Rightarrow> render webBasePath)"

record web_server =
  wsBasePath :: string
  wsIndexHTML :: string
  wsStatic :: bool

definition base_path :: "string \<Rightarrow> string" where
  "base_path webBasePath = ''/'' @ webBasePath @ (if webBasePath \<noteq> [] then ''/'' else [])"

text \<open>\<open>None\<close> when the server is disabled.\<close>

definition web_Init :: "goerr + (string \<Rightarrow> goerr + string) \<Rightarrow> goerr option \<Rightarrow> string \<Rightarrow> string \<Rightarrow> goerr + web_server option" where
  "web_Init tmpl listenErr webDisable webBasePath =
     (if webDisable = ''all'' then Inr None
      else
        (case (if webDisable \<noteq> ''ui'' then prepareIndexHTML tmpl webBasePath else Inr []) of
           Inl err \<Rightarrow> Inl err
         | Inr index \<Rightarrow>
             (case listenErr of
                Some err \<Rightarrow> Inl err
              | None \<Rightarrow> Inr (Some \<lparr>wsBasePath = base_path webBasePath, wsIndexHTML = index, wsStatic = (webDisable \<noteq> ''ui'')\<rparr>))))"

section \<open>The defaults are written once\<close>

lemma upd_add: "g n = None \<Longrightarrow> f(n \<mapsto> v) ++ g = (f ++ g)(n \<mapsto> v)"
  by (auto simp: map_add_def fun_eq_iff split: option.split)

lemma write_metric_rows_view:
  "write_metric_rows fail i ms db = Inr (j, db') \<Longrightarrow> gwf ms \<Longrightarrow>
   gget (t_metric db') = gget (t_metric db) ++ gget ms \<and> t_preset db' = t_preset db"
  by (induction fail i ms db arbitrary: j db' rule: write_metric_rows.induct)
     (auto simp: gomap_simps upd_add map_of_eq_None_iff image_iff split: option.splits)

lemma write_preset_rows_view:
  "write_preset_rows fail i ps db = Inr (j, db') \<Longrightarrow> gwf ps \<Longrightarrow>
   map_option row_preset \<circ> gget (t_preset db') = (map_option row_preset \<circ> gget (t_preset db)) ++ (map_option preset_filled \<circ> gget ps) \<and>
   t_metric db' = t_metric db"
  by (induction fail i ps db arbitrary: j db' rule: write_preset_rows.induct)
     (auto simp: gomap_simps fun_upd_comp row_preset_filled upd_add map_of_eq_None_iff image_iff split: option.splits)

lemma initSchema_seeds:
  assumes "initSchema ex fail wfail defaults st = (st', None)" "\<not> c_exists st" "gwf (MetricDefs defaults)" "gwf (PresetDefs defaults)"
  shows "c_exists st' \<and> pg_metric_view (c_db st') = Some (gget (MetricDefs defaults)) \<and>
    pg_preset_view (c_db st') = Some (map_option preset_filled \<circ> gget (PresetDefs defaults))"
proof -
  from assms(1,2) obtain db where db: "writeMetricsToPostgres wfail defaults no_tables = (db, None)"
    and st': "st' = \<lparr>c_exists = True, c_source = [], c_db = db\<rparr>"
    by (auto simp: initSchema_def split: option.splits prod.splits if_splits)
  from db obtain i db1 j where 1: "write_metric_rows wfail 1 (MetricDefs defaults) no_tables = Inr (i, db1)"
    and 2: "write_preset_rows wfail i (PresetDefs defaults) db1 = Inr (j, db)"
    by (auto simp: writeMetricsToPostgres_def split: option.splits sum.splits prod.splits)
  show ?thesis
    using write_metric_rows_view [OF 1 assms(3)] write_preset_rows_view [OF 2 assms(4)]
    by (simp add: st' pg_metric_view_eq pg_preset_view_eq no_tables_def)
qed

text \<open>
  the first successful opening of a configuration database creates its tables with the default metrics and presets; every later opening, for
  sources or metrics and whatever the defaults of that release are, leaves all tables as they are.
\<close>

theorem config_seeded_once:
  assumes "\<not> c_exists st" "gwf (MetricDefs defaults)" "gwf (PresetDefs defaults)"
    and "NewPostgresMetricReaderWriter a defaults st = (st1, True, err)"
    and "c_exists st2"
  shows "c_exists st1 \<and> pg_metric_view (c_db st1) = Some (gget (MetricDefs defaults)) \<and>
    pg_preset_view (c_db st1) = Some (map_option preset_filled \<circ> gget (PresetDefs defaults)) \<and>
    fst (NewPostgresMetricReaderWriter a' defaults' st2) = st2 \<and> fst (NewPostgresSourcesReaderWriter a' defaults' st2) = st2"
proof -
  have "initSchema (ans_exists a) (ans_step a) (ans_write a) defaults st = (st1, None)"
    using assms(4)
    by (auto simp: NewPostgresMetricReaderWriter_def NewPostgresMetricReaderWriterConn_def split: option.splits prod.splits)
  note initSchema_seeds [OF this assms(1-3)]
  moreover have "fst (NewPostgresMetricReaderWriter a' defaults' st2) = st2" "fst (NewPostgresSourcesReaderWriter a' defaults' st2) = st2"
    using assms(5)
    by (simp_all add: NewPostgresMetricReaderWriter_def NewPostgresMetricReaderWriterConn_def NewPostgresSourcesReaderWriter_def
        NewPostgresSourcesReaderWriterConn_def EnsureConfigSchema_def initSchema_def split: option.split)
  ultimately show ?thesis by blast
qed

theorem config_seeded_once_witness:
  "let a = \<lparr>ans_new = None, ans_exists = None, ans_step = (\<lambda>_. None), ans_write = (\<lambda>_. None), ans_ping = None\<rparr>;
       st = \<lparr>c_exists = False, c_source = [], c_db = no_tables\<rparr>;
       defaults = \<lparr>MetricDefs = [(''wal'', plain_metric [(14, ''select 1'')])], PresetDefs = []\<rparr>;
       st1 = fst (NewPostgresMetricReaderWriter a defaults st)
   in pg_metric_view (c_db st1) = Some [''wal'' \<mapsto> plain_metric [(14, ''select 1'')]] \<and>
      fst (NewPostgresSourcesReaderWriter a no_metrics st1) = st1"
proof -
  let ?a = "\<lparr>ans_new = None, ans_exists = None, ans_step = (\<lambda>_. None), ans_write = (\<lambda>_. None), ans_ping = None\<rparr>"
  let ?st = "\<lparr>c_exists = False, c_source = [], c_db = no_tables\<rparr>"
  let ?defaults = "\<lparr>MetricDefs = [(''wal'', plain_metric [(14, ''select 1'')])], PresetDefs = []\<rparr>"
  let ?st1 = "fst (NewPostgresMetricReaderWriter ?a ?defaults ?st)"
  have opened: "NewPostgresMetricReaderWriter ?a ?defaults ?st = (?st1, True, None)" "c_exists ?st1"
    by (simp_all add: NewPostgresMetricReaderWriter_def NewPostgresMetricReaderWriterConn_def initSchema_def writeMetricsToPostgres_def)
  from config_seeded_once [OF _ _ _ this, of ?a no_metrics] show ?thesis unfolding Let_def by auto
qed

end
