(* ===== verification/Cmd_Options.thy ===== *)
theory Cmd_Options
  imports Metric_Types Source_Types Db_Conn
begin

text \<open>
  The command line (\<open>internal/cmdopts\<close>) and the start of the program (\<open>cmd/pgwatch/main.go\<close>): validating
  the options, opening storages and sinks, the subcommands, and the exit code.

  Parsing the options is done by a library; its outcome is a value. Everything the commands ask of storages, servers and the
  file system is a field of \<open>cmd_env\<close>. A storage is a value that says what was opened.
\<close>

section \<open>Options\<close>

definition ExitCodeOK :: int where "ExitCodeOK = 0"
definition ExitCodeConfigError :: int where "ExitCodeConfigError = 1"
definition ExitCodeCmdError :: int where "ExitCodeCmdError = 2"
definition ExitCodeWebUIError :: int where "ExitCodeWebUIError = 3"
definition ExitCodeUpgradeError :: int where "ExitCodeUpgradeError = 4"
definition ExitCodeUserCancel :: int where "ExitCodeUserCancel = 5"
definition ExitCodeShutdownCommand :: int where "ExitCodeShutdownCommand = 6"
definition ExitCodeFatalError :: int where "ExitCodeFatalError = 7"

lemmas exit_codes = ExitCodeOK_def ExitCodeConfigError_def ExitCodeCmdError_def ExitCodeWebUIError_def ExitCodeUpgradeError_def

datatype config_kind = ConfigPgURL | ConfigFile | ConfigFolder

datatype storage = YamlStorage string | PgStorage string | SinkStorage "string list"

datatype out_item = Line string | ErrLine goerr

record options =
  o_Sources :: string
  o_Refresh :: int
  o_MaxParallel :: int
  o_Metrics :: string
  o_Sinks :: "string list"
  o_BatchingDelay :: int
  o_Help :: bool
  o_SourcesRW :: "storage option"
  o_MetricsRW :: "storage option"
  o_SinksWriter :: "storage option"
  o_ExitCode :: int
  o_CommandCompleted :: bool
  o_Output :: "out_item list"

text \<open>A resolved source, with the URL made of its connection configuration if it is a database.\<close>

record resolved =
  res_Name :: string
  res_ConnStr :: string
  res_url :: "string option"

record cmd_env =
  ce_IsPgConnStr :: "string \<Rightarrow> bool"
  ce_IsDir :: "string \<Rightarrow> goerr + bool"
  ce_NewPgMetrics :: "string \<Rightarrow> goerr option"
  ce_NewYamlMetrics :: "string \<Rightarrow> goerr option"
  ce_NewPgSources :: "string \<Rightarrow> goerr option"
  ce_NewYamlSources :: "string \<Rightarrow> goerr option"
  ce_NewSinkWriter :: "string list \<Rightarrow> goerr option"
  ce_NewSinkMigrator :: "string \<Rightarrow> goerr option"
  ce_NeedsMigration :: "storage \<Rightarrow> (goerr + bool) option"
  ce_Migrate :: "storage \<Rightarrow> goerr option"
  ce_GetSources :: "storage \<Rightarrow> goerr + source list"
  ce_GetMetrics :: "storage \<Rightarrow> goerr + metrics"
  ce_WriteSources :: "string \<Rightarrow> source list \<Rightarrow> goerr option"
  ce_WriteMetrics :: "storage \<Rightarrow> metrics \<Rightarrow> goerr option"
  ce_DefaultMetrics :: metrics
  ce_yaml :: "metrics \<Rightarrow> string"
  ce_ResolvePatroni :: "source \<Rightarrow> goerr option"
  ce_ResolvePostgres :: "source \<Rightarrow> goerr option"
  ce_ResolveDatabases :: "source list \<Rightarrow> goerr + resolved list"
  ce_Connect :: "source \<Rightarrow> goerr option"
  ce_Ping :: "source \<Rightarrow> goerr option"
  ce_WebInit :: "options \<Rightarrow> goerr option"

definition CompleteCommand :: "int \<Rightarrow> options \<Rightarrow> options" where
  "CompleteCommand code c = c\<lparr>o_CommandCompleted := True, o_ExitCode := code\<rparr>"

definition print_line :: "string \<Rightarrow> options \<Rightarrow> options" where
  "print_line s c = c\<lparr>o_Output := o_Output c @ [Line s]\<rparr>"

definition print_errors :: "goerr list \<Rightarrow> options \<Rightarrow> options" where
  "print_errors es c = c\<lparr>o_Output := o_Output c @ map ErrLine es\<rparr>"

definition GetConfigKind :: "cmd_env \<Rightarrow> string \<Rightarrow> goerr + config_kind" where
  "GetConfigKind env arg =
     (if arg = [] then Inl (ErrText ''no configuration provided'')
      else if ce_IsPgConnStr env arg then Inr ConfigPgURL
      else case ce_IsDir env arg of
             Inr d \<Rightarrow> Inr (if d then ConfigFolder else ConfigFile)
           | Inl err \<Rightarrow> Inl err)"

text \<open>The switch by which one configuration database serves for both sources and metrics.\<close>

definition share_config_db :: "cmd_env \<Rightarrow> options \<Rightarrow> options" where
  "share_config_db env c =
     (if o_Sources c = [] \<and> ce_IsPgConnStr env (o_Metrics c) then c\<lparr>o_Sources := o_Metrics c\<rparr>
      else if o_Metrics c = [] \<and> ce_IsPgConnStr env (o_Sources c) then c\<lparr>o_Metrics := o_Sources c\<rparr>
      else c)"

definition ValidateConfig :: "cmd_env \<Rightarrow> options \<Rightarrow> options \<times> goerr option" where
  "ValidateConfig env c =
     (if o_Sources c = [] \<and> o_Metrics c = [] then (c, Some (ErrText ''both --sources and --metrics are empty''))
      else let c = share_config_db env c
      in (c,
          if ce_IsPgConnStr env (o_Sources c) \<and> ce_IsPgConnStr env (o_Metrics c) \<and> o_Sources c \<noteq> o_Metrics c
          then Some (ErrText ''--sources and --metrics must use the same configuration database'')
          else if o_Refresh c \<le> 1 then Some (ErrText ''--refresh must be greater than 1'')
          else if o_MaxParallel c < 1 then Some (ErrText ''--max-parallel-connections-per-db must be >= 1'')
          else if o_BatchingDelay c \<le> 0 \<or> o_BatchingDelay c > Hour
          then Some (ErrText ''--batching-delay must be between 0 and 1h'')
          else None))"

section \<open>Opening storages and sinks\<close>

definition opened :: "storage \<Rightarrow> goerr option \<Rightarrow> storage option" where
  "opened st err = (case err of None \<Rightarrow> Some st | Some _ \<Rightarrow> None)"

definition InitMetricReader :: "cmd_env \<Rightarrow> options \<Rightarrow> options \<times> goerr option" where
  "InitMetricReader env c =
     (let uri = o_Metrics c;
          (st, err) = (if uri \<noteq> [] \<and> ce_IsPgConnStr env uri then (PgStorage uri, ce_NewPgMetrics env uri)
                       else (YamlStorage uri, ce_NewYamlMetrics env uri))
      in (c\<lparr>o_MetricsRW := opened st err\<rparr>, err))"

definition InitSourceReader :: "cmd_env \<Rightarrow> options \<Rightarrow> options \<times> goerr option" where
  "InitSourceReader env c =
     (let uri = o_Sources c
      in case GetConfigKind env uri of
           Inl err \<Rightarrow> (c, Some err)
         | Inr ConfigPgURL \<Rightarrow> (c\<lparr>o_SourcesRW := opened (PgStorage uri) (ce_NewPgSources env uri)\<rparr>, ce_NewPgSources env uri)
         | Inr _ \<Rightarrow> (c\<lparr>o_SourcesRW := opened (YamlStorage uri) (ce_NewYamlSources env uri)\<rparr>, ce_NewYamlSources env uri))"

text \<open>A storage that was not opened is \<open>nil\<close> and no \<open>Migrator\<close>.\<close>

definition needs :: "cmd_env \<Rightarrow> storage option \<Rightarrow> (goerr + bool) option" where
  "needs env st = (case st of None \<Rightarrow> None | Some s \<Rightarrow> ce_NeedsMigration env s)"

definition InitConfigReaders :: "cmd_env \<Rightarrow> options \<Rightarrow> options \<times> goerr option" where
  "InitConfigReaders env c =
     (let (c, e1) = InitMetricReader env c; (c, e2) = InitSourceReader env c
      in case errors_Join [e1, e2] of
           Some err \<Rightarrow> (c, Some err)
         | None \<Rightarrow> (c, NeedsMigration (needs env (o_MetricsRW c)) (Sentinel ErrConfigNeedsMigration)))"

definition InitSinkWriter :: "cmd_env \<Rightarrow> options \<Rightarrow> options \<times> goerr option" where
  "InitSinkWriter env c =
     (case ce_NewSinkWriter env (o_Sinks c) of
        Some err \<Rightarrow> (c\<lparr>o_SinksWriter := None\<rparr>, Some err)
      | None \<Rightarrow> (c\<lparr>o_SinksWriter := Some (SinkStorage (o_Sinks c))\<rparr>,
                 NeedsMigration (ce_NeedsMigration env (SinkStorage (o_Sinks c))) (Sentinel ErrSinkNeedsMigration)))"

text \<open>The storages are asked in turn until one needs an upgrade or fails.\<close>

fun first_upgrade :: "(goerr + bool) option list \<Rightarrow> bool \<times> goerr option" where
  "first_upgrade [] = (False, None)"
| "first_upgrade (None # ms) = first_upgrade ms"
| "first_upgrade (Some (Inl err) # ms) = (False, Some err)"
| "first_upgrade (Some (Inr up) # ms) = (if up then (True, None) else first_upgrade ms)"

definition NeedsSchemaUpgrade :: "cmd_env \<Rightarrow> options \<Rightarrow> bool \<times> goerr option" where
  "NeedsSchemaUpgrade env c = first_upgrade [needs env (o_SourcesRW c), needs env (o_MetricsRW c), needs env (o_SinksWriter c)]"

section \<open>Configuration commands\<close>

definition empty_source :: source where
  "empty_source = \<lparr>Name = [], Group = [], ConnStr = [], Metrics = None, MetricsStandby = None, Kind = [],
     IncludePattern = [], ExcludePattern = [], PresetMetrics = [], PresetMetricsStandby = [], IsEnabled = False,
     sCustomTags = None, OnlyIfMaster = False\<rparr>"

definition InitSources :: "cmd_env \<Rightarrow> options \<Rightarrow> options \<times> goerr option" where
  "InitSources env c =
     (if ce_IsPgConnStr env (o_Sources c) then InitSourceReader env c
      else (c, ce_WriteSources env (o_Sources c) [empty_source]))"

definition InitMetrics :: "cmd_env \<Rightarrow> options \<Rightarrow> options \<times> goerr option" where
  "InitMetrics env c =
     (let (c, err) = InitMetricReader env c
      in if err \<noteq> None \<or> ce_IsPgConnStr env (o_Metrics c) then (c, err)
         else (c, ce_WriteMetrics env (YamlStorage (o_Metrics c)) (ce_DefaultMetrics env)))"

definition InitSinks :: "cmd_env \<Rightarrow> options \<Rightarrow> options \<times> goerr option" where [simp]:
  "InitSinks env c = InitSinkWriter env c"

definition InitCommand_Execute :: "cmd_env \<Rightarrow> options \<Rightarrow> options \<times> goerr option" where
  "InitCommand_Execute env c =
     (case ValidateConfig env c of
        (c, Some err) \<Rightarrow> (c, Some err)
      | (c, None) \<Rightarrow>
          let (c, err) = (if o_Metrics c \<noteq> [] then InitMetrics env c else (c, None));
              (c, err) = (if o_Sources c \<noteq> [] \<and> o_Metrics c \<noteq> o_Sources c
                          then apsnd (\<lambda>e. errors_Join [err, e]) (InitSources env c) else (c, err));
              (c, err) = (if o_Sinks c \<noteq> [] then apsnd (\<lambda>e. errors_Join [err, e]) (InitSinks env c) else (c, err))
          in (CompleteCommand (if err = None then ExitCodeOK else ExitCodeConfigError) c, err))"

text \<open>The function \<open>f\<close> of the upgrade: opening a storage and migrating it.\<close>

definition upgrade_storage :: "cmd_env \<Rightarrow> string \<Rightarrow> goerr option \<Rightarrow> storage \<Rightarrow> goerr option" where
  "upgrade_storage env uri initErr st =
     (if uri = [] then None
      else if \<not> ce_IsPgConnStr env uri then Some (ErrWrap (''cannot upgrade storage '' @ uri) (Sentinel ErrUnsupported))
      else case initErr of Some e \<Rightarrow> Some e | None \<Rightarrow> ce_Migrate env st)"

fun upgrade_sinks :: "cmd_env \<Rightarrow> string list \<Rightarrow> goerr option \<Rightarrow> goerr option" where
  "upgrade_sinks env [] err = err"
| "upgrade_sinks env (uri # uris) err =
     upgrade_sinks env uris (errors_Join [err, upgrade_storage env uri (ce_NewSinkMigrator env uri) (SinkStorage [uri])])"

fun unwrap_errors :: "goerr \<Rightarrow> goerr list" where
  "unwrap_errors (ErrJoin es) = es"
| "unwrap_errors e = [e]"

definition upgrade_all :: "cmd_env \<Rightarrow> options \<Rightarrow> goerr option" where
  "upgrade_all env c =
     upgrade_sinks env (o_Sinks c)
       (errors_Join [upgrade_storage env (o_Sources c) (ce_NewPgSources env (o_Sources c)) (PgStorage (o_Sources c)),
                     upgrade_storage env (o_Metrics c) (ce_NewPgMetrics env (o_Metrics c)) (PgStorage (o_Metrics c))])"

definition UpgradeCommand_Execute :: "cmd_env \<Rightarrow> options \<Rightarrow> options \<times> goerr option" where
  "UpgradeCommand_Execute env c =
     (if o_Sources c = [] \<and> o_Metrics c = [] \<and> o_Sinks c = []
      then (CompleteCommand ExitCodeConfigError c,
            Some (ErrText ''at least one of --sources, --metrics, or --sink must be specified''))
      else let c = share_config_db env c
      in case upgrade_all env c of
           None \<Rightarrow> (CompleteCommand ExitCodeOK c, None)
         | Some err \<Rightarrow>
             let c = print_errors (takeWhile (\<lambda>e. errors_Is e ErrUnsupported) (unwrap_errors err)) c
             in if list_all (\<lambda>e. errors_Is e ErrUnsupported) (unwrap_errors err) then (CompleteCommand ExitCodeOK c, None)
                else (CompleteCommand ExitCodeConfigError c, Some err))"

section \<open>Source commands\<close>

definition found_sources :: "string list \<Rightarrow> source list \<Rightarrow> source list" where
  "found_sources args srcs =
     (if args = [] then srcs else concat (map (\<lambda>name. filter (\<lambda>s. Name s = name) srcs) args))"

definition ping_source :: "cmd_env \<Rightarrow> source \<Rightarrow> goerr option" where
  "ping_source env s =
     (if Kind s = SourcePatroniDiscovery then ce_ResolvePatroni env s
      else if Kind s = SourcePostgresDiscovery then ce_ResolvePostgres env s
      else case ce_Connect env s of Some e \<Rightarrow> Some e | None \<Rightarrow> ce_Ping env s)"

fun ping_all :: "cmd_env \<Rightarrow> source list \<Rightarrow> goerr option \<Rightarrow> options \<Rightarrow> options \<times> goerr option" where
  "ping_all env [] err c = (c, err)"
| "ping_all env (s # srcs) err c =
     (let e = ping_source env s
      in ping_all env srcs (errors_Join [err, e]) (print_line ((if e \<noteq> None then ''FAIL: '' else ''OK: '') @ Name s) c))"

definition with_sources :: "cmd_env \<Rightarrow> (source list \<Rightarrow> options \<Rightarrow> options \<times> goerr option) \<Rightarrow> options \<Rightarrow> options \<times> goerr option" where
  "with_sources env f c =
     (case InitSourceReader env c of
        (c, Some err) \<Rightarrow> (c, Some err)
      | (c, None) \<Rightarrow>
          (case o_SourcesRW c of
             None \<Rightarrow> (c, None)
           | Some st \<Rightarrow> (case ce_GetSources env st of Inl err \<Rightarrow> (c, Some err) | Inr srcs \<Rightarrow> f srcs c)))"

definition PingCommand_Execute :: "cmd_env \<Rightarrow> string list \<Rightarrow> options \<Rightarrow> options \<times> goerr option" where
  "PingCommand_Execute env args =
     with_sources env (\<lambda>srcs c.
       let (c, err) = ping_all env (found_sources args srcs) None c
       in (CompleteCommand (if err \<noteq> None then ExitCodeCmdError else ExitCodeOK) c, None))"

definition ResolveCommand_Execute :: "cmd_env \<Rightarrow> string list \<Rightarrow> options \<Rightarrow> options \<times> goerr option" where
  "ResolveCommand_Execute env args =
     with_sources env (\<lambda>srcs c.
       case ce_ResolveDatabases env (found_sources args srcs) of
         Inl err \<Rightarrow> (c, Some err)
       | Inr conns \<Rightarrow>
           (CompleteCommand ExitCodeOK
              (fold (\<lambda>s c. case res_url s of
                            None \<Rightarrow> c
                          | Some url \<Rightarrow>
                              print_line (res_Name s @ ''='' @ (if res_ConnStr s \<noteq> [] then res_ConnStr s else url)) c)
                 conns c), None))"

section \<open>Metric commands\<close>

definition with_metrics :: "cmd_env \<Rightarrow> string list \<Rightarrow> (metrics \<Rightarrow> options \<Rightarrow> options) \<Rightarrow> options \<Rightarrow> options \<times> goerr option" where
  "with_metrics env args f c =
     (case InitMetricReader env c of
        (c, Some err) \<Rightarrow> (c, Some err)
      | (c, None) \<Rightarrow>
          (case o_MetricsRW c of
             None \<Rightarrow> (c, None)
           | Some st \<Rightarrow>
               (case ce_GetMetrics env st of
                  Inl err \<Rightarrow> (c, Some err)
                | Inr ms \<Rightarrow>
                    (case FilterByNames ms args of
                       Inl err \<Rightarrow> (c, Some err)
                     | Inr ms \<Rightarrow> (CompleteCommand ExitCodeOK (f ms c), None)))))"

definition PrintInit_Execute :: "cmd_env \<Rightarrow> string list \<Rightarrow> options \<Rightarrow> options \<times> goerr option" where
  "PrintInit_Execute env args =
     with_metrics env args (\<lambda>ms c.
       fold (\<lambda>(mname, mdef) c. if InitSQL mdef \<noteq> [] then print_line (InitSQL mdef) (print_line (''-- '' @ mname) c) else c)
         (MetricDefs ms) c)"

definition MaxInt32 :: int where "MaxInt32 = 2147483647"

definition PrintSQL_Execute :: "cmd_env \<Rightarrow> int \<Rightarrow> string list \<Rightarrow> options \<Rightarrow> options \<times> goerr option" where
  "PrintSQL_Execute env version args =
     with_metrics env args (\<lambda>ms c.
       fold (\<lambda>name c.
         case gget (MetricDefs ms) name of
           None \<Rightarrow> c
         | Some m \<Rightarrow>
             let v = GetSQL m (if version = 0 then MaxInt32 else version)
             in if v \<noteq> [] then print_line v (print_line (''-- '' @ name) c) else c) args c)"

definition List_Execute :: "cmd_env \<Rightarrow> string list \<Rightarrow> options \<Rightarrow> options \<times> goerr option" where
  "List_Execute env args = with_metrics env args (\<lambda>ms. print_line (ce_yaml env ms))"

section \<open>The start of the program\<close>

datatype command =
    ConfigInit | ConfigUpgrade | SourcePing "string list" | SourceResolve "string list" | MetricPrintInit "string list"
  | MetricPrintSQL int "string list" | MetricList "string list"

fun Execute :: "cmd_env \<Rightarrow> command \<Rightarrow> options \<Rightarrow> options \<times> goerr option" where
  "Execute env ConfigInit = InitCommand_Execute env"
| "Execute env ConfigUpgrade = UpgradeCommand_Execute env"
| "Execute env (SourcePing args) = PingCommand_Execute env args"
| "Execute env (SourceResolve args) = ResolveCommand_Execute env args"
| "Execute env (MetricPrintInit args) = PrintInit_Execute env args"
| "Execute env (MetricPrintSQL v args) = PrintSQL_Execute env v args"
| "Execute env (MetricList args) = List_Execute env args"

text \<open>
  What the parser makes of the arguments: an error, with a flag for a request for help, or options, a command and the arguments left over.
  It executes the command and returns its error.
\<close>

datatype parsed = ParseError goerr bool options | Parsed options "command option" "string list"

definition New :: "cmd_env \<Rightarrow> parsed \<Rightarrow> options \<times> goerr option" where
  "New env p =
     (case p of
        ParseError err is_help c \<Rightarrow> (if is_help then c\<lparr>o_Help := True\<rparr> else c, Some err)
      | Parsed c cmd nonParsedArgs \<Rightarrow>
          (case (case cmd of None \<Rightarrow> (c, None) | Some cmd \<Rightarrow> Execute env cmd c) of
             (c, Some err) \<Rightarrow> (c, Some err)
           | (c, None) \<Rightarrow>
               (if o_CommandCompleted c then (c, None)
                else if nonParsedArgs \<noteq> [] then (c, Some (ErrText ''unknown argument(s)''))
                else ValidateConfig env c)))"

text \<open>\<open>main\<close> exits with a code or starts to monitor.\<close>

datatype started = Exit int | Reap options

definition main :: "cmd_env \<Rightarrow> parsed \<Rightarrow> started" where
  "main env p =
     (case New env p of
        (c, Some err) \<Rightarrow> Exit (if o_Help c then ExitCodeOK else ExitCodeConfigError)
      | (c, None) \<Rightarrow>
          (if o_CommandCompleted c then Exit (o_ExitCode c)
           else case InitConfigReaders env c of
                  (c, Some err) \<Rightarrow> Exit ExitCodeConfigError
                | (c, None) \<Rightarrow>
                    (case InitSinkWriter env c of
                       (c, Some err) \<Rightarrow> Exit ExitCodeConfigError
                     | (c, None) \<Rightarrow>
                         (let (upgrade, err) = NeedsSchemaUpgrade env c
                          in if upgrade \<or> err \<noteq> None then Exit ExitCodeUpgradeError
                             else if ce_WebInit env c \<noteq> None then Exit ExitCodeWebUIError
                             else Reap c))))"

section \<open>Leaving the program\<close>

text \<open>
  While monitoring, the program has two goroutines that write the exit code: \<open>main\<close>, which leaves when the main context is done or after a panic,
  and the handler of \<open>setupCloseHandler\<close>, which waits for a signal, cancels the context and then stores its code. Their steps interleave until
  \<open>Exit\<close> reads the code.
\<close>

datatype handler_pc = AwaitSignal | SignalCancelled | SignalStored

record proc =
  ps_handler :: handler_pc
  ps_ctxDone :: bool
  ps_leaving :: bool
  ps_exitCode :: int
  ps_exit :: "int option"

definition monitoring :: proc where
  "monitoring = \<lparr>ps_handler = AwaitSignal, ps_ctxDone = False, ps_leaving = False, ps_exitCode = ExitCodeOK, ps_exit = None\<rparr>"

inductive proc_step :: "proc \<Rightarrow> proc \<Rightarrow> bool" where
  handler_cancel: "ps_exit s = None \<Longrightarrow> ps_handler s = AwaitSignal \<Longrightarrow> proc_step s (s\<lparr>ps_handler := SignalCancelled, ps_ctxDone := True\<rparr>)"
| handler_store: "ps_exit s = None \<Longrightarrow> ps_handler s = SignalCancelled \<Longrightarrow> proc_step s (s\<lparr>ps_handler := SignalStored, ps_exitCode := ExitCodeUserCancel\<rparr>)"
| main_returns: "ps_exit s = None \<Longrightarrow> \<not> ps_leaving s \<Longrightarrow> ps_ctxDone s \<Longrightarrow> proc_step s (s\<lparr>ps_leaving := True\<rparr>)"
| main_panics: "ps_exit s = None \<Longrightarrow> \<not> ps_leaving s \<Longrightarrow> proc_step s (s\<lparr>ps_leaving := True, ps_exitCode := ExitCodeFatalError\<rparr>)"
| main_exits: "ps_exit s = None \<Longrightarrow> ps_leaving s \<Longrightarrow> proc_step s (s\<lparr>ps_exit := Some (ps_exitCode s)\<rparr>)"

inductive_cases proc_stepE: "proc_step s s'"

definition proc_reach :: "proc \<Rightarrow> bool" where
  "proc_reach = proc_step\<^sup>*\<^sup>* monitoring"

section \<open>Theorems\<close>

lemma CompleteCommand_simps [simp]:
  "o_CommandCompleted (CompleteCommand code c)" "o_ExitCode (CompleteCommand code c) = code" "o_Help (CompleteCommand code c) = o_Help c"
  by (simp_all add: CompleteCommand_def)

text \<open>A command that returns no error has completed.\<close>

lemma with_sources_ran:
  assumes "with_sources env f c = (c', None)"
  shows "\<exists>c1 st srcs. ce_GetSources env st = Inr srcs \<and> f srcs c1 = (c', None)"
proof -
  obtain c1 e where i: "InitSourceReader env c = (c1, e)" by fastforce
  with assms have e: "e = None" by (cases e) (auto simp: with_sources_def)
  have "o_SourcesRW c1 \<noteq> None"
    using i e by (auto simp: InitSourceReader_def Let_def opened_def split: sum.splits config_kind.splits option.splits)
  then obtain st where st: "o_SourcesRW c1 = Some st" by blast
  from assms i e st show ?thesis by (cases "ce_GetSources env st") (auto simp: with_sources_def)
qed

lemma with_metrics_completes:
  assumes "with_metrics env args f c = (c', None)"
  shows "o_CommandCompleted c'"
proof -
  have "o_MetricsRW c1 \<noteq> None" if "InitMetricReader env c = (c1, None)" for c1
    using that by (auto simp: InitMetricReader_def Let_def opened_def split: prod.splits if_splits)
  with assms show ?thesis by (fastforce simp: with_metrics_def split: prod.splits option.splits sum.splits)
qed

lemma Execute_completes:
  assumes "Execute env cmd c = (c', None)"
  shows "o_CommandCompleted c'"
proof (cases cmd)
  case ConfigInit
  with assms show ?thesis by (auto simp: InitCommand_Execute_def Let_def split: prod.splits option.splits if_splits)
next
  case ConfigUpgrade
  with assms show ?thesis by (auto simp: UpgradeCommand_Execute_def Let_def split: option.splits if_splits)
next
  case (SourcePing args)
  with assms show ?thesis
    by (auto simp: PingCommand_Execute_def Let_def case_prod_beta dest!: with_sources_ran)
next
  case (SourceResolve args)
  with assms show ?thesis
    by (auto simp: ResolveCommand_Execute_def dest!: with_sources_ran split: sum.splits)
qed (use assms with_metrics_completes in \<open>auto simp: PrintInit_Execute_def PrintSQL_Execute_def List_Execute_def\<close>)

definition valid_options :: "cmd_env \<Rightarrow> options \<Rightarrow> bool" where
  "valid_options env c \<longleftrightarrow>
     o_Refresh c > 1 \<and> o_MaxParallel c \<ge> 1 \<and> 0 < o_BatchingDelay c \<and> o_BatchingDelay c \<le> Hour \<and>
     (ce_IsPgConnStr env (o_Sources c) \<and> ce_IsPgConnStr env (o_Metrics c) \<longrightarrow> o_Sources c = o_Metrics c)"

definition up_to_date :: "cmd_env \<Rightarrow> storage option \<Rightarrow> bool" where
  "up_to_date env st \<longleftrightarrow> (case st of None \<Rightarrow> False | Some s \<Rightarrow> ce_NeedsMigration env s = None \<or> ce_NeedsMigration env s = Some (Inr False))"

lemma ValidateConfig_valid: "ValidateConfig env c = (c', None) \<Longrightarrow> valid_options env c'"
  by (auto simp: ValidateConfig_def valid_options_def Let_def split: if_splits)

lemma valid_options_upd [simp]:
  "valid_options env (c\<lparr>o_MetricsRW := a\<rparr>) = valid_options env c" "valid_options env (c\<lparr>o_SourcesRW := a\<rparr>) = valid_options env c"
  "valid_options env (c\<lparr>o_SinksWriter := a\<rparr>) = valid_options env c"
  by (simp_all add: valid_options_def)

lemma New_valid:
  assumes "New env p = (c, None)" "\<not> o_CommandCompleted c"
  shows "valid_options env c \<and> (\<exists>c0. p = Parsed c0 None [])"
proof (cases p)
  case (Parsed c0 cmd rest)
  show ?thesis
  proof (cases cmd)
    case None
    with Parsed assms show ?thesis by (auto simp: New_def split: if_splits dest: ValidateConfig_valid)
  next
    case (Some cm)
    obtain c1 e where ex: "Execute env cm c0 = (c1, e)" by fastforce
    with Execute_completes [of env cm c0 c1] Parsed Some assms show ?thesis by (auto simp: New_def split: option.splits)
  qed
qed (use assms in \<open>auto simp: New_def\<close>)

lemma InitConfigReaders_opens:
  assumes "InitConfigReaders env c = (c', None)"
  shows "valid_options env c' = valid_options env c \<and> o_MetricsRW c' \<noteq> None \<and> o_SourcesRW c' \<noteq> None"
  using assms
  by (auto simp: InitConfigReaders_def InitMetricReader_def InitSourceReader_def Let_def opened_def errors_Join_None_iff
      split: prod.splits option.splits if_splits sum.splits config_kind.splits)

lemma InitSinkWriter_opens:
  assumes "InitSinkWriter env c = (c', None)"
  shows "valid_options env c' = valid_options env c \<and> o_MetricsRW c' = o_MetricsRW c \<and> o_SourcesRW c' = o_SourcesRW c \<and>
    o_SinksWriter c' \<noteq> None"
  using assms by (auto simp: InitSinkWriter_def split: option.splits)

lemma first_upgrade_none: "first_upgrade ms = (False, None) \<Longrightarrow> m \<in> set ms \<Longrightarrow> m = None \<or> m = Some (Inr False)"
  by (induction ms rule: first_upgrade.induct) (auto split: if_splits)

text \<open>
  C19: Monitoring starts only without a subcommand, with options that are valid, after the storages of sources and metrics
  and the sinks were opened, and when none of them needs a migration; otherwise the program exits.
\<close>

theorem main_monitors:
  assumes "main env p = Reap c"
  shows "(\<exists>c0. p = Parsed c0 None []) \<and> valid_options env c \<and>
    up_to_date env (o_SourcesRW c) \<and> up_to_date env (o_MetricsRW c) \<and> up_to_date env (o_SinksWriter c)"
proof -
  obtain c1 e1 where n: "New env p = (c1, e1)" by fastforce
  obtain c2 e2 where r: "InitConfigReaders env c1 = (c2, e2)" by fastforce
  obtain c3 e3 where w: "InitSinkWriter env c2 = (c3, e3)" by fastforce
  have ok: "e1 = None" "\<not> o_CommandCompleted c1" "e2 = None" "e3 = None" "NeedsSchemaUpgrade env c3 = (False, None)" "c = c3"
    using assms n r w by (auto simp: main_def split: option.splits if_splits prod.splits)
  have v: "valid_options env c1" "\<exists>c0. p = Parsed c0 None []" using New_valid [of env p c1] n ok by auto
  have o: "valid_options env c3" "o_MetricsRW c3 \<noteq> None" "o_SourcesRW c3 \<noteq> None" "o_SinksWriter c3 \<noteq> None"
    using InitConfigReaders_opens [of env c1 c2] InitSinkWriter_opens [of env c2 c3] r w ok v by auto
  note up = first_upgrade_none [OF ok(5) [unfolded NeedsSchemaUpgrade_def]]
  have "up_to_date env (o_SourcesRW c3)" "up_to_date env (o_MetricsRW c3)" "up_to_date env (o_SinksWriter c3)"
    using up [of "needs env (o_SourcesRW c3)"] up [of "needs env (o_MetricsRW c3)"] up [of "needs env (o_SinksWriter c3)"] o(2-4)
    by (auto simp: up_to_date_def needs_def split: option.splits)
  with o v ok show ?thesis by simp
qed

text \<open>
  An upgrade can fail and still report success. When the sources are in a file, a sink is no database, and the upgrade of the
  metrics fails for whatever reason, the command returns no error and the program exits with the code for success: the error is
  nested in a joined error that counts as unsupported.
\<close>

theorem upgrade_hides_failure:
  assumes "o_Sources c \<noteq> []" "\<not> ce_IsPgConnStr env (o_Sources c)" "o_Metrics c \<noteq> []" "ce_IsPgConnStr env (o_Metrics c)"
    and fails: "ce_NewPgMetrics env (o_Metrics c) = Some e"
    and sink: "o_Sinks c = [uri]" "uri \<noteq> []" "\<not> ce_IsPgConnStr env uri"
  shows "main env (Parsed c (Some ConfigUpgrade) []) = Exit ExitCodeOK"
proof -
  let ?u = "\<lambda>uri. ErrWrap (''cannot upgrade storage '' @ uri) (Sentinel ErrUnsupported)"
  have sh: "share_config_db env c = c" using assms(1,3) by (simp add: share_config_db_def)
  have up: "upgrade_all env c = Some (ErrJoin [ErrJoin [?u (o_Sources c), e], ?u uri])"
    using assms by (simp add: upgrade_all_def upgrade_storage_def errors_Join_def List.map_filter_simps)
  show ?thesis
    using assms(1) by (auto simp: main_def New_def UpgradeCommand_Execute_def sh up Let_def)
qed

text \<open>Without sinks the exit code tells: success means that nothing but unsupported storages was left out.\<close>

lemma upgrade_without_sinks:
  assumes "o_Sinks c = []" "o_Sources c \<noteq> [] \<or> o_Metrics c \<noteq> []" "share_config_db env c = c1"
    and "e1 = upgrade_storage env (o_Sources c1) (ce_NewPgSources env (o_Sources c1)) (PgStorage (o_Sources c1))"
    and "e2 = upgrade_storage env (o_Metrics c1) (ce_NewPgMetrics env (o_Metrics c1)) (PgStorage (o_Metrics c1))"
    and "\<forall>es. e1 \<noteq> Some (ErrJoin es)" "\<forall>es. e2 \<noteq> Some (ErrJoin es)"
  shows "o_ExitCode (fst (UpgradeCommand_Execute env c)) = ExitCodeOK \<longleftrightarrow>
    (\<forall>e \<in> set_option e1 \<union> set_option e2. errors_Is e ErrUnsupported)"
proof -
  have s1: "o_Sinks c1 = []" using assms(1,3) by (auto simp: share_config_db_def split: if_splits)
  have "upgrade_all env c1 = errors_Join [e1, e2]" using s1 assms(4,5) by (simp add: upgrade_all_def)
  then show ?thesis
    using assms(2,3,6,7)
    by (cases e1; cases e2)
      (auto simp: UpgradeCommand_Execute_def assms(1) Let_def errors_Join_def List.map_filter_simps exit_codes split: goerr.splits)
qed

text \<open>Pinging sources tries every source, whatever happens to the others, and the exit code is success exactly when all answered.\<close>

lemma ping_all_outcome:
  "ping_all env srcs err c = (c', err') \<Longrightarrow>
     (err' = None \<longleftrightarrow> err = None \<and> (\<forall>s \<in> set srcs. ping_source env s = None)) \<and>
     o_Output c' = o_Output c @ map (\<lambda>s. Line ((if ping_source env s \<noteq> None then ''FAIL: '' else ''OK: '') @ Name s)) srcs"
proof (induction srcs arbitrary: err c)
  case (Cons s srcs)
  from Cons.IH [of "errors_Join [err, ping_source env s]"] Cons.prems show ?case
    by (auto simp: Let_def errors_Join_None_iff print_line_def)
qed simp

lemma ping_exit_code:
  assumes "PingCommand_Execute env args c = (c', None)"
  shows "\<exists>st srcs. ce_GetSources env st = Inr srcs \<and>
    (o_ExitCode c' = ExitCodeOK \<longleftrightarrow> (\<forall>s \<in> set (found_sources args srcs). ping_source env s = None))"
proof -
  from with_sources_ran [OF assms [unfolded PingCommand_Execute_def]]
  obtain c1 st srcs where s: "ce_GetSources env st = Inr srcs"
    "CompleteCommand (if snd (ping_all env (found_sources args srcs) None c1) \<noteq> None then ExitCodeCmdError else ExitCodeOK)
       (fst (ping_all env (found_sources args srcs) None c1)) = c'"
    by (auto simp: Let_def case_prod_beta)
  obtain c2 err where p: "ping_all env (found_sources args srcs) None c1 = (c2, err)" by fastforce
  have "o_ExitCode c' = (if err \<noteq> None then ExitCodeCmdError else ExitCodeOK)" unfolding s(2) [symmetric] p by simp
  then have "o_ExitCode c' = ExitCodeOK \<longleftrightarrow> err = None" by (simp add: exit_codes)
  with ping_all_outcome [OF p] s(1) show ?thesis by auto
qed

text \<open>An environment for the witnesses, in which only addresses that start like a URI are databases.\<close>

definition sample_cmd_env :: cmd_env where
  "sample_cmd_env = \<lparr>ce_IsPgConnStr = (\<lambda>s. HasPrefix s ''postgresql:''), ce_IsDir = (\<lambda>_. Inr False),
     ce_NewPgMetrics = (\<lambda>_. None), ce_NewYamlMetrics = (\<lambda>_. None), ce_NewPgSources = (\<lambda>_. None), ce_NewYamlSources = (\<lambda>_. None),
     ce_NewSinkWriter = (\<lambda>_. None), ce_NewSinkMigrator = (\<lambda>_. None), ce_NeedsMigration = (\<lambda>_. None), ce_Migrate = (\<lambda>_. None),
     ce_GetSources = (\<lambda>_. Inr []), ce_GetMetrics = (\<lambda>_. Inr \<lparr>MetricDefs = [], PresetDefs = []\<rparr>),
     ce_WriteSources = (\<lambda>_ _. None), ce_WriteMetrics = (\<lambda>_ _. None), ce_DefaultMetrics = \<lparr>MetricDefs = [], PresetDefs = []\<rparr>,
     ce_yaml = (\<lambda>_. []), ce_ResolvePatroni = (\<lambda>_. None), ce_ResolvePostgres = (\<lambda>_. None),
     ce_ResolveDatabases = (\<lambda>_. Inr []), ce_Connect = (\<lambda>_. None), ce_Ping = (\<lambda>_. None), ce_WebInit = (\<lambda>_. None)\<rparr>"

definition sample_options :: "string \<Rightarrow> string \<Rightarrow> string list \<Rightarrow> options" where
  "sample_options srcs ms snks = \<lparr>o_Sources = srcs, o_Refresh = 120, o_MaxParallel = 4, o_Metrics = ms, o_Sinks = snks,
     o_BatchingDelay = 950000000, o_Help = False, o_SourcesRW = None, o_MetricsRW = None, o_SinksWriter = None, o_ExitCode = 0,
     o_CommandCompleted = False, o_Output = []\<rparr>"

theorem main_monitors_witness:
  "\<exists>c. main sample_cmd_env (Parsed (sample_options ''s.yaml'' [] [''jsonfile://x'']) None []) = Reap c \<and>
     valid_options sample_cmd_env c \<and> up_to_date sample_cmd_env (o_SourcesRW c) \<and> o_SourcesRW c = Some (YamlStorage ''s.yaml'')"
proof -
  let ?p = "Parsed (sample_options ''s.yaml'' [] [''jsonfile://x'']) None []"
  obtain c where c: "main sample_cmd_env ?p = Reap c" "o_SourcesRW c = Some (YamlStorage ''s.yaml'')"
    by (simp add: main_def New_def ValidateConfig_def share_config_db_def sample_options_def sample_cmd_env_def HasPrefix_def Hour_def
        Minute_def Second_def InitConfigReaders_def InitMetricReader_def InitSourceReader_def GetConfigKind_def opened_def needs_def
        NeedsMigration_def InitSinkWriter_def NeedsSchemaUpgrade_def errors_Join_def List.map_filter_simps Let_def)
  from main_monitors [OF c(1)] c show ?thesis by blast
qed

theorem upgrade_hides_failure_witness:
  "let env = sample_cmd_env\<lparr>ce_NewPgMetrics := \<lambda>_. Some (ErrText ''connection refused'')\<rparr>;
       c = sample_options ''s.yaml'' ''postgresql://conf'' [''jsonfile://x'']
   in main env (Parsed c (Some ConfigUpgrade) []) = Exit ExitCodeOK"
  unfolding Let_def
  by (rule upgrade_hides_failure [where uri = "''jsonfile://x''" and e = "ErrText ''connection refused''"]) (simp_all add: sample_options_def sample_cmd_env_def HasPrefix_def)

text \<open>The code that is stored at any time, with whether the context was cancelled; a program that leaves without a panic was told to.\<close>

definition proc_inv :: "proc \<Rightarrow> bool" where
  "proc_inv s \<longleftrightarrow> (ps_exitCode s, ps_ctxDone s) \<in>
       {(ExitCodeOK, False), (ExitCodeOK, True), (ExitCodeUserCancel, True), (ExitCodeFatalError, True), (ExitCodeFatalError, False)} \<and>
     (ps_handler s = AwaitSignal \<longleftrightarrow> \<not> ps_ctxDone s) \<and>
     (ps_leaving s \<longrightarrow> ps_ctxDone s \<or> ps_exitCode s = ExitCodeFatalError) \<and>
     (\<forall>c. ps_exit s = Some c \<longrightarrow> ps_leaving s \<and> c = ps_exitCode s)"

lemma proc_inv_reach: "proc_reach s \<Longrightarrow> proc_inv s"
  unfolding proc_reach_def
proof (induction rule: rtranclp_induct)
  case base
  show ?case by (simp add: monitoring_def proc_inv_def)
next
  case (step s s')
  from step.hyps(2) step.IH show ?case by (elim proc_stepE) (auto simp: proc_inv_def)
qed

lemma proc_reach_step: "proc_reach s \<Longrightarrow> proc_step s s' \<Longrightarrow> proc_reach s'"
  unfolding proc_reach_def by (rule rtranclp.rtrancl_into_rtrancl)

lemma reach_cancelled: "proc_reach (monitoring\<lparr>ps_handler := SignalCancelled, ps_ctxDone := True\<rparr>)"
  by (rule proc_reach_step [OF _ handler_cancel]) (simp_all add: proc_reach_def monitoring_def)

lemma reach_exit: "proc_reach s \<Longrightarrow> ps_exit s = None \<Longrightarrow> ps_leaving s \<Longrightarrow> proc_reach (s\<lparr>ps_exit := Some (ps_exitCode s)\<rparr>)"
  by (rule proc_reach_step [OF _ main_exits])


end
