(* ===== verification/Log_Parser.thy ===== *)
theory Log_Parser
  imports Db_Conn Sink_Types
begin

text \<open>
  The parser of server logs (\<open>internal/reaper/logparser.go\<close>, \<open>logparser_local.go\<close>, \<open>logparser_remote.go\<close>): it
  follows the CSV log of a server, on the same host or through the server, and counts messages by severity.

  The loops are step functions. A step gets the answers of the file system or the server, whether the context has
  ended and the current time; between two steps the program waits. A run is a list of such environments.
\<close>

section \<open>Severities\<close>

definition pgSeverities :: "string list" where
  "pgSeverities = [''DEBUG'', ''INFO'', ''NOTICE'', ''WARNING'', ''ERROR'', ''LOG'', ''FATAL'', ''PANIC'']"

text \<open>Text that is not ASCII is written as its bytes.\<close>

definition bytes :: "nat list \<Rightarrow> string" where "bytes ns = map char_of ns"

definition pgSeveritiesLocale :: "(string, (string, string) gomap) gomap" where
  "pgSeveritiesLocale = [
     (''C.'', [(''DEBUG'', ''DEBUG''), (''LOG'', ''LOG''), (''INFO'', ''INFO''), (''NOTICE'', ''NOTICE''),
       (''WARNING'', ''WARNING''), (''ERROR'', ''ERROR''), (''FATAL'', ''FATAL''), (''PANIC'', ''PANIC'')]),
     (''de'', [(''DEBUG'', ''DEBUG''), (''LOG'', ''LOG''), (''INFO'', ''INFO''), (''HINWEIS'', ''NOTICE''),
       (''WARNUNG'', ''WARNING''), (''FEHLER'', ''ERROR''), (''FATAL'', ''FATAL''), (''PANIK'', ''PANIC'')]),
     (''fr'', [(''DEBUG'', ''DEBUG''), (''LOG'', ''LOG''), (''INFO'', ''INFO''), (''NOTICE'', ''NOTICE''),
       (''ATTENTION'', ''WARNING''), (''ERREUR'', ''ERROR''), (''FATAL'', ''FATAL''), (''PANIK'', ''PANIC'')]),
     (''it'', [(''DEBUG'', ''DEBUG''), (''LOG'', ''LOG''), (''INFO'', ''INFO''), (''NOTIFICA'', ''NOTICE''),
       (''ATTENZIONE'', ''WARNING''), (''ERRORE'', ''ERROR''), (''FATALE'', ''FATAL''), (''PANICO'', ''PANIC'')]),
     (''ko'', [(bytes [235, 148, 148, 235, 178, 132, 234, 183, 184], ''DEBUG''),
       (bytes [235, 161, 156, 234, 183, 184], ''LOG''),
       (bytes [236, 160, 149, 235, 179, 180], ''INFO''),
       (bytes [236, 149, 140, 235, 166, 188], ''NOTICE''),
       (bytes [234, 178, 189, 234, 179, 160], ''WARNING''),
       (bytes [236, 152, 164, 235, 165, 152], ''ERROR''),
       (bytes [236, 185, 152, 235, 170, 133, 236, 160, 129, 236, 152, 164, 235, 165, 152], ''FATAL''),
       (bytes [236, 134, 144, 236, 131, 129], ''PANIC'')]),
     (''pl'', [(''DEBUG'', ''DEBUG''),
       (''DZIENNIK'', ''LOG''),
       (''INFORMACJA'', ''INFO''),
       (''UWAGA'', ''NOTICE''),
       (bytes [79, 83, 84, 82, 90, 69, 197, 187, 69, 78, 73, 69], ''WARNING''),
       (bytes [66, 197, 129, 196, 132, 68], ''ERROR''),
       (''KATASTROFALNY'', ''FATAL''),
       (''PANIKA'', ''PANIC'')]),
     (''ru'', [(bytes [208, 158, 208, 162, 208, 155, 208, 144, 208, 148, 208, 154, 208, 144], ''DEBUG''),
       (bytes [208, 161, 208, 158, 208, 158, 208, 145, 208, 169, 208, 149, 208, 157, 208, 152, 208, 149], ''LOG''),
       (bytes [208, 152, 208, 157, 208, 164, 208, 158, 208, 160, 208, 156, 208, 144, 208, 166, 208, 152, 208, 175], ''INFO''),
       (bytes [208, 151, 208, 144, 208, 156, 208, 149, 208, 167, 208, 144, 208, 157, 208, 152, 208, 149], ''NOTICE''),
       (bytes [208, 159, 208, 160, 208, 149, 208, 148, 208, 163, 208, 159, 208, 160, 208, 149, 208, 150, 208, 148, 208, 149, 208, 157, 208, 152, 208, 149], ''WARNING''),
       (bytes [208, 158, 208, 168, 208, 152, 208, 145, 208, 154, 208, 144], ''ERROR''),
       (bytes [208, 146, 208, 144, 208, 150, 208, 157, 208, 158], ''FATAL''),
       (bytes [208, 159, 208, 144, 208, 157, 208, 152, 208, 154, 208, 144], ''PANIC'')]),
     (''sv'', [(''DEBUG'', ''DEBUG''), (''LOGG'', ''LOG''), (''INFO'', ''INFO''), (''NOTIS'', ''NOTICE''),
       (''VARNING'', ''WARNING''), (''FEL'', ''ERROR''), (''FATALT'', ''FATAL''), (''PANIK'', ''PANIC'')]),
     (''tr'', [(''DEBUG'', ''DEBUG''),
       (''LOG'', ''LOG''),
       (bytes [66, 196, 176, 76, 71, 196, 176], ''INFO''),
       (''NOT'', ''NOTICE''),
       (''UYARI'', ''WARNING''),
       (''HATA'', ''ERROR''),
       (bytes [195, 150, 76, 195, 156, 77, 67, 195, 156, 76, 32, 40, 70, 65, 84, 65, 76, 41], ''FATAL''),
       (bytes [75, 82, 196, 176, 84, 196, 176, 75], ''PANIC'')]),
     (''zh'', [(bytes [232, 176, 131, 232, 175, 149], ''DEBUG''),
       (bytes [230, 151, 165, 229, 191, 151], ''LOG''),
       (bytes [228, 191, 161, 230, 129, 175], ''INFO''),
       (bytes [230, 179, 168, 230, 132, 143], ''NOTICE''),
       (bytes [232, 173, 166, 229, 145, 138], ''WARNING''),
       (bytes [233, 148, 153, 232, 175, 175], ''ERROR''),
       (bytes [232, 135, 180, 229, 145, 189, 233, 148, 153, 232, 175, 175], ''FATAL''),
       (bytes [230, 175, 148, 232, 135, 180, 229, 145, 189, 233, 148, 153, 232, 175, 175, 232, 191, 152, 232, 191, 135, 229, 136, 134, 231, 154, 132, 233, 148, 153, 232, 175, 175], ''PANIC'')])]"

definition severityToEnglish :: "string \<Rightarrow> string \<Rightarrow> string" where
  "severityToEnglish serverLang errorSeverity =
     (if serverLang = ''en'' then errorSeverity
      else case gget (case gget pgSeveritiesLocale serverLang of Some m \<Rightarrow> m | None \<Rightarrow> []) errorSeverity of
             None \<Rightarrow> errorSeverity
           | Some severityEn \<Rightarrow> severityEn)"

section \<open>Matching a line\<close>

text \<open>
  The regular expressions of the parser: a literal, an optional literal (\<open>c?\<close>), a lazy group of any characters (\<open>.*?\<close>) and a
  greedy group of characters of a class (\<open>\d+\<close>, \<open>\w+\<close>). The package \<open>regexp\<close> prefers the same
  match as a backtracking search: an optional literal is taken if it can be, a lazy group is as
  short and a greedy group as long as possible. Both classes contain ASCII characters only.
\<close>

datatype char_class = Digit | Word

definition in_class :: "char_class \<Rightarrow> char \<Rightarrow> bool" where
  "in_class cl c =
     (case cl of
        Digit \<Rightarrow> c \<in> set ''0123456789''
      | Word \<Rightarrow> c \<in> set ''_0123456789abcdefghijklmnopqrstuvwxyzABCDEFGHIJKLMNOPQRSTUVWXYZ'')"

datatype re_elem = Lit char | OptLit char | Lazy string | Greedy string char_class

definition newline :: char where "newline = char_of (10 :: nat)"

definition first_match :: "(nat \<Rightarrow> 'a option) \<Rightarrow> nat list \<Rightarrow> 'a option" where
  "first_match f ks = (case filter (\<lambda>k. f k \<noteq> None) ks of [] \<Rightarrow> None | k # _ \<Rightarrow> f k)"

fun match_re :: "re_elem list \<Rightarrow> string \<Rightarrow> (string \<times> string) list option" where
  "match_re [] s = Some []"
| "match_re (Lit c # es) s = (case s of [] \<Rightarrow> None | x # xs \<Rightarrow> if x = c then match_re es xs else None)"
| "match_re (OptLit c # es) s =
     (case s of
        [] \<Rightarrow> match_re es s
      | x # xs \<Rightarrow> (if x = c then (case match_re es xs of Some r \<Rightarrow> Some r | None \<Rightarrow> match_re es s) else match_re es s))"
| "match_re (Lazy n # es) s =
     first_match (\<lambda>k. map_option (Cons (n, take k s)) (match_re es (drop k s)))
       [0..<Suc (length (takeWhile (\<lambda>c. c \<noteq> newline) s))]"
| "match_re (Greedy n cl # es) s =
     first_match (\<lambda>k. map_option (Cons (n, take k s)) (match_re es (drop k s)))
       (rev [1..<Suc (length (takeWhile (in_class cl) s))])"

definition comma :: char where "comma = CHR '',''"
definition quote :: char where "quote = CHR 0x22"

definition quoted_field :: "string \<Rightarrow> re_elem list" where
  "quoted_field n = [OptLit quote, Lazy n, OptLit quote, Lit comma]"

definition plain_field :: "string \<Rightarrow> re_elem list" where
  "plain_field n = [Lazy n, Lit comma]"

definition number_field :: "string \<Rightarrow> re_elem list" where
  "number_field n = [Greedy n Digit, Lit comma]"

definition csvLogDefaultRegEx :: "re_elem list" where
  "csvLogDefaultRegEx =
     plain_field ''log_time'' @ quoted_field ''user_name'' @ quoted_field ''database_name'' @ number_field ''process_id'' @
     quoted_field ''connection_from'' @ plain_field ''session_id'' @ number_field ''session_line_num'' @
     quoted_field ''command_tag'' @ plain_field ''session_start_time'' @ plain_field ''virtual_transaction_id'' @
     plain_field ''transaction_id'' @ [Greedy ''error_severity'' Word, Lit comma]"

text \<open>\<open>regexMatchesToMap\<close> reads the groups by name; a missing one is the empty text.\<close>

definition re_group :: "(string \<times> string) list \<Rightarrow> string \<Rightarrow> string" where
  "re_group matches n = (case map_of matches n of Some t \<Rightarrow> t | None \<Rightarrow> [])"

section \<open>Counting\<close>

record log_parser =
  lp_Name :: string
  lp_CustomTags :: tags
  realDbname :: string
  lp_Interval :: int
  TruncateOnRotation :: bool
  ServerMessagesLang :: string
  eventCounts :: "(string, int) gomap"
  eventCountsTotal :: "(string, int) gomap"
  lastSendTime :: "int option"
  fileOffsets :: "(string, 64 word) gomap"

definition maxChunkSize :: "64 word" where "maxChunkSize = 10485760"
definition maxTrackedFiles :: nat where "maxTrackedFiles = 2500"

record log_config =
  CollectorEnabled :: bool
  CSVDestination :: bool
  cfgTruncateOnRotation :: bool
  cfgServerMessagesLang :: string

definition tryDetermineLogSettings :: "goerr + log_config \<Rightarrow> goerr + log_config" where
  "tryDetermineLogSettings answer =
     (case answer of
        Inl err \<Rightarrow> Inl err
      | Inr cfg \<Rightarrow> Inr (if gget pgSeveritiesLocale (cfgServerMessagesLang cfg) = None
                        then cfg\<lparr>cfgServerMessagesLang := ''en''\<rparr> else cfg))"

definition NewLogParser :: "goerr + log_config \<Rightarrow> string \<Rightarrow> tags \<Rightarrow> string \<Rightarrow> int \<Rightarrow> goerr + log_parser" where
  "NewLogParser answer name ctags dbname interval =
     (case tryDetermineLogSettings answer of
        Inl err \<Rightarrow> Inl (ErrWrap ''could not determine Postgres logs settings'' err)
      | Inr cfg \<Rightarrow>
          (if \<not> CollectorEnabled cfg then Inl (ErrText ''logging_collector is not enabled on the db server'')
           else if \<not> CSVDestination cfg
           then Inl (ErrText ''log_destination must contain csvlog for log parsing to work'')
           else Inr \<lparr>lp_Name = name, lp_CustomTags = ctags, realDbname = dbname, lp_Interval = interval,
                     TruncateOnRotation = cfgTruncateOnRotation cfg, ServerMessagesLang = cfgServerMessagesLang cfg,
                     eventCounts = [], eventCountsTotal = [], lastSendTime = None, fileOffsets = []\<rparr>))"

definition HasSendIntervalElapsed :: "int \<Rightarrow> log_parser \<Rightarrow> bool" where
  "HasSendIntervalElapsed now lp =
     (case lastSendTime lp of None \<Rightarrow> True | Some t \<Rightarrow> t < now - lp_Interval lp)"

definition cnt :: "(string, int) gomap \<Rightarrow> string \<Rightarrow> int" where
  "cnt m s = (case gget m s of Some n \<Rightarrow> n | None \<Rightarrow> 0)"

definition incr :: "string \<Rightarrow> (string, int) gomap \<Rightarrow> (string, int) gomap" where
  "incr s m = gset s (wrap64 (cnt m s + 1)) m"

text \<open>The severity in English and the database of a line, if it matches.\<close>

definition parse_line :: "log_parser \<Rightarrow> string \<Rightarrow> (string \<times> string) option" where
  "parse_line lp line =
     (case match_re csvLogDefaultRegEx line of
        None \<Rightarrow> None
      | Some result \<Rightarrow>
          let errorSeverity = re_group result ''error_severity''
          in Some (if ServerMessagesLang lp \<noteq> ''en'' then severityToEnglish (ServerMessagesLang lp) errorSeverity else errorSeverity,
                   re_group result ''database_name''))"

definition count_line :: "string \<Rightarrow> log_parser \<Rightarrow> log_parser" where
  "count_line line lp =
     (case parse_line lp line of
        None \<Rightarrow> lp
      | Some (errorSeverity, databaseName) \<Rightarrow>
          let lp = (if realDbname lp = databaseName then lp\<lparr>eventCounts := incr errorSeverity (eventCounts lp)\<rparr> else lp)
          in lp\<lparr>eventCountsTotal := incr errorSeverity (eventCountsTotal lp)\<rparr>)"

definition GetMeasurementEnvelope :: "int \<Rightarrow> log_parser \<Rightarrow> envelope" where
  "GetMeasurementEnvelope now lp =
     \<lparr>DBName = lp_Name lp, MetricName = ''server_log_event_counts'', SourceKind = [], CustomTags = lp_CustomTags lp,
      Data = [fold (\<lambda>s m. gset (ToLower s @ ''_total'') (VInt64 (cnt (eventCountsTotal lp) s))
                           (gset (ToLower s) (VInt64 (cnt (eventCounts lp) s)) m)) pgSeverities (NewMeasurement now)]\<rparr>"

definition zeroEventCounts :: "(string, int) gomap \<Rightarrow> (string, int) gomap" where
  "zeroEventCounts m = fold (\<lambda>s. gset s 0) pgSeverities m"

text \<open>The end of both loops; \<open>None\<close> when the context ends while the channel is full.\<close>

definition send_if_due :: "bool \<Rightarrow> int \<Rightarrow> log_parser \<Rightarrow> (log_parser \<times> envelope list) option" where
  "send_if_due cancelled now lp =
     (if HasSendIntervalElapsed now lp
      then if cancelled then None
           else Some (lp\<lparr>eventCounts := zeroEventCounts (eventCounts lp), eventCountsTotal := zeroEventCounts (eventCountsTotal lp),
                         lastSendTime := Some now\<rparr>, [GetMeasurementEnvelope now lp])
      else Some (lp, []))"

text \<open>The offset of a file that is left is remembered unless files are truncated on rotation.\<close>

definition remember_offset :: "string \<Rightarrow> 64 word \<Rightarrow> log_parser \<Rightarrow> log_parser" where
  "remember_offset file off lp =
     (if TruncateOnRotation lp then lp
      else let m = gset file off (fileOffsets lp)
           in lp\<lparr>fileOffsets := if length m > maxTrackedFiles then [] else m\<rparr>)"

section \<open>Through the server\<close>

record remote =
  latestLogFile :: string
  linesRead :: nat
  firstRun :: bool
  fsize :: "64 word"
  foffset :: "64 word"
  modification :: int
  flines :: "string list"
  rlp :: log_parser

definition remote_start :: "log_parser \<Rightarrow> remote" where
  "remote_start lp = \<lparr>latestLogFile = [], linesRead = 0, firstRun = True, fsize = 0, foffset = 0, modification = 0,
     flines = [], rlp = lp\<rparr>"

record remote_env =
  re_done :: bool
  re_cancelled :: bool
  re_now :: int
  re_latest :: "goerr + (string \<times> 64 word \<times> int)"
  re_read :: "string \<Rightarrow> 64 word \<Rightarrow> 64 word \<Rightarrow> goerr + string"
  re_stat :: "string \<Rightarrow> goerr + (64 word \<times> int)"
  re_next :: "int \<Rightarrow> goerr + (string \<times> 64 word)"

datatype ctl = Outer | Inner | Returned

text \<open>The head of the outer loop: finding the file and reading a chunk.\<close>

definition find_log :: "remote_env \<Rightarrow> remote \<Rightarrow> remote option" where
  "find_log env st =
     (if latestLogFile st = [] \<or> firstRun st
      then case re_latest env of
             Inl _ \<Rightarrow> None
           | Inr (file, sz, md) \<Rightarrow>
               Some (st\<lparr>latestLogFile := file, fsize := sz, modification := md, foffset := sz, firstRun := False\<rparr>)
      else Some st)"

definition read_chunk :: "remote_env \<Rightarrow> remote \<Rightarrow> remote \<times> ctl" where
  "read_chunk env st =
     (if linesRead st = length (flines st) \<and> fsize st \<noteq> foffset st
      then let sizeToRead = min maxChunkSize (fsize st - foffset st)
           in case re_read env (latestLogFile st) (foffset st) sizeToRead of
                Inl _ \<Rightarrow> (st\<lparr>foffset := foffset st + sizeToRead\<rparr>, Outer)
              | Inr chunk \<Rightarrow>
                  let lines = Split chunk [newline]; off = foffset st + sizeToRead
                  in (st\<lparr>flines := lines, linesRead := 0,
                         foffset := if sizeToRead = maxChunkSize then off - of_nat (length (last lines)) else off\<rparr>, Inner)
      else (st, Inner))"

definition remote_outer :: "remote_env \<Rightarrow> remote \<Rightarrow> remote \<times> ctl" where
  "remote_outer env st =
     (if re_done env then (st, Returned)
      else case find_log env st of None \<Rightarrow> (st, Outer) | Some st \<Rightarrow> read_chunk env st)"

text \<open>
  The check at the end of the lines: \<open>None\<close> if the context has ended, and else whether the inner loop is left, because the file has grown
  or another one has followed it. An answer that fails leaves the size at zero.
\<close>

definition switch_file :: "remote_env \<Rightarrow> remote \<Rightarrow> remote \<times> bool" where
  "switch_file env st =
     (case re_next env (modification st) of
        Inl _ \<Rightarrow> (st, False)
      | Inr (fileName, latestSize) \<Rightarrow>
          (if latestLogFile st \<noteq> fileName
           then let lp = remember_offset (latestLogFile st) (fsize st) (rlp st)
                in (st\<lparr>latestLogFile := fileName, fsize := latestSize, rlp := lp,
                       foffset := (case gget (fileOffsets lp) fileName of
                                     Some lastOffset \<Rightarrow> if TruncateOnRotation lp then 0 else lastOffset
                                   | None \<Rightarrow> 0)\<rparr>, True)
           else (st, False)))"

definition at_end :: "remote_env \<Rightarrow> remote \<Rightarrow> remote \<times> bool" where
  "at_end env st =
     (case re_stat env (latestLogFile st) of
        Inl _ \<Rightarrow> switch_file env st
      | Inr (latestSize, md) \<Rightarrow>
          let st = st\<lparr>modification := md\<rparr>
          in if fsize st = latestSize \<and> foffset st = fsize st then switch_file env st
             else (st\<lparr>fsize := latestSize\<rparr>, True))"

definition parse_next :: "remote \<Rightarrow> remote \<times> string list" where
  "parse_next st =
     (if linesRead st < length (flines st)
      then let line = flines st ! linesRead st
           in (st\<lparr>linesRead := Suc (linesRead st), rlp := count_line line (rlp st)\<rparr>, [line])
      else (st, []))"

text \<open>One round of the inner loop, with the lines it has parsed and the envelopes it has sent.\<close>

definition remote_inner :: "remote_env \<Rightarrow> remote \<Rightarrow> remote \<times> ctl \<times> string list \<times> envelope list" where
  "remote_inner env st =
     (if linesRead st = length (flines st) \<and> re_done env then (st, Returned, [], [])
      else let (st, leave) = (if linesRead st = length (flines st) then at_end env st else (st, False))
      in if leave then (st, Outer, [], [])
         else let (st, parsed) = parse_next st
              in case send_if_due (re_cancelled env) (re_now env) (rlp st) of
                   None \<Rightarrow> (st, Returned, parsed, [])
                 | Some (lp, sent) \<Rightarrow> (st\<lparr>rlp := lp\<rparr>, Inner, parsed, sent))"

definition remote_step :: "remote_env \<Rightarrow> remote \<times> ctl \<Rightarrow> (remote \<times> ctl) \<times> string list \<times> envelope list" where
  "remote_step env sc =
     (case sc of
        (st, Outer) \<Rightarrow> (remote_outer env st, [], [])
      | (st, Inner) \<Rightarrow> (case remote_inner env st of (st, c, parsed, sent) \<Rightarrow> ((st, c), parsed, sent))
      | (st, Returned) \<Rightarrow> ((st, Returned), [], []))"

fun parseLogsRemote :: "remote_env list \<Rightarrow> remote \<times> ctl \<Rightarrow> (remote \<times> ctl) \<times> string list \<times> envelope list" where
  "parseLogsRemote [] sc = (sc, [], [])"
| "parseLogsRemote (env # envs) sc =
     (let (sc, parsed, sent) = remote_step env sc; (sc, parsed', sent') = parseLogsRemote envs sc
      in (sc, parsed @ parsed', sent @ sent'))"

section \<open>On the same host\<close>

text \<open>
  The reader of a file is its position; \<open>le_content\<close> is what opening and reading a file yields. A
  line is read up to its end, or else the end of the file is reached and all of it was read.
\<close>

record local_state =
  latest :: string
  previous :: string
  latestHandle :: "nat option"
  l_linesRead :: nat
  l_firstRun :: bool
  llp :: log_parser

definition local_start :: "log_parser \<Rightarrow> local_state" where
  "local_start lp = \<lparr>latest = [], previous = [], latestHandle = None, l_linesRead = 0, l_firstRun = True, llp = lp\<rparr>"

record local_env =
  le_done :: bool
  le_cancelled :: bool
  le_now :: int
  le_glob :: "goerr + string list"
  le_modTime :: "string \<Rightarrow> goerr + int"
  le_content :: "string \<Rightarrow> goerr + string"

fun latest_of :: "(string \<Rightarrow> goerr + int) \<Rightarrow> string list \<Rightarrow> int option \<Rightarrow> string \<Rightarrow> string" where
  "latest_of modTime [] maxDate best = best"
| "latest_of modTime (f # fs) maxDate best =
     (case modTime f of
        Inl _ \<Rightarrow> []
      | Inr t \<Rightarrow> if (case maxDate of None \<Rightarrow> True | Some d \<Rightarrow> t > d) then latest_of modTime fs (Some t) f
                 else latest_of modTime fs maxDate best)"

definition getFileWithLatestTimestamp :: "local_env \<Rightarrow> string list \<Rightarrow> string" where
  "getFileWithLatestTimestamp env files = latest_of (le_modTime env) files None []"

fun next_of :: "(string \<Rightarrow> goerr + int) \<Rightarrow> string \<Rightarrow> int \<Rightarrow> string list \<Rightarrow> int option \<Rightarrow> string \<Rightarrow> string" where
  "next_of modTime cur curMod [] nextMod nextFile = nextFile"
| "next_of modTime cur curMod (f # fs) nextMod nextFile =
     (if f = cur then next_of modTime cur curMod fs nextMod nextFile
      else case modTime f of
             Inl _ \<Rightarrow> next_of modTime cur curMod fs nextMod nextFile
           | Inr t \<Rightarrow> if (case nextMod of None \<Rightarrow> True | Some d \<Rightarrow> t < d) \<and> t > curMod
                      then next_of modTime cur curMod fs (Some t) f
                      else next_of modTime cur curMod fs nextMod nextFile)"

definition getFileWithNextModTimestamp :: "local_env \<Rightarrow> string \<Rightarrow> string" where
  "getFileWithNextModTimestamp env currentFile =
     (case le_glob env of
        Inl _ \<Rightarrow> []
      | Inr files \<Rightarrow>
          (case le_modTime env currentFile of
             Inl _ \<Rightarrow> []
           | Inr t \<Rightarrow> next_of (le_modTime env) currentFile t files None []))"

definition ReadString :: "string \<Rightarrow> nat \<Rightarrow> string option \<times> nat" where
  "ReadString content pos =
     (let rest = drop pos content; line = takeWhile (\<lambda>c. c \<noteq> newline) rest
      in if length line < length rest then (Some (line @ [newline]), pos + length line + 1) else (None, length content))"

text \<open>Skipping the lines that were read before: the new count of lines and the position.\<close>

fun skip_lines :: "string \<Rightarrow> nat \<Rightarrow> nat \<Rightarrow> nat \<Rightarrow> nat \<times> nat" where
  "skip_lines content i 0 pos = (i - 1, pos)"
| "skip_lines content i (Suc left) pos =
     (case ReadString content pos of
        (Some _, pos) \<Rightarrow> skip_lines content (Suc i) left pos
      | (None, pos) \<Rightarrow> (if left > 0 then 0 else i, pos))"

definition pick_log :: "local_env \<Rightarrow> local_state \<Rightarrow> local_state \<times> bool" where
  "pick_log env st =
     (if latest st = [] \<or> l_firstRun st
      then case le_glob env of
             Inl _ \<Rightarrow> (st, False)
           | Inr files \<Rightarrow>
               (if files = [] then (st, False)
                else if length files > 1
                then let f = getFileWithLatestTimestamp env files in (st\<lparr>latest := f\<rparr>, f \<noteq> [])
                else (st\<lparr>latest := hd files\<rparr>, True))
      else (st, True))"

definition open_log :: "local_env \<Rightarrow> local_state \<Rightarrow> local_state \<times> ctl" where
  "open_log env st =
     (if latestHandle st \<noteq> None then (st, Inner)
      else case le_content env (latest st) of
             Inl _ \<Rightarrow> (st, Outer)
           | Inr content \<Rightarrow>
               let offs = gget (fileOffsets (llp st)) (latest st);
                   n = (case offs of Some off \<Rightarrow> if TruncateOnRotation (llp st) then l_linesRead st else unat off
                                   | None \<Rightarrow> l_linesRead st);
                   st = st\<lparr>l_linesRead := n\<rparr>
               in if (offs \<noteq> None \<or> previous st = latest st) \<and> n > 0
                  then let (n', pos) = skip_lines content 1 n 0 in (st\<lparr>l_linesRead := n', latestHandle := Some pos\<rparr>, Inner)
                  else if l_firstRun st
                  then (st\<lparr>latestHandle := Some (length content), l_firstRun := False\<rparr>, Inner)
                  else (st\<lparr>latestHandle := Some 0\<rparr>, Inner))"

definition local_outer :: "local_env \<Rightarrow> local_state \<Rightarrow> local_state \<times> ctl" where
  "local_outer env st =
     (if le_done env then (st, Returned)
      else case pick_log env st of (st, found) \<Rightarrow> if found then open_log env st else (st, Outer))"

text \<open>At the end of the file the next one is looked for; the result says whether it has been switched to.\<close>

definition follow_log :: "local_env \<Rightarrow> local_state \<Rightarrow> local_state \<times> bool" where
  "follow_log env st =
     (let file = getFileWithNextModTimestamp env (latest st)
      in if file \<noteq> [] \<and> file \<noteq> latest st
         then (st\<lparr>llp := remember_offset (latest st) (of_nat (l_linesRead st)) (llp st), previous := latest st, latest := file,
                  latestHandle := None, l_linesRead := 0\<rparr>, True)
         else (st, False))"

definition local_send :: "local_env \<Rightarrow> local_state \<Rightarrow> string list \<Rightarrow> local_state \<times> ctl \<times> string list \<times> envelope list" where
  "local_send env st parsed =
     (case send_if_due (le_cancelled env) (le_now env) (llp st) of
        None \<Rightarrow> (st, Returned, parsed, [])
      | Some (lp, sent) \<Rightarrow> (st\<lparr>llp := lp\<rparr>, Inner, parsed, sent))"

definition local_inner :: "local_env \<Rightarrow> local_state \<Rightarrow> local_state \<times> ctl \<times> string list \<times> envelope list" where
  "local_inner env st =
     (case le_content env (latest st) of
        Inl _ \<Rightarrow> (st\<lparr>latestHandle := None\<rparr>, Outer, [], [])
      | Inr content \<Rightarrow>
          (case ReadString content (case latestHandle st of Some p \<Rightarrow> p | None \<Rightarrow> 0) of
             (None, pos) \<Rightarrow>
               if le_done env then (st\<lparr>latestHandle := Some pos\<rparr>, Returned, [], [])
               else let (st, switched) = follow_log env (st\<lparr>latestHandle := Some pos\<rparr>)
                    in if switched then (st, Outer, [], []) else local_send env st []
           | (Some line, pos) \<Rightarrow>
               local_send env (st\<lparr>latestHandle := Some pos, l_linesRead := Suc (l_linesRead st), llp := count_line line (llp st)\<rparr>) [line]))"

definition local_step :: "local_env \<Rightarrow> local_state \<times> ctl \<Rightarrow> (local_state \<times> ctl) \<times> string list \<times> envelope list" where
  "local_step env sc =
     (case sc of
        (st, Outer) \<Rightarrow> (local_outer env st, [], [])
      | (st, Inner) \<Rightarrow> (case local_inner env st of (st, c, parsed, sent) \<Rightarrow> ((st, c), parsed, sent))
      | (st, Returned) \<Rightarrow> ((st, Returned), [], []))"

fun parseLogsLocal :: "local_env list \<Rightarrow> local_state \<times> ctl \<Rightarrow> (local_state \<times> ctl) \<times> string list \<times> envelope list" where
  "parseLogsLocal [] sc = (sc, [], [])"
| "parseLogsLocal (env # envs) sc =
     (let (sc, parsed, sent) = local_step env sc; (sc, parsed', sent') = parseLogsLocal envs sc
      in (sc, parsed @ parsed', sent @ sent'))"

text \<open>
  \<open>ParseLogs\<close> chooses between the two. The files of the host and the functions of the server that read logs are parameters.
\<close>

record log_host =
  lh_ReadDir :: "string \<Rightarrow> goerr option"
  lh_ls_logdir :: "goerr + string option"
  lh_Join :: "string \<Rightarrow> string \<Rightarrow> string"
  lh_read_file :: "string \<Rightarrow> goerr option"

definition checkHasLocalPrivileges :: "log_host \<Rightarrow> string \<Rightarrow> goerr option" where
  "checkHasLocalPrivileges host logsDirPath = lh_ReadDir host logsDirPath"

text \<open>A log directory without files is no error here; the read that follows then names the directory.\<close>

definition checkHasRemotePrivileges :: "log_host \<Rightarrow> string \<Rightarrow> goerr option" where
  "checkHasRemotePrivileges host logsDirPath =
     (case lh_ls_logdir host of
        Inl err \<Rightarrow> Some err
      | Inr logFile \<Rightarrow> lh_read_file host (lh_Join host logsDirPath (case logFile of None \<Rightarrow> [] | Some f \<Rightarrow> f)))"

datatype log_access = ParseLocal | ParseRemote | NoAccess goerr

definition ParseLogs :: "bool \<times> goerr option \<Rightarrow> goerr option \<Rightarrow> goerr option \<Rightarrow> log_access" where
  "ParseLogs sameHost localPrivileges remotePrivileges =
     (if fst sameHost \<and> snd sameHost = None \<and> localPrivileges = None then ParseLocal
      else case remotePrivileges of None \<Rightarrow> ParseRemote | Some err \<Rightarrow> NoAccess err)"

text \<open>
  \<open>runLogParser\<close>: what stops the parser before it reads a line, or which of the loops runs; \<open>result\<close> is what that loop returns.
\<close>

definition runLogParser ::
  "goerr + log_parser \<Rightarrow> bool \<times> goerr option \<Rightarrow> log_host \<Rightarrow> string \<Rightarrow> (log_access \<Rightarrow> goerr option) \<Rightarrow> log_access option \<times> goerr option" where
  "runLogParser newParser sameHost host directory result =
     (case newParser of
        Inl err \<Rightarrow> (None, Some (ErrText ''failed to initialize log parser''))
      | Inr lp \<Rightarrow>
          (case ParseLogs sameHost (checkHasLocalPrivileges host directory) (checkHasRemotePrivileges host directory) of
             NoAccess err \<Rightarrow> (None, Some (ErrText ''log parser error''))
           | access \<Rightarrow> (Some access, map_option (\<lambda>_. ErrText ''log parser error'') (result access))))"

section \<open>Nothing is lost between two envelopes\<close>

text \<open>The count of a severity in an envelope, and the lines with a severity.\<close>

definition sent_count :: "string \<Rightarrow> envelope \<Rightarrow> int" where
  "sent_count s e = (case gget (hd (Data e)) (ToLower s @ ''_total'') of Some (VInt64 n) \<Rightarrow> n | _ \<Rightarrow> 0)"

definition lines_with :: "log_parser \<Rightarrow> string \<Rightarrow> string list \<Rightarrow> nat" where
  "lines_with lp s ls = length (filter (\<lambda>l. map_option fst (parse_line lp l) = Some s) ls)"

text \<open>
  What a step may do to the totals: with \<open>parsed\<close> the lines read and \<open>sent\<close> the envelopes sent, each line is counted in an
  envelope or still in the state. Counters are 64 bits wide, hence the bound.
\<close>

definition accounted :: "log_parser \<Rightarrow> string list \<Rightarrow> envelope list \<Rightarrow> log_parser \<Rightarrow> bool" where
  "accounted lp parsed sent lp' \<longleftrightarrow>
     ServerMessagesLang lp' = ServerMessagesLang lp \<and>
     (\<forall>s \<in> set pgSeverities. 0 \<le> cnt (eventCountsTotal lp) s \<longrightarrow> cnt (eventCountsTotal lp) s + int (length parsed) < 2 ^ 63 \<longrightarrow>
        0 \<le> cnt (eventCountsTotal lp') s \<and> (\<forall>e \<in> set sent. 0 \<le> sent_count s e) \<and>
        sum_list (map (sent_count s) sent) + cnt (eventCountsTotal lp') s
          = cnt (eventCountsTotal lp) s + int (lines_with lp s parsed))"

lemma lines_with_lang:
  "ServerMessagesLang lp' = ServerMessagesLang lp \<Longrightarrow> lines_with lp' s ls = lines_with lp s ls"
proof -
  assume lang: "ServerMessagesLang lp' = ServerMessagesLang lp"
  have "parse_line lp' l = parse_line lp l" for l
    by (cases "match_re csvLogDefaultRegEx l") (simp_all add: parse_line_def lang Let_def)
  then show ?thesis by (simp add: lines_with_def)
qed

lemma lines_with_simps [simp]:
  "lines_with lp s [] = 0" "lines_with lp s (ls @ ls') = lines_with lp s ls + lines_with lp s ls'"
  by (simp_all add: lines_with_def)

lemma accounted_refl [simp]: "accounted lp [] [] lp"
  by (simp add: accounted_def)

lemma sum_sent_nonneg: "\<forall>e \<in> set sent. 0 \<le> sent_count s e \<Longrightarrow> 0 \<le> sum_list (map (sent_count s) sent)"
  by (induction sent) auto

lemma lines_with_le: "lines_with lp s ls \<le> length ls"
  by (simp add: lines_with_def)

lemma accounted_trans:
  assumes "accounted lp ls es lp1" "accounted lp1 ls' es' lp2"
  shows "accounted lp (ls @ ls') (es @ es') lp2"
proof -
  have lang: "ServerMessagesLang lp1 = ServerMessagesLang lp" "ServerMessagesLang lp2 = ServerMessagesLang lp1"
    using assms by (simp_all add: accounted_def)
  have main: "0 \<le> cnt (eventCountsTotal lp2) s \<and> (\<forall>e \<in> set (es @ es'). 0 \<le> sent_count s e) \<and>
      sum_list (map (sent_count s) (es @ es')) + cnt (eventCountsTotal lp2) s
        = cnt (eventCountsTotal lp) s + int (lines_with lp s (ls @ ls'))"
    if s: "s \<in> set pgSeverities" and b: "0 \<le> cnt (eventCountsTotal lp) s"
      "cnt (eventCountsTotal lp) s + int (length (ls @ ls')) < 2 ^ 63" for s
  proof -
    have 1: "0 \<le> cnt (eventCountsTotal lp1) s" "\<forall>e \<in> set es. 0 \<le> sent_count s e"
      "sum_list (map (sent_count s) es) + cnt (eventCountsTotal lp1) s = cnt (eventCountsTotal lp) s + int (lines_with lp s ls)"
      using assms(1) s b unfolding accounted_def by auto
    have "cnt (eventCountsTotal lp1) s + int (length ls') < 2 ^ 63"
      using 1 sum_sent_nonneg [OF 1(2)] lines_with_le [of lp s ls] b by simp
    then have 2: "0 \<le> cnt (eventCountsTotal lp2) s" "\<forall>e \<in> set es'. 0 \<le> sent_count s e"
      "sum_list (map (sent_count s) es') + cnt (eventCountsTotal lp2) s = cnt (eventCountsTotal lp1) s + int (lines_with lp1 s ls')"
      using assms(2) s 1(1) unfolding accounted_def by auto
    show ?thesis using 1 2 lines_with_lang [OF lang(1)] by auto
  qed
  show ?thesis
    unfolding accounted_def
  proof (intro conjI ballI impI)
    show "ServerMessagesLang lp2 = ServerMessagesLang lp" using lang by simp
  qed (use main in blast)+
qed

lemma cnt_incr: "cnt (incr t m) s = (if s = t then wrap64 (cnt m s + 1) else cnt m s)"
  by (simp add: incr_def cnt_def gomap_simps)

lemma count_line_accounted: "accounted lp [line] [] (count_line line lp)"
proof -
  have "cnt (eventCountsTotal (count_line line lp)) s = cnt (eventCountsTotal lp) s + int (lines_with lp s [line])"
    if "0 \<le> cnt (eventCountsTotal lp) s" "cnt (eventCountsTotal lp) s + 1 < 2 ^ 63" for s
    using that by (auto simp: count_line_def lines_with_def cnt_incr Let_def fits64_def split: option.split)
  moreover have "ServerMessagesLang (count_line line lp) = ServerMessagesLang lp"
    by (simp add: count_line_def Let_def split: option.split prod.split)
  ultimately show ?thesis by (auto simp: accounted_def)
qed

lemma cnt_zero: "s \<in> set pgSeverities \<Longrightarrow> cnt (zeroEventCounts m) s = 0"
  by (auto simp: zeroEventCounts_def pgSeverities_def cnt_def gomap_simps)

lemma sent_count_envelope:
  "s \<in> set pgSeverities \<Longrightarrow> sent_count s (GetMeasurementEnvelope now lp) = cnt (eventCountsTotal lp) s"
  by (auto simp: sent_count_def GetMeasurementEnvelope_def pgSeverities_def gomap_simps ToLower_def lower_char_def)

lemma send_accounted: "send_if_due cancelled now lp = Some (lp', sent) \<Longrightarrow> accounted lp [] sent lp'"
  by (auto simp: send_if_due_def accounted_def cnt_zero sent_count_envelope split: if_splits)

lemma remember_accounted: "accounted lp [] [] (remember_offset file off lp)"
  by (simp add: remember_offset_def accounted_def Let_def)

lemma at_end_accounted: "at_end env st = (st', b) \<Longrightarrow> accounted (rlp st) [] [] (rlp st')"
  by (auto simp: at_end_def switch_file_def Let_def remember_accounted split: sum.splits prod.splits if_splits option.splits)

lemma outer_accounted: "remote_outer env st = (st', c) \<Longrightarrow> rlp st' = rlp st"
  by (auto simp: remote_outer_def find_log_def read_chunk_def Let_def split: if_splits sum.splits prod.splits option.splits)

lemma inner_accounted:
  assumes "remote_inner env st = (st', c, parsed, sent)"
  shows "accounted (rlp st) parsed sent (rlp st')"
proof -
  let ?last = "linesRead st = length (flines st)"
  obtain st1 leave where e: "(if ?last then at_end env st else (st, False)) = (st1, leave)" by fastforce
  have 1: "accounted (rlp st) [] [] (rlp st1)" using e at_end_accounted by (auto split: if_splits)
  obtain st2 ls where p: "parse_next st1 = (st2, ls)" by fastforce
  have 2: "accounted (rlp st1) ls [] (rlp st2)" using p count_line_accounted by (auto simp: parse_next_def Let_def split: if_splits)
  show ?thesis
  proof (cases "(?last \<and> re_done env) \<or> leave")
    case True
    with assms e 1 show ?thesis by (auto simp: remote_inner_def split: if_splits)
  next
    case False
    then have eq: "remote_inner env st = (case send_if_due (re_cancelled env) (re_now env) (rlp st2) of
        None \<Rightarrow> (st2, Returned, ls, []) | Some (lp, sent) \<Rightarrow> (st2\<lparr>rlp := lp\<rparr>, Inner, ls, sent))"
      using e p by (auto simp: remote_inner_def)
    have 3: "accounted (rlp st) ls [] (rlp st2)" using accounted_trans [OF 1 2] by simp
    show ?thesis
    proof (cases "send_if_due (re_cancelled env) (re_now env) (rlp st2)")
      case None
      with eq assms 3 show ?thesis by auto
    next
      case (Some r)
      then obtain lp es where "r = (lp, es)" "send_if_due (re_cancelled env) (re_now env) (rlp st2) = Some (lp, es)" by (cases r) auto
      with accounted_trans [OF 3 send_accounted] eq assms show ?thesis by auto
    qed
  qed
qed

lemma remote_step_accounted:
  "remote_step env (st, c) = ((st', c'), parsed, sent) \<Longrightarrow> accounted (rlp st) parsed sent (rlp st')"
  by (cases c) (auto simp: remote_step_def split: prod.splits dest: outer_accounted inner_accounted)

lemma local_send_accounted:
  assumes "local_send env st ls = (st', c, parsed, sent)" "accounted lp ls [] (llp st)"
  shows "accounted lp parsed sent (llp st')"
proof (cases "send_if_due (le_cancelled env) (le_now env) (llp st)")
  case None
  with assms show ?thesis by (auto simp: local_send_def)
next
  case (Some r)
  then obtain lp1 es where "r = (lp1, es)" "send_if_due (le_cancelled env) (le_now env) (llp st) = Some (lp1, es)" by (cases r) auto
  with accounted_trans [OF assms(2) send_accounted] assms(1) show ?thesis by (auto simp: local_send_def)
qed

lemma local_outer_accounted: "local_outer env st = (st', c) \<Longrightarrow> llp st' = llp st"
  by (auto simp: local_outer_def pick_log_def open_log_def Let_def split: if_splits sum.splits prod.splits option.splits)

lemma follow_accounted: "follow_log env st = (st', b) \<Longrightarrow> accounted (llp st) [] [] (llp st')"
  by (auto simp: follow_log_def Let_def remember_accounted split: if_splits)

lemma local_inner_accounted:
  assumes "local_inner env st = (st', c, parsed, sent)"
  shows "accounted (llp st) parsed sent (llp st')"
proof (cases "le_content env (latest st)")
  case (Inl e)
  with assms show ?thesis by (auto simp: local_inner_def)
next
  case (Inr content)
  obtain lo pos where r: "ReadString content (case latestHandle st of Some p \<Rightarrow> p | None \<Rightarrow> 0) = (lo, pos)" by fastforce
  show ?thesis
  proof (cases lo)
    case None
    obtain st1 b where f: "follow_log env (st\<lparr>latestHandle := Some pos\<rparr>) = (st1, b)" by fastforce
    from follow_accounted [OF f] have "accounted (llp st) [] [] (llp st1)" by simp
    with assms Inr r None f show ?thesis by (auto simp: local_inner_def split: if_splits dest: local_send_accounted)
  next
    case (Some line)
    with assms Inr r have "local_send env (st\<lparr>latestHandle := Some pos, l_linesRead := Suc (l_linesRead st),
        llp := count_line line (llp st)\<rparr>) [line] = (st', c, parsed, sent)" by (simp add: local_inner_def)
    from local_send_accounted [OF this] count_line_accounted show ?thesis by simp
  qed
qed

lemma local_step_accounted:
  "local_step env (st, c) = ((st', c'), parsed, sent) \<Longrightarrow> accounted (llp st) parsed sent (llp st')"
  by (cases c) (auto simp: local_step_def split: prod.splits dest: local_outer_accounted local_inner_accounted)

text \<open>
  Both loops promise the same: they are runs of steps, and each step accounts for its lines. A client needs no more.
\<close>

locale log_loop =
  fixes step :: "'e \<Rightarrow> 's \<times> ctl \<Rightarrow> ('s \<times> ctl) \<times> string list \<times> envelope list"
    and run :: "'e list \<Rightarrow> 's \<times> ctl \<Rightarrow> ('s \<times> ctl) \<times> string list \<times> envelope list"
    and parser :: "'s \<Rightarrow> log_parser"
  assumes step_accounted: "step env (st, c) = ((st', c'), parsed, sent) \<Longrightarrow> accounted (parser st) parsed sent (parser st')"
    and run_Nil: "run [] sc = (sc, [], [])"
    and run_Cons: "run (env # envs) sc =
      (let (sc, parsed, sent) = step env sc; (sc, parsed', sent') = run envs sc in (sc, parsed @ parsed', sent @ sent'))"
begin

lemma run_accounted: "run envs (st, c) = ((st', c'), parsed, sent) \<Longrightarrow> accounted (parser st) parsed sent (parser st')"
proof (induction envs arbitrary: st c parsed sent)
  case Nil
  then show ?case by (auto simp: run_Nil)
next
  case (Cons env envs)
  obtain st1 c1 ls es where 1: "step env (st, c) = ((st1, c1), ls, es)" by (metis surj_pair)
  obtain ls' es' where 2: "run envs (st1, c1) = ((st', c'), ls', es')" "parsed = ls @ ls'" "sent = es @ es'"
    using Cons.prems 1 by (auto simp: run_Cons split: prod.splits)
  from accounted_trans [OF step_accounted [OF 1] Cons.IH [OF 2(1)]] 2 show ?case by simp
qed

lemma run_append:
  "run (es @ es') sc = (let (sc, ls, ss) = run es sc; (sc, ls', ss') = run es' sc in (sc, ls @ ls', ss @ ss'))"
  by (induction es arbitrary: sc) (auto simp: run_Nil run_Cons Let_def case_prod_beta)

lemma run_conserves:
  assumes "run envs (st, c) = ((st', c'), parsed, sent)" "s \<in> set pgSeverities" "cnt (eventCountsTotal (parser st)) s = 0"
    "length parsed < 2 ^ 63"
  shows "sum_list (map (sent_count s) sent) + cnt (eventCountsTotal (parser st')) s = int (lines_with (parser st) s parsed)"
  using run_accounted [OF assms(1)] assms(2-4) unfolding accounted_def by auto

end

interpretation remote_loop: log_loop remote_step parseLogsRemote rlp
  by unfold_locales (simp_all add: remote_step_accounted)

interpretation local_loop: log_loop local_step parseLogsLocal llp
  by unfold_locales (simp_all add: local_step_accounted)


section \<open>Lines of the log\<close>

text \<open>A line as the server writes it: text fields are quoted, and empty if there is no value.\<close>

record csv_line =
  log_time :: string
  user_name :: string
  database_name :: string
  process_id :: string
  connection_from :: string
  session_id :: string
  session_line_num :: string
  command_tag :: string
  session_start_time :: string
  virtual_transaction_id :: string
  transaction_id :: string
  error_severity :: string

definition in_quotes :: "string \<Rightarrow> string" where
  "in_quotes f = (if f = [] then [] else quote # f @ [quote])"

definition csv_fields :: "csv_line \<Rightarrow> string list" where
  "csv_fields l = [log_time l, in_quotes (user_name l), in_quotes (database_name l), process_id l, in_quotes (connection_from l),
     session_id l, session_line_num l, in_quotes (command_tag l), session_start_time l, virtual_transaction_id l, transaction_id l]"

definition csv_text :: "csv_line \<Rightarrow> string \<Rightarrow> string" where
  "csv_text l rest = foldr (\<lambda>f s. f @ comma # s) (csv_fields l) (error_severity l @ comma # rest)"

definition plain :: "string \<Rightarrow> bool" where
  "plain f \<longleftrightarrow> comma \<notin> set f \<and> quote \<notin> set f \<and> newline \<notin> set f"

definition plain_line :: "csv_line \<Rightarrow> bool" where
  "plain_line l \<longleftrightarrow>
     list_all plain [log_time l, user_name l, database_name l, connection_from l, session_id l, command_tag l, session_start_time l,
       virtual_transaction_id l, transaction_id l, error_severity l] \<and>
     process_id l \<noteq> [] \<and> list_all (in_class Digit) (process_id l) \<and>
     session_line_num l \<noteq> [] \<and> list_all (in_class Digit) (session_line_num l)"

lemma first_match_hit:
  assumes "ks = as @ k # bs" "\<forall>a \<in> set as. f a = None" "f k = Some r"
  shows "first_match f ks = Some r"
  using assms by (simp add: first_match_def)

lemma special_chars: "comma \<noteq> quote" "comma \<noteq> newline" "quote \<noteq> newline" "\<not> in_class cl comma"
  by (auto simp: comma_def quote_def newline_def in_class_def char_of_def split: char_class.split)

lemma upt_at: "k \<le> n \<Longrightarrow> [0..<Suc n] = [0..<k] @ k # [Suc k..<Suc n]"
  using upt_add_eq_append [of 0 k "Suc n - k"] by (simp add: upt_conv_Cons)

lemma match_plain:
  assumes "comma \<notin> set f" "newline \<notin> set f" "match_re es s = Some r"
  shows "match_re (plain_field n @ es) (f @ comma # s) = Some ((n, f) # r)"
proof -
  let ?s = "f @ comma # s"
  let ?g = "\<lambda>k. map_option (Cons (n, take k ?s)) (match_re (Lit comma # es) (drop k ?s))"
  have "length f \<le> length (takeWhile (\<lambda>c. c \<noteq> newline) ?s)" using assms(2) by (simp add: takeWhile_append)
  note split = upt_at [OF this]
  have early: "?g a = None" if "a < length f" for a
  proof -
    have "f ! a \<noteq> comma" using assms(1) that nth_mem by fastforce
    moreover have "drop a ?s = f ! a # drop (Suc a) ?s" using that by (simp add: Cons_nth_drop_Suc)
    ultimately show ?thesis by simp
  qed
  have "first_match ?g [0..<Suc (length (takeWhile (\<lambda>c. c \<noteq> newline) ?s))] = Some ((n, f) # r)"
    by (rule first_match_hit [OF split]) (use early assms(3) in auto)
  then show ?thesis by (simp add: plain_field_def)
qed

lemma match_quoted:
  assumes "plain f" "match_re es s = Some r"
  shows "match_re (quoted_field n @ es) (in_quotes f @ comma # s) = Some ((n, f) # r)"
proof (cases "f = []")
  case True
  have "0 \<le> length (takeWhile (\<lambda>c. c \<noteq> newline) (comma # s))" by simp
  from first_match_hit [OF upt_at [OF this], of "\<lambda>k. map_option (Cons (n, take k (comma # s))) (match_re (OptLit quote # Lit comma # es) (drop k (comma # s)))" "(n, []) # r"]
  show ?thesis using True assms(2) special_chars by (simp add: quoted_field_def in_quotes_def)
next
  case False
  let ?s = "f @ quote # comma # s"
  let ?g = "\<lambda>k. map_option (Cons (n, take k ?s)) (match_re (OptLit quote # Lit comma # es) (drop k ?s))"
  have "length f \<le> length (takeWhile (\<lambda>c. c \<noteq> newline) ?s)" using assms(1) by (simp add: plain_def takeWhile_append)
  note split = upt_at [OF this]
  have early: "?g a = None" if "a < length f" for a
  proof -
    have "f ! a \<noteq> comma" "f ! a \<noteq> quote" using assms(1) that nth_mem unfolding plain_def by fastforce+
    moreover have "drop a ?s = f ! a # drop (Suc a) ?s" using that by (simp add: Cons_nth_drop_Suc)
    ultimately show ?thesis by simp
  qed
  have "first_match ?g [0..<Suc (length (takeWhile (\<lambda>c. c \<noteq> newline) ?s))] = Some ((n, f) # r)"
    by (rule first_match_hit [OF split]) (use early assms(2) in auto)
  then have lazy: "match_re (Lazy n # OptLit quote # Lit comma # es) ?s = Some ((n, f) # r)" by (simp only: match_re.simps(4))
  have "in_quotes f @ comma # s = quote # ?s" using False by (simp add: in_quotes_def)
  then show ?thesis
    by (simp only: quoted_field_def append.simps match_re.simps(3) list.case lazy option.case if_True refl)
qed

lemma match_greedy:
  assumes "f \<noteq> []" "list_all (in_class cl) f" "match_re es s = Some r"
  shows "match_re (Greedy n cl # Lit comma # es) (f @ comma # s) = Some ((n, f) # r)"
proof -
  let ?s = "f @ comma # s"
  have "takeWhile (in_class cl) ?s = f" using assms(2) special_chars(4) by (simp add: takeWhile_append list_all_iff)
  then have ks: "rev [1..<Suc (length (takeWhile (in_class cl) ?s))] = [] @ length f # rev [1..<length f]"
    using assms(1) by (cases f) simp_all
  show ?thesis
    unfolding match_re.simps(5) by (rule first_match_hit [OF ks]) (use assms(3) in auto)
qed

lemma match_number:
  "\<lbrakk>f \<noteq> []; list_all (in_class Digit) f; match_re es s = Some r\<rbrakk> \<Longrightarrow>
     match_re (number_field n @ es) (f @ comma # s) = Some ((n, f) # r)"
  unfolding number_field_def append.simps by (rule match_greedy)

text \<open>The fields up to the transaction, in front of whatever matches the last ones.\<close>

definition front_groups :: "csv_line \<Rightarrow> (string \<times> string) list" where
  "front_groups l = [(''log_time'', log_time l), (''user_name'', user_name l), (''database_name'', database_name l),
     (''process_id'', process_id l), (''connection_from'', connection_from l), (''session_id'', session_id l),
     (''session_line_num'', session_line_num l), (''command_tag'', command_tag l), (''session_start_time'', session_start_time l),
     (''virtual_transaction_id'', virtual_transaction_id l)]"

lemma match_front:
  assumes "plain_line l"
    and "match_re (plain_field ''transaction_id'' @ [Greedy ''error_severity'' Word, Lit comma])
      (transaction_id l @ comma # error_severity l @ comma # rest) = Some r"
  shows "match_re csvLogDefaultRegEx (csv_text l rest) = Some (front_groups l @ r)"
proof -
  have pl: "plain (log_time l)" "plain (user_name l)" "plain (database_name l)" "plain (connection_from l)" "plain (session_id l)"
    "plain (command_tag l)" "plain (session_start_time l)" "plain (virtual_transaction_id l)"
    using assms(1) by (simp_all add: plain_line_def)
  have pid: "process_id l \<noteq> []" "list_all (in_class Digit) (process_id l)"
    and num: "session_line_num l \<noteq> []" "list_all (in_class Digit) (session_line_num l)" using assms(1) by (simp_all add: plain_line_def)
  have pf: "match_re (plain_field n @ es) (f @ comma # s) = Some ((n, f) # r)" if "plain f" "match_re es s = Some r" for n f es s r
    using match_plain that by (simp add: plain_def)
  note chain = pf [OF pl(1) match_quoted [OF pl(2) match_quoted [OF pl(3) match_number [OF pid match_quoted [OF pl(4)
    pf [OF pl(5) match_number [OF num match_quoted [OF pl(6) pf [OF pl(7) pf [OF pl(8) assms(2)]]]]]]]]]]
  show ?thesis
    unfolding csvLogDefaultRegEx_def csv_text_def csv_fields_def
    by (simp only: foldr.simps comp_apply id_apply append_assoc append.simps chain front_groups_def)
qed

lemma front_groups_lookup: "map_of (front_groups l) ''error_severity'' = None" "map_of (front_groups l) ''database_name'' = Some (database_name l)"
  by (simp_all add: front_groups_def)

lemma csv_match:
  assumes "plain_line l" "error_severity l \<noteq> []" "list_all (in_class Word) (error_severity l)"
  shows "match_re csvLogDefaultRegEx (csv_text l rest)
    = Some (front_groups l @ [(''transaction_id'', transaction_id l), (''error_severity'', error_severity l)])"
proof -
  have tid: "comma \<notin> set (transaction_id l)" "newline \<notin> set (transaction_id l)" using assms(1) by (auto simp: plain_line_def plain_def)
  have "match_re [] rest = Some []" by simp
  from match_plain [OF tid match_greedy [OF assms(2,3) this]] show ?thesis by (rule match_front [OF assms(1)])
qed


lemma match_plain_skip:
  assumes "comma \<notin> set f" "newline \<notin> set f" "comma \<notin> set f2" "newline \<notin> set f2"
    and fails: "match_re es (f2 @ comma # s) = None" and ok: "match_re es s = Some r"
  shows "match_re (plain_field n @ es) (f @ comma # f2 @ comma # s) = Some ((n, f @ comma # f2) # r)"
proof -
  let ?f = "f @ comma # f2"
  let ?s = "?f @ comma # s"
  let ?g = "\<lambda>k. map_option (Cons (n, take k ?s)) (match_re (Lit comma # es) (drop k ?s))"
  have "length ?f \<le> length (takeWhile (\<lambda>c. c \<noteq> newline) ?s)" using assms(2,4) special_chars by (simp add: takeWhile_append)
  note split = upt_at [OF this]
  have early: "?g a = None" if "a < length ?f" for a
  proof (cases "a = length f")
    case True
    with fails show ?thesis by simp
  next
    case False
    have "?f ! a \<noteq> comma"
    proof (cases "a < length f")
      case True
      then show ?thesis using assms(1) nth_mem by (fastforce simp: nth_append)
    next
      case False
      then have "a - length f - 1 < length f2" "?f ! a = f2 ! (a - length f - 1)"
        using that \<open>a \<noteq> length f\<close> by (auto simp: nth_append nth_Cons')
      then show ?thesis using assms(3) nth_mem by fastforce
    qed
    moreover have "drop a ?s = ?f ! a # drop (Suc a) ?s" using that by (metis Cons_nth_drop_Suc length_append nth_append trans_less_add1)
    ultimately show ?thesis by simp
  qed
  have "first_match ?g [0..<Suc (length (takeWhile (\<lambda>c. c \<noteq> newline) ?s))] = Some ((n, ?f) # r)"
  proof (rule first_match_hit [OF split])
    have "take (length ?f) ?s = ?f" "drop (length ?f) ?s = comma # s" by (metis append_eq_conv_conj)+
    then show "?g (length ?f) = Some ((n, ?f) # r)"
      by (simp only: match_re.simps(2) list.case if_True refl ok option.map)
    show "\<forall>a \<in> set [0..<length ?f]. ?g a = None" by (rule ballI, rule early) auto
  qed
  then show ?thesis by (simp add: plain_field_def)
qed

lemma greedy_fails:
  assumes "comma \<notin> set f" "\<not> list_all (in_class cl) f"
  shows "match_re [Greedy n cl, Lit comma] (f @ comma # s) = None"
proof -
  let ?s = "f @ comma # s"
  let ?m = "length (takeWhile (in_class cl) f)"
  have tw: "takeWhile (in_class cl) ?s = takeWhile (in_class cl) f"
    using assms(2) by (auto simp: takeWhile_append list_all_iff)
  have lt: "?m < length f" using assms(2) by (induction f) auto
  have "match_re [Lit comma] (drop k ?s) = None" if "k \<le> ?m" for k
  proof -
    have "k < length f" using that lt by simp
    then have "drop k ?s = f ! k # drop (Suc k) ?s" "f ! k \<noteq> comma"
      using assms(1) nth_mem by (fastforce simp: Cons_nth_drop_Suc)+
    then show ?thesis by simp
  qed
  then have "filter (\<lambda>k. map_option (Cons (n, take k ?s)) (match_re [Lit comma] (drop k ?s)) \<noteq> None)
      (rev [1..<Suc (length (takeWhile (in_class cl) ?s))]) = []"
    unfolding tw by (auto simp: filter_empty_conv)
  then show ?thesis unfolding match_re.simps(5) first_match_def by simp
qed

text \<open>
  Messages of a server whose severities are not written in ASCII are not counted. The expression allows only word characters for the
  severity, so it skips the localised severity that the table would translate and takes the error code for the severity: the
  counts of all severities stay as they were.
\<close>

theorem localized_severity_lost:
  assumes "plain_line l" "gget pgSeveritiesLocale (ServerMessagesLang lp) = Some tab" "gget tab (error_severity l) = Some en"
    and "\<not> list_all (in_class Word) (error_severity l)"
    and code: "code \<noteq> []" "list_all (in_class Word) code" "code \<notin> set pgSeverities" "gget tab code = None" "newline \<notin> set code"
  shows "s \<in> set pgSeverities \<Longrightarrow>
    cnt (eventCountsTotal (count_line (csv_text l (code @ comma # rest)) lp)) s = cnt (eventCountsTotal lp) s"
proof -
  have pl: "comma \<notin> set (transaction_id l)" "newline \<notin> set (transaction_id l)" "comma \<notin> set (error_severity l)"
    "newline \<notin> set (error_severity l)" using assms(1) by (auto simp: plain_line_def plain_def)
  have "match_re [] rest = Some []" by simp
  from match_plain_skip [OF pl greedy_fails [OF pl(3) assms(4)] match_greedy [OF code(1,2) this]]
  have "match_re csvLogDefaultRegEx (csv_text l (code @ comma # rest)) = Some (front_groups l @
      [(''transaction_id'', transaction_id l @ comma # error_severity l), (''error_severity'', code)])"
    by (rule match_front [OF assms(1)])
  then have "parse_line lp (csv_text l (code @ comma # rest)) = Some (code, database_name l)"
    using assms(2) code(4) by (simp add: parse_line_def re_group_def map_add_def front_groups_lookup severityToEnglish_def Let_def)
  then show "s \<in> set pgSeverities \<Longrightarrow>
      cnt (eventCountsTotal (count_line (csv_text l (code @ comma # rest)) lp)) s = cnt (eventCountsTotal lp) s"
    using code(3) by (auto simp: count_line_def cnt_incr Let_def)
qed

definition sample_line :: "string \<Rightarrow> csv_line" where
  "sample_line sev = \<lparr>log_time = ''2024-05-01 10:00:00'', user_name = ''app'', database_name = ''db'', process_id = ''42'',
     connection_from = [], session_id = ''6631'', session_line_num = ''7'', command_tag = ''SELECT'',
     session_start_time = ''2024-05-01'', virtual_transaction_id = ''3/1'', transaction_id = ''0'', error_severity = sev\<rparr>"

definition sample_parser :: "string \<Rightarrow> log_parser" where
  "sample_parser lang = \<lparr>lp_Name = ''src'', lp_CustomTags = None, realDbname = ''db'', lp_Interval = 60, TruncateOnRotation = True,
     ServerMessagesLang = lang, eventCounts = [], eventCountsTotal = [], lastSendTime = None, fileOffsets = []\<rparr>"

definition russian_error :: string where
  "russian_error = bytes [208, 158, 208, 168, 208, 152, 208, 145, 208, 154, 208, 144]"

lemmas line_eval = sample_line_def plain_line_def plain_def comma_def quote_def newline_def in_class_def


theorem localized_severity_lost_witness:
  "severityToEnglish ''ru'' russian_error = ''ERROR'' \<and>
   cnt (eventCountsTotal (count_line (csv_text (sample_line russian_error) (''42P01'' @ comma # [])) (sample_parser ''ru''))) ''ERROR'' = 0"
proof -
  obtain tab where t: "gget pgSeveritiesLocale (ServerMessagesLang (sample_parser ''ru'')) = Some tab"
    "gget tab (error_severity (sample_line russian_error)) = Some ''ERROR''" "gget tab ''42P01'' = None"
    by (simp add: pgSeveritiesLocale_def sample_parser_def sample_line_def russian_error_def bytes_def char_of_def)
  have pl: "plain_line (sample_line russian_error)" by (simp add: line_eval russian_error_def bytes_def char_of_def)
  have "\<not> list_all (in_class Word) (error_severity (sample_line russian_error))"
    by (simp add: line_eval russian_error_def bytes_def char_of_def)
  note lost = localized_severity_lost [OF pl t(1,2) this _ _ _ t(3), of "''ERROR''" "[]"]
  have "cnt (eventCountsTotal (count_line (csv_text (sample_line russian_error) (''42P01'' @ comma # [])) (sample_parser ''ru''))) ''ERROR''
      = cnt (eventCountsTotal (sample_parser ''ru'')) ''ERROR''"
    by (rule lost) (simp_all add: in_class_def pgSeverities_def newline_def char_of_def)
  moreover have "severityToEnglish ''ru'' russian_error = ''ERROR''"
    by (simp add: severityToEnglish_def pgSeveritiesLocale_def russian_error_def bytes_def char_of_def)
  ultimately show ?thesis by (simp add: sample_parser_def cnt_def)
qed

section \<open>A file that shrinks\<close>

text \<open>
  What a server answers about a log file that stays at \<open>n\<close> bytes: its size, and the empty text for a read past its end.
\<close>

definition shrunk_env :: "string \<Rightarrow> 64 word \<Rightarrow> remote_env \<Rightarrow> bool" where
  "shrunk_env file n env \<longleftrightarrow>
     \<not> re_done env \<and> \<not> re_cancelled env \<and> (\<exists>md. re_stat env file = Inr (n, md)) \<and>
     (\<forall>off len. n \<le> off \<longrightarrow> re_read env file off len = Inr [])"

text \<open>The parser is past the end of the file and about to read a chunk.\<close>

definition past_end :: "string \<Rightarrow> 64 word \<Rightarrow> 64 word \<Rightarrow> remote \<Rightarrow> bool" where
  "past_end file n off st \<longleftrightarrow>
     latestLogFile st = file \<and> file \<noteq> [] \<and> \<not> firstRun st \<and> linesRead st = length (flines st) \<and> fsize st = n \<and> foffset st = off"

lemma unat_chunk: "unat maxChunkSize = 10485760"
  by (simp add: maxChunkSize_def)

lemma full_chunk:
  assumes "n < off" "unat off + 10485760 < 2 ^ 64"
  shows "min maxChunkSize (n - off) = maxChunkSize"
proof -
  have "unat n < unat off" using assms(1) by (simp add: word_less_nat_alt)
  then have "unat (n - off) = unat n + 2 ^ 64 - unat off" by (simp add: unat_sub_if')
  with assms(2) have "maxChunkSize \<le> n - off" by (simp add: word_le_nat_alt unat_chunk)
  then show ?thesis by (simp add: min_def)
qed

lemma no_empty_match: "match_re csvLogDefaultRegEx [] = None"
  by (simp add: csvLogDefaultRegEx_def plain_field_def first_match_def)

lemma Split_empty: "Split [] [c] = [[]]"
  by (subst Split.simps) simp

lemma send_total: "\<exists>lp' es. send_if_due False now lp = Some (lp', es)"
  by (simp add: send_if_due_def)

lemma past_end_cycle:
  assumes env: "shrunk_env file n e1" "shrunk_env file n e2" "shrunk_env file n e3"
    and st: "past_end file n off st" "n < off" "unat off + 10485760 < 2 ^ 64"
  shows "\<exists>st' sent. parseLogsRemote [e1, e2, e3] (st, Outer) = ((st', Outer), [[]], sent) \<and>
    past_end file n (off + maxChunkSize) st' \<and> n < off + maxChunkSize \<and> unat (off + maxChunkSize) = unat off + 10485760"
proof -
  have u: "unat (off + maxChunkSize) = unat off + 10485760"
    using st(3) unat_add_lem [of off maxChunkSize] by (simp add: unat_chunk)
  have gt: "n < off + maxChunkSize" using u st(2) by (simp add: word_less_nat_alt)
  define s1 where "s1 = st\<lparr>flines := [[]], linesRead := 0, foffset := off + maxChunkSize\<rparr>"
  have r: "re_read e1 file off maxChunkSize = Inr []" using env(1) st(2) by (simp add: shrunk_env_def)
  have 1: "remote_step e1 (st, Outer) = ((s1, Inner), [], [])"
    using env(1) st full_chunk [OF st(2,3)] r
    by (auto simp: remote_step_def remote_outer_def find_log_def read_chunk_def past_end_def shrunk_env_def Split_empty s1_def Let_def)
  obtain lp es where snd: "send_if_due False (re_now e2) (rlp s1) = Some (lp, es)" using send_total by blast
  define s2 where "s2 = s1\<lparr>linesRead := 1, rlp := lp\<rparr>"
  have "count_line [] (rlp s1) = rlp s1" by (simp add: count_line_def parse_line_def no_empty_match)
  then have 2: "remote_step e2 (s1, Inner) = ((s2, Inner), [[]], es)"
    using env(2) snd by (simp add: remote_step_def remote_inner_def parse_next_def shrunk_env_def s1_def s2_def Let_def)
  from env(3) obtain md where md: "re_stat e3 file = Inr (n, md)" "\<not> re_done e3" by (auto simp: shrunk_env_def)
  define s3 where "s3 = s2\<lparr>modification := md, fsize := n\<rparr>"
  have f2: "latestLogFile s2 = file" "fsize s2 = n" "foffset s2 = off + maxChunkSize" "linesRead s2 = 1" "flines s2 = [[]]"
    using st(1) by (simp_all add: s1_def s2_def past_end_def)
  have 3: "remote_step e3 (s2, Inner) = ((s3, Outer), [], [])"
    using md gt f2 by (auto simp: remote_step_def remote_inner_def at_end_def s3_def Let_def)
  have "past_end file n (off + maxChunkSize) s3" using st(1) by (simp add: past_end_def s1_def s2_def s3_def)
  with 1 2 3 u gt show ?thesis by simp
qed

text \<open>
  When a log file shrinks below the offset the parser has reached, the remote parser never reads it again, and never leaves it. The
  distance to the end of the file wraps around, each round reads a full chunk past the end, gets
  nothing and moves the offset further, until the offset itself would wrap around.
\<close>

theorem remote_stuck_after_truncation:
  assumes "past_end file n off st" "n < off" "unat off + k * 10485760 < 2 ^ 64"
    and "list_all (shrunk_env file n) envs" "length envs = 3 * k"
  shows "\<exists>st' sent. parseLogsRemote envs (st, Outer) = ((st', Outer), replicate k [], sent) \<and>
    (\<exists>off'. past_end file n off' st' \<and> n < off')"
  using assms
proof (induction k arbitrary: envs st off)
  case 0
  then show ?case by auto
next
  case (Suc k)
  obtain e1 e2 e3 es where envs: "envs = [e1, e2, e3] @ es" "length es = 3 * k"
    using Suc.prems(5) by (cases envs; cases "tl envs"; cases "tl (tl envs)") auto
  with Suc.prems(4) have sh: "shrunk_env file n e1" "shrunk_env file n e2" "shrunk_env file n e3" "list_all (shrunk_env file n) es" by auto
  from past_end_cycle [OF sh(1-3) Suc.prems(1,2)] Suc.prems(3) obtain st1 s1 where
    c: "parseLogsRemote [e1, e2, e3] (st, Outer) = ((st1, Outer), [[]], s1)" "past_end file n (off + maxChunkSize) st1"
      "n < off + maxChunkSize" "unat (off + maxChunkSize) = unat off + 10485760" by auto
  have "unat (off + maxChunkSize) + k * 10485760 < 2 ^ 64" using Suc.prems(3) c(4) by simp
  from Suc.IH [OF c(2,3) this sh(4) envs(2)] obtain st' s2 off' where
    r: "parseLogsRemote es (st1, Outer) = ((st', Outer), replicate k [], s2)" "past_end file n off' st'" "n < off'" by blast
  have "parseLogsRemote envs (st, Outer) = ((st', Outer), replicate (Suc k) [], s1 @ s2)"
    unfolding envs(1) remote_loop.run_append c(1) Let_def prod.case r(1) by simp
  with r(2,3) show ?case by blast
qed

theorem remote_stuck_after_truncation_witness:
  "let st = (remote_start (sample_parser ''en''))\<lparr>latestLogFile := ''f.csv'', firstRun := False, fsize := 5, foffset := 10\<rparr>;
       env = \<lparr>re_done = False, re_cancelled = False, re_now = 0, re_latest = Inl (ErrText ''''), re_read = \<lambda>_ _ _. Inr [],
              re_stat = \<lambda>_. Inr (5, 0), re_next = \<lambda>_. Inr (''g.csv'', 100)\<rparr>
   in \<exists>st' sent. parseLogsRemote [env, env, env] (st, Outer) = ((st', Outer), [[]], sent) \<and> latestLogFile st' = ''f.csv''"
proof -
  define st where "st = (remote_start (sample_parser ''en''))\<lparr>latestLogFile := ''f.csv'', firstRun := False, fsize := 5, foffset := 10\<rparr>"
  define env where "env = \<lparr>re_done = False, re_cancelled = False, re_now = 0, re_latest = Inl (ErrText ''''),
    re_read = \<lambda>_ _ _. Inr [], re_stat = \<lambda>_. Inr (5, 0), re_next = \<lambda>_. Inr (''g.csv'', 100)\<rparr>"
  have p: "past_end ''f.csv'' 5 10 st" by (simp add: past_end_def st_def remote_start_def)
  have e: "list_all (shrunk_env ''f.csv'' 5) [env, env, env]" by (simp add: shrunk_env_def env_def)
  have "\<exists>st' sent. parseLogsRemote [env, env, env] (st, Outer) = ((st', Outer), replicate 1 [], sent) \<and>
      (\<exists>off'. past_end ''f.csv'' 5 off' st' \<and> 5 < off')"
    by (rule remote_stuck_after_truncation [OF p _ _ e]) (simp_all add: word_less_nat_alt)
  then show ?thesis unfolding Let_def st_def [symmetric] env_def [symmetric] by (auto simp: past_end_def)
qed

definition sample_log_env :: remote_env where
  "sample_log_env = \<lparr>re_done = False, re_cancelled = False, re_now = 0, re_latest = Inr (''f.csv'', 0, 0),
     re_read = \<lambda>_ _ _. Inr (csv_text (sample_line ''ERROR'') []), re_stat = \<lambda>_. Inr (100, 0), re_next = \<lambda>_. Inl (ErrText [])\<rparr>"


end
