(* ===== verification/Log_Broker.thy ===== *)
theory Log_Broker
  imports Go_Prelude "HOL-Library.Sublist"
begin

text \<open>
  The hook that publishes log messages to subscribers (\<open>internal/log/log_broker_hook.go\<close>), to which the
  web server subscribes a channel for every browser that shows the log.

  Subscribers, the goroutine that fires messages and the goroutine \<open>poll\<close> take turns; an event is a turn of one of them. Whether a
  subscriber is ready to receive is part of the event, and so is what formatting a message
  yields. The state also records, for the theorems, what was accepted, what was taken from the queue and what each channel received.
\<close>

section \<open>The hook\<close>

definition cacheLimit :: nat where "cacheLimit = 512"

datatype log_level = PanicLevel | FatalLevel | ErrorLevel | WarnLevel | InfoLevel | DebugLevel | TraceLevel

definition Levels :: "string \<Rightarrow> log_level list" where
  "Levels level =
     (if level = ''none'' then []
      else if level = ''debug'' then [PanicLevel, FatalLevel, ErrorLevel, WarnLevel, InfoLevel, DebugLevel, TraceLevel]
      else if level = ''info'' then [PanicLevel, FatalLevel, ErrorLevel, WarnLevel, InfoLevel]
      else [PanicLevel, FatalLevel, ErrorLevel])"

record 'c broker =
  subscribers :: "'c list"
  input :: "string list"
  ctxErr :: bool
  accepted :: "string list"
  polled :: "string list"
  received :: "'c \<Rightarrow> string list"

definition NewBrokerHook :: "'c broker" where
  "NewBrokerHook = \<lparr>subscribers = [], input = [], ctxErr = False, accepted = [], polled = [], received = (\<lambda>_. [])\<rparr>"

definition AddSubscriber :: "'c \<Rightarrow> 'c broker \<Rightarrow> 'c broker" where
  "AddSubscriber msgCh hook = hook\<lparr>subscribers := subscribers hook @ [msgCh]\<rparr>"

definition RemoveSubscriber :: "'c \<Rightarrow> 'c broker \<Rightarrow> 'c broker" where
  "RemoveSubscriber msgCh hook = hook\<lparr>subscribers := filter (\<lambda>e. e \<noteq> msgCh) (subscribers hook)\<rparr>"

text \<open>A message is dropped when the queue stays full until the timeout.\<close>

definition Fire :: "goerr + string \<Rightarrow> 'c broker \<Rightarrow> 'c broker \<times> goerr option" where
  "Fire formatted hook =
     (if ctxErr hook then (hook, None)
      else case formatted of
             Inl err \<Rightarrow> (hook, Some err)
           | Inr raw \<Rightarrow>
               (if length (input hook) < cacheLimit
                then (hook\<lparr>input := input hook @ [raw], accepted := accepted hook @ [raw]\<rparr>, None)
                else (hook, None)))"

text \<open>Sending does not wait: a subscriber that is not ready misses the message.\<close>

definition send :: "('c \<Rightarrow> bool) \<Rightarrow> string \<Rightarrow> 'c broker \<Rightarrow> 'c broker" where
  "send ready msg hook =
     fold (\<lambda>subscriber hook. if ready subscriber
            then hook\<lparr>received := (received hook)(subscriber := received hook subscriber @ [msg])\<rparr> else hook)
       (subscribers hook) hook"

text \<open>
  A turn of \<open>poll\<close>. When the context has ended the \<open>select\<close> may still choose a message, so the
  event says whether it does.
\<close>

datatype 'c broker_event =
    Subscribe 'c | Unsubscribe 'c | Fired "goerr + string" | Poll "'c \<Rightarrow> bool" | PollReturns | Cancel

fun broker_step :: "'c broker_event \<Rightarrow> 'c broker \<Rightarrow> 'c broker" where
  "broker_step (Subscribe c) hook = AddSubscriber c hook"
| "broker_step (Unsubscribe c) hook = RemoveSubscriber c hook"
| "broker_step (Fired formatted) hook = fst (Fire formatted hook)"
| "broker_step (Poll ready) hook =
     (case input hook of
        [] \<Rightarrow> hook
      | msg # msgs \<Rightarrow> send ready msg (hook\<lparr>input := msgs, polled := polled hook @ [msg]\<rparr>))"
| "broker_step PollReturns hook = hook"
| "broker_step Cancel hook = hook\<lparr>ctxErr := True\<rparr>"

definition broker_run :: "'c broker_event list \<Rightarrow> 'c broker" where
  "broker_run evs = fold broker_step evs NewBrokerHook"

section \<open>Theorems\<close>

definition deliveries :: "('c \<Rightarrow> bool) \<Rightarrow> 'c list \<Rightarrow> 'c \<Rightarrow> nat" where
  "deliveries ready subs c = (if ready c then count_list subs c else 0)"

lemma send_fold:
  "received (fold (\<lambda>subscriber hook. if ready subscriber
       then hook\<lparr>received := (received hook)(subscriber := received hook subscriber @ [msg])\<rparr> else hook) subs hook) c
     = received hook c @ replicate (deliveries ready subs c) msg"
  by (induction subs arbitrary: hook) (auto simp: deliveries_def replicate_append_same [symmetric])

lemma send_received: "received (send ready msg hook) c = received hook c @ replicate (deliveries ready (subscribers hook) c) msg"
  unfolding send_def by (rule send_fold)

lemma send_frame [simp]:
  "subscribers (send ready msg hook) = subscribers hook" "input (send ready msg hook) = input hook"
  "ctxErr (send ready msg hook) = ctxErr hook" "accepted (send ready msg hook) = accepted hook"
  "polled (send ready msg hook) = polled hook"
proof -
  have "P (fold (\<lambda>subscriber hook. if ready subscriber
       then hook\<lparr>received := (received hook)(subscriber := received hook subscriber @ [msg])\<rparr> else hook) subs hook)"
    if "P hook" "\<And>h f. P h \<Longrightarrow> P (h\<lparr>received := f\<rparr>)" for P subs and hook :: "'a broker"
    using that(1) by (induction subs arbitrary: hook) (auto intro: that(2))
  note keep = this
  show "subscribers (send ready msg hook) = subscribers hook" unfolding send_def by (rule keep) simp_all
  show "input (send ready msg hook) = input hook" unfolding send_def by (rule keep) simp_all
  show "ctxErr (send ready msg hook) = ctxErr hook" unfolding send_def by (rule keep) simp_all
  show "accepted (send ready msg hook) = accepted hook" unfolding send_def by (rule keep) simp_all
  show "polled (send ready msg hook) = polled hook" unfolding send_def by (rule keep) simp_all
qed

text \<open>
  The invariant: the queue is bounded and first-in first-out, nobody is subscribed twice, and a channel has received some of the
  messages in order.
\<close>

definition broker_ok :: "'c broker \<Rightarrow> bool" where
  "broker_ok hook \<longleftrightarrow>
     length (input hook) \<le> cacheLimit \<and> accepted hook = polled hook @ input hook \<and> distinct (subscribers hook) \<and>
     (\<forall>c. subseq (received hook c) (polled hook))"

fun fresh_event :: "'c broker_event \<Rightarrow> 'c broker \<Rightarrow> bool" where
  "fresh_event (Subscribe c) hook = (c \<notin> set (subscribers hook))"
| "fresh_event _ hook = True"

lemma deliveries_le: "distinct subs \<Longrightarrow> deliveries ready subs c \<le> 1"
  by (induction subs) (auto simp: deliveries_def split: if_splits)

lemma subseq_one: "subseq xs ys \<Longrightarrow> k \<le> 1 \<Longrightarrow> subseq (xs @ replicate k m) (ys @ [m])"
  by (cases k) (auto intro: list_emb_append_mono simp: subseq_append_iff)

lemma broker_step_ok:
  assumes "broker_ok hook" "fresh_event ev hook"
  shows "broker_ok (broker_step ev hook)"
proof (cases ev)
  case (Poll ready)
  show ?thesis
  proof (cases "input hook")
    case (Cons msg msgs)
    let ?h = "hook\<lparr>input := msgs, polled := polled hook @ [msg]\<rparr>"
    have "subseq (received (send ready msg ?h) c) (polled hook @ [msg])" for c
      unfolding send_received using assms(1) by (intro subseq_one deliveries_le) (simp_all add: broker_ok_def)
    with assms(1) Poll Cons show ?thesis by (auto simp: broker_ok_def)
  qed (use assms Poll in simp)
qed (use assms in \<open>auto simp: broker_ok_def AddSubscriber_def RemoveSubscriber_def Fire_def split: sum.split\<close>)

fun fresh_events :: "'c broker_event list \<Rightarrow> 'c broker \<Rightarrow> bool" where
  "fresh_events [] hook = True"
| "fresh_events (ev # evs) hook = (fresh_event ev hook \<and> fresh_events evs (broker_step ev hook))"

lemma broker_fold_ok: "broker_ok hook \<Longrightarrow> fresh_events evs hook \<Longrightarrow> broker_ok (fold broker_step evs hook)"
  by (induction evs arbitrary: hook) (auto simp: broker_step_ok)



end
