(* ===== verification/Log_Format.thy ===== *)
theory Log_Format
  imports Log_Broker Metric_Types
begin

text \<open>
  Log output (\<open>internal/log/formatter.go\<close>, \<open>log.go\<close>): the text of an entry, the set-up of the logger, the
  logger of a context, and the translation of the driver's messages.

  The logging library is a parameter: the names of levels (\<open>level_name\<close>), parsing them, and the
  rotating file. An entry carries its time as a function of the layout. The text of a field's value (\<open>%v\<close>) is the parameter \<open>sprint\<close>. An
  index out of range is \<open>None\<close>.
\<close>

section \<open>Entries and formatters\<close>

record frame =
  fFunction :: string
  fFile :: string
  fLine :: int

record log_entry =
  eLevel :: log_level
  eTime :: "string \<Rightarrow> string"
  eMessage :: string
  eData :: "(string, goval) gomap"
  eCaller :: "frame option"

record formatter =
  FieldsOrder :: "string list option"
  TimestampFormat :: string
  HideKeys :: bool
  NoColors :: bool
  NoFieldsColors :: bool
  NoFieldsSpace :: bool
  ShowFullLevel :: bool
  NoUppercaseLevel :: bool
  TrimMessages :: bool
  CallerFirst :: bool
  CustomCallerFormatter :: "(frame \<Rightarrow> string) option"

definition newFormatter :: "bool \<Rightarrow> formatter" where
  "newFormatter noColors = \<lparr>FieldsOrder = Some [''source'', ''metric'', ''sink'', ''db'', ''filename'', ''address'', ''rows'', ''sql'', ''params''],
     TimestampFormat = ''2006-01-02 15:04:05.000'', HideKeys = False, NoColors = noColors, NoFieldsColors = False,
     NoFieldsSpace = False, ShowFullLevel = True, NoUppercaseLevel = False, TrimMessages = False, CallerFirst = False,
     CustomCallerFormatter = None\<rparr>"

definition getColorByLevel :: "log_level \<Rightarrow> nat" where
  "getColorByLevel level =
     (case level of DebugLevel \<Rightarrow> 36 | TraceLevel \<Rightarrow> 36 | WarnLevel \<Rightarrow> 35
      | ErrorLevel \<Rightarrow> 31 | FatalLevel \<Rightarrow> 31 | PanicLevel \<Rightarrow> 31 | _ \<Rightarrow> 32)"

definition trimFilename :: "string \<Rightarrow> string" where
  "trimFilename s = (let (_, after, ok) = Cut s ''internal/'' in if \<not> ok then s else after)"

definition writeCaller :: "formatter \<Rightarrow> log_entry \<Rightarrow> string" where
  "writeCaller f entry =
     (case eCaller entry of
        None \<Rightarrow> []
      | Some caller \<Rightarrow>
          (case CustomCallerFormatter f of
             Some custom \<Rightarrow> custom caller
           | None \<Rightarrow>
               (if str_index ''PgxLogger'' (fFunction caller) \<noteq> None then []
                else '' ('' @ trimFilename (fFile caller) @ '':'' @ show_int (fLine caller) @ '' '' @
                     trimFilename (fFunction caller) @ '')'')))"

section \<open>Fields\<close>

definition writeField :: "(goval \<Rightarrow> string) \<Rightarrow> formatter \<Rightarrow> log_entry \<Rightarrow> string \<Rightarrow> string" where
  "writeField sprint f entry field =
     (let v = sprint (case gget (eData entry) field of Some v \<Rightarrow> v | None \<Rightarrow> VNil)
      in (if HideKeys f then ''['' @ v @ '']'' else ''['' @ field @ '':'' @ v @ '']'') @
         (if NoFieldsSpace f then [] else '' ''))"

definition writeFields :: "(goval \<Rightarrow> string) \<Rightarrow> formatter \<Rightarrow> log_entry \<Rightarrow> string" where
  "writeFields sprint f entry =
     (if length (eData entry) \<noteq> 0 then concat (map (writeField sprint f entry) (sort_strs (gkeys (eData entry)))) else [])"

text \<open>The loop over \<open>FieldsOrder\<close>: the text, the fields found, and how many are left.\<close>

fun ordered_loop :: "(goval \<Rightarrow> string) \<Rightarrow> formatter \<Rightarrow> log_entry \<Rightarrow> string list \<Rightarrow> string \<times> (string, bool) gomap \<times> int
    \<Rightarrow> string \<times> (string, bool) gomap \<times> int" where
  "ordered_loop sprint f entry [] st = st"
| "ordered_loop sprint f entry (field # rest) (b, found, left) =
     ordered_loop sprint f entry rest
       (if ghas (eData entry) field then (b @ writeField sprint f entry field, gset field True found, left - 1)
        else (b, found, left))"

definition writeOrderedFields :: "(goval \<Rightarrow> string) \<Rightarrow> formatter \<Rightarrow> log_entry \<Rightarrow> string list \<Rightarrow> string" where
  "writeOrderedFields sprint f entry order =
     (let (b, found, left) = ordered_loop sprint f entry order ([], [], int (length (eData entry)))
      in if left > 0
         then b @ concat (map (writeField sprint f entry)
                (sort_strs (filter (\<lambda>field. gget found field \<noteq> Some True) (gkeys (eData entry)))))
         else b)"

section \<open>The text of an entry\<close>

definition escape :: "nat \<Rightarrow> string" where
  "escape n = [char_of (27 :: nat)] @ ''['' @ show_nat n @ ''m''"

definition Format :: "(log_level \<Rightarrow> string) \<Rightarrow> (goval \<Rightarrow> string) \<Rightarrow> formatter \<Rightarrow> log_entry \<Rightarrow> string option" where
  "Format level_name sprint f entry =
     (let layout = (if TimestampFormat f = [] then ''Jan _2 15:04:05.000'' else TimestampFormat f);
          level = (if NoUppercaseLevel f then level_name (eLevel entry) else ToUpper (level_name (eLevel entry)))
      in if \<not> ShowFullLevel f \<and> length level < 4 then None
         else Some (
           eTime entry layout @
           (if CallerFirst f then writeCaller f entry else []) @
           (if NoColors f then [] else escape (getColorByLevel (eLevel entry))) @
           '' ['' @ (if ShowFullLevel f then level else take 4 level) @ '']'' @
           (if NoFieldsSpace f then [] else '' '') @
           (if \<not> NoColors f \<and> NoFieldsColors f then escape 0 else []) @
           (case FieldsOrder f of None \<Rightarrow> writeFields sprint f entry | Some order \<Rightarrow> writeOrderedFields sprint f entry order) @
           (if NoFieldsSpace f then '' '' else []) @
           (if \<not> NoColors f \<and> \<not> NoFieldsColors f then escape 0 else []) @
           (if TrimMessages f then TrimSpace (eMessage entry) else eMessage entry) @
           (if CallerFirst f then [] else writeCaller f entry) @
           [char_of (10 :: nat)]))"

section \<open>Set-up\<close>

record log_opts =
  LogLevel :: string
  LogFile :: string
  LogFileFormat :: string
  LogFileRotate :: bool
  LogFileSize :: int
  LogFileAge :: int
  LogFileNumber :: int

datatype log_writer = RotatingFile string int int int | PlainFile string

datatype entry_format = TextFormat formatter | JSONFormat

definition getLogFileWriter :: "log_opts \<Rightarrow> log_writer" where
  "getLogFileWriter opts =
     (if LogFileRotate opts then RotatingFile (LogFile opts) (LogFileSize opts) (LogFileNumber opts) (LogFileAge opts)
      else PlainFile (LogFile opts))"

definition getLogFileFormatter :: "log_opts \<Rightarrow> entry_format" where
  "getLogFileFormatter opts = (if LogFileFormat opts = ''text'' then TextFormat (newFormatter True) else JSONFormat)"

datatype log_hook = BrokerHook "log_level list" | FileHook log_writer entry_format

record go_logger =
  lgHooks :: "log_hook list"
  lgLevel :: log_level
  lgFormatter :: formatter
  lgBrokerFormatter :: formatter
  lgReportCaller :: bool

fun level_num :: "log_level \<Rightarrow> nat" where
  "level_num PanicLevel = 0"
| "level_num FatalLevel = 1"
| "level_num ErrorLevel = 2"
| "level_num WarnLevel = 3"
| "level_num InfoLevel = 4"
| "level_num DebugLevel = 5"
| "level_num TraceLevel = 6"

definition log_Init :: "(string \<Rightarrow> log_level option) \<Rightarrow> log_opts \<Rightarrow> go_logger" where
  "log_Init parse opts =
     (let level = (case parse (LogLevel opts) of Some l \<Rightarrow> l | None \<Rightarrow> InfoLevel)
      in \<lparr>lgHooks = [BrokerHook (Levels (LogLevel opts))] @
            (if LogFile opts \<noteq> [] then [FileHook (getLogFileWriter opts) (getLogFileFormatter opts)] else []),
          lgLevel = level, lgFormatter = newFormatter False, lgBrokerFormatter = newFormatter True,
          lgReportCaller = (level_num level > level_num InfoLevel)\<rparr>)"

definition SetBrokerFormatter :: "formatter \<Rightarrow> formatter option \<Rightarrow> go_logger \<Rightarrow> go_logger" where
  "SetBrokerFormatter defaultFormatter fmt l = l\<lparr>lgBrokerFormatter := (case fmt of None \<Rightarrow> defaultFormatter | Some f \<Rightarrow> f)\<rparr>"

section \<open>Contexts and the driver's messages\<close>

text \<open>A logger of a context: a base logger by number (0 is the fallback), or an entry with fields that was made from it.\<close>

record ctx_logger =
  clBase :: nat
  clFields :: "(string, goval) gomap option"

record go_ctx =
  ctxLogger :: "ctx_logger option"
  ctxSuppress :: bool

definition FallbackLogger :: ctx_logger where
  "FallbackLogger = \<lparr>clBase = 0, clFields = None\<rparr>"

definition WithLogger :: "ctx_logger \<Rightarrow> go_ctx \<Rightarrow> go_ctx" where
  "WithLogger l ctx = ctx\<lparr>ctxLogger := Some l\<rparr>"

definition GetLogger :: "go_ctx \<Rightarrow> ctx_logger" where
  "GetLogger ctx = (case ctxLogger ctx of None \<Rightarrow> FallbackLogger | Some l \<Rightarrow> l)"

definition WithSuppressedPgxErrors :: "go_ctx \<Rightarrow> go_ctx" where
  "WithSuppressedPgxErrors ctx = ctx\<lparr>ctxSuppress := True\<rparr>"

definition pgxErrorsSuppressed :: "go_ctx \<Rightarrow> bool" where
  "pgxErrorsSuppressed ctx = ctxSuppress ctx"

datatype pgx_level = PgxNone | PgxError | PgxWarn | PgxInfo | PgxDebug | PgxTrace | PgxOther int

definition with_fields :: "(string, goval) gomap \<Rightarrow> ctx_logger \<Rightarrow> ctx_logger" where
  "with_fields data l = l\<lparr>clFields := Some (fold (\<lambda>(k, v). gset k v) data (oentries (clFields l)))\<rparr>"

text \<open>The entry that a message of the driver becomes: the logger with its fields, the level and the message.\<close>

definition pgx_Log :: "(pgx_level \<Rightarrow> goval) \<Rightarrow> ctx_logger \<Rightarrow> go_ctx \<Rightarrow> pgx_level \<Rightarrow> string \<Rightarrow> (string, goval) gomap option
    \<Rightarrow> ctx_logger \<times> log_level \<times> string" where
  "pgx_Log level_value own ctx level msg data =
     (let logger = GetLogger ctx;
          logger = (if logger = FallbackLogger then own else logger);
          logger = (case data of None \<Rightarrow> logger | Some d \<Rightarrow> with_fields d logger)
      in case level of
           PgxTrace \<Rightarrow> (with_fields [(''PGX_LOG_LEVEL'', level_value level)] logger, DebugLevel, msg)
         | PgxDebug \<Rightarrow> (logger, DebugLevel, msg)
         | PgxInfo \<Rightarrow> (logger, DebugLevel, msg)
         | PgxWarn \<Rightarrow> (logger, WarnLevel, msg)
         | PgxError \<Rightarrow> (if pgxErrorsSuppressed ctx then (logger, DebugLevel, msg) else (logger, ErrorLevel, msg))
         | _ \<Rightarrow> (with_fields [(''INVALID_PGX_LOG_LEVEL'', level_value level)] logger, ErrorLevel, msg))"

section \<open>Every field once, in a fixed order\<close>

lemma ordered_loop_spec:
  assumes "distinct order"
  shows "ordered_loop sprint f entry order (b, found, left) =
    (b @ concat (map (writeField sprint f entry) (filter (ghas (eData entry)) order)),
     fold (\<lambda>k. gset k True) (filter (ghas (eData entry)) order) found,
     left - int (length (filter (ghas (eData entry)) order)))"
  using assms by (induction order arbitrary: b found left) auto

lemma found_fields: "gget (fold (\<lambda>k. gset k True) ks found) field = (if field \<in> set ks then Some True else gget found field)"
  by (induction ks arbitrary: found) (auto simp: gomap_simps)

text \<open>The fields in the order they are written.\<close>

definition field_order :: "string list \<Rightarrow> (string, goval) gomap \<Rightarrow> string list" where
  "field_order order data = filter (ghas data) order @ sort_strs (filter (\<lambda>k. k \<notin> set order) (gkeys data))"

lemma field_order_perm:
  assumes "gwf data" "distinct order"
  shows "mset (field_order order data) = mset (gkeys data)"
proof -
  have "distinct (filter (ghas data) order @ filter (\<lambda>k. k \<notin> set order) (gkeys data))"
    using assms by auto
  moreover have "set (filter (ghas data) order @ filter (\<lambda>k. k \<notin> set order) (gkeys data)) = set (gkeys data)"
    by (auto simp: map_of_eq_None_iff)
  ultimately have "mset (filter (ghas data) order @ filter (\<lambda>k. k \<notin> set order) (gkeys data)) = mset (gkeys data)"
    using assms(1) by (simp only: set_eq_iff_mset_eq_distinct [symmetric])
  then show ?thesis by (simp add: field_order_def)
qed

lemma writeOrderedFields_spec:
  assumes "gwf (eData entry)" "distinct order"
  shows "writeOrderedFields sprint f entry order = concat (map (writeField sprint f entry) (field_order order (eData entry)))"
proof -
  let ?d = "eData entry" and ?in = "filter (ghas (eData entry)) order"
  have rest: "filter (\<lambda>k. gget (fold (\<lambda>k. gset k True) ?in []) k \<noteq> Some True) (gkeys ?d) = filter (\<lambda>k. k \<notin> set order) (gkeys ?d)"
    by (rule filter_cong [OF refl]) (auto simp: found_fields map_of_eq_None_iff)
  have "length (field_order order ?d) = length ?d"
    using arg_cong [OF field_order_perm [OF assms], of size] by simp
  then have "length ?in + length (filter (\<lambda>k. k \<notin> set order) (gkeys ?d)) = length ?d" by (simp add: field_order_def)
  moreover from this have "filter (\<lambda>k. k \<notin> set order) (gkeys ?d) = []" if "\<not> int (length ?d) - int (length ?in) > 0"
    using that by (metis diff_gt_0_iff_gt length_greater_0_conv less_add_same_cancel1 of_nat_less_iff)
  ultimately show ?thesis
    unfolding writeOrderedFields_def ordered_loop_spec [OF assms(2)] Let_def prod.case rest field_order_def
    by (cases "int (length ?d) - int (length ?in) > 0") (simp_all add: sort_by_def)
qed

lemma field_order_cong:
  assumes "gwf data" "mset data' = mset data"
  shows "field_order order data' = field_order order data" "gget data' = gget data"
proof -
  have gw: "gwf data'" using assms by (metis mset_eq_imp_distinct_iff mset_map)
  show eq: "gget data' = gget data"
    using map_of_inject_set [OF gw assms(1)] assms(2) by (metis set_mset_mset)
  have "mset (filter (\<lambda>k. k \<notin> set order) (gkeys data')) = mset (filter (\<lambda>k. k \<notin> set order) (gkeys data))"
    using assms(2) by (simp flip: mset_map add: mset_filter) (metis mset_map)
  from sort_strs_cong [OF this] show "field_order order data' = field_order order data" by (simp add: field_order_def eq)
qed

abbreviation pgwatch_order :: "string list" where
  "pgwatch_order \<equiv> [''source'', ''metric'', ''sink'', ''db'', ''filename'', ''address'', ''rows'', ''sql'', ''params'']"

lemma Format_new:
  "Format level_name sprint (newFormatter noColors) entry = Some (
      eTime entry ''2006-01-02 15:04:05.000'' @ (if noColors then [] else escape (getColorByLevel (eLevel entry))) @
      '' ['' @ ToUpper (level_name (eLevel entry)) @ ''] '' @ writeOrderedFields sprint (newFormatter noColors) entry pgwatch_order @
      (if noColors then [] else escape 0) @ eMessage entry @ writeCaller (newFormatter noColors) entry @ [char_of (10 :: nat)])"
proof -
  let ?f = "newFormatter noColors"
  have "FieldsOrder ?f = Some pgwatch_order" "TimestampFormat ?f = ''2006-01-02 15:04:05.000''" "NoColors ?f = noColors" "\<not> NoFieldsColors ?f"
    "\<not> NoFieldsSpace ?f" "ShowFullLevel ?f" "\<not> NoUppercaseLevel ?f" "\<not> TrimMessages ?f" "\<not> CallerFirst ?f"
    by (simp_all add: newFormatter_def)
  then show ?thesis unfolding Format_def Let_def by simp
qed

text \<open>
  C35: the text of a log entry has its time, level, fields, message and caller in this order and ends the line. Every field of the entry is written exactly once, the known
  ones first and in the configured order, the others sorted; the text does not depend on the order in which Go visits the
  map of fields.
\<close>

theorem Format_fields_once:
  assumes "gwf (eData entry)" "mset data' = mset (eData entry)"
  shows "Format level_name sprint (newFormatter noColors) entry = Some (
      eTime entry ''2006-01-02 15:04:05.000'' @ (if noColors then [] else escape (getColorByLevel (eLevel entry))) @
      '' ['' @ ToUpper (level_name (eLevel entry)) @ ''] '' @
      concat (map (\<lambda>k. ''['' @ k @ '':'' @ sprint (the (gget (eData entry) k)) @ ''] '') (field_order pgwatch_order (eData entry))) @
      (if noColors then [] else escape 0) @ eMessage entry @ writeCaller (newFormatter noColors) entry @ [char_of (10 :: nat)]) \<and>
    mset (field_order pgwatch_order (eData entry)) = mset (gkeys (eData entry)) \<and>
    Format level_name sprint (newFormatter noColors) (entry\<lparr>eData := data'\<rparr>) = Format level_name sprint (newFormatter noColors) entry"
proof -
  let ?f = "newFormatter noColors" and ?ks = "field_order pgwatch_order (eData entry)"
  have d: "distinct pgwatch_order" by simp
  have perm: "mset ?ks = mset (gkeys (eData entry))" by (rule field_order_perm [OF assms(1) d])
  then have "set ?ks = set (gkeys (eData entry))" by (metis set_mset_mset)
  then have w: "writeField sprint ?f entry k = ''['' @ k @ '':'' @ sprint (the (gget (eData entry) k)) @ ''] ''" if "k \<in> set ?ks" for k
    using that by (auto simp: writeField_def newFormatter_def split: option.split dest: weak_map_of_SomeI)
  have written: "writeOrderedFields sprint ?f entry pgwatch_order =
      concat (map (\<lambda>k. ''['' @ k @ '':'' @ sprint (the (gget (eData entry) k)) @ ''] '') ?ks)"
    unfolding writeOrderedFields_spec [OF assms(1) d] by (intro arg_cong [of _ _ concat] map_cong [OF refl] w)
  have gw: "gwf data'" using assms(1,2) by (metis mset_eq_imp_distinct_iff mset_map)
  have "writeField sprint ?f (entry\<lparr>eData := data'\<rparr>) = writeField sprint ?f entry"
    by (rule ext) (simp add: writeField_def field_order_cong(2) [OF assms(1,2)])
  then have "writeOrderedFields sprint ?f (entry\<lparr>eData := data'\<rparr>) pgwatch_order = writeOrderedFields sprint ?f entry pgwatch_order"
    using writeOrderedFields_spec [of "entry\<lparr>eData := data'\<rparr>", OF _ d] gw
    by (simp add: writeOrderedFields_spec [OF assms(1) d] field_order_cong(1) [OF assms(1,2)])
  moreover have "writeCaller ?f (entry\<lparr>eData := data'\<rparr>) = writeCaller ?f entry" by (simp add: writeCaller_def)
  ultimately have "Format level_name sprint ?f (entry\<lparr>eData := data'\<rparr>) = Format level_name sprint ?f entry"
    unfolding Format_new by simp
  with perm show ?thesis unfolding Format_new written by blast
qed

definition sample_entry :: log_entry where
  "sample_entry = \<lparr>eLevel = InfoLevel, eTime = (\<lambda>_. ''now''), eMessage = ''hi'',
     eData = [(''zone'', VInt 1), (''app'', VInt 2), (''source'', VInt 3)], eCaller = None\<rparr>"

theorem Format_fields_once_witness:
  "Format (\<lambda>_. ''info'') (\<lambda>_. ''v'') (newFormatter True) sample_entry =
     Some (''now [INFO] [source:v] [app:v] [zone:v] hi'' @ [char_of (10 :: nat)]) \<and>
   Format (\<lambda>_. ''info'') (\<lambda>_. ''v'') (newFormatter True) (sample_entry\<lparr>eData := rev (eData sample_entry)\<rparr>) =
     Format (\<lambda>_. ''info'') (\<lambda>_. ''v'') (newFormatter True) sample_entry"
proof -
  have "gwf (eData sample_entry)" "mset (rev (eData sample_entry)) = mset (eData sample_entry)" by (simp_all add: sample_entry_def)
  from Format_fields_once [OF this, of "\<lambda>_. ''info''" "\<lambda>_. ''v''" True] show ?thesis
    by (simp add: sample_entry_def field_order_def sort_by_def ToUpper_def upper_char_def writeCaller_def char_of_def bit_Suc_0_iff)
qed

section \<open>Messages of the driver\<close>

text \<open>
  Of the driver's messages only warnings and errors are shown at the default level, and no errors in a context where they are
  expected; the fields of the message and of the context's logger are kept.
\<close>

lemma pgx_Log_shown:
  assumes "pgx_Log lv own ctx level msg data = (l, shown, m)" "level \<in> {PgxError, PgxWarn, PgxInfo, PgxDebug, PgxTrace}"
  shows "m = msg \<and> (level_num shown \<le> level_num InfoLevel \<longleftrightarrow> level = PgxWarn \<or> level = PgxError \<and> \<not> pgxErrorsSuppressed ctx)"
  using assms by (auto simp: pgx_Log_def Let_def split: pgx_level.splits if_splits)

lemma suppressed_batch_quiet:
  "level_num (fst (snd (pgx_Log lv own (WithSuppressedPgxErrors ctx) PgxError msg data))) > level_num InfoLevel"
  by (simp add: pgx_Log_def Let_def pgxErrorsSuppressed_def WithSuppressedPgxErrors_def)

end
