(* ===== verification/Ws_Log.thy ===== *)
theory Ws_Log
  imports Log_Broker
begin

text \<open>
  The log in the browser (\<open>internal/webserver/wslog.go\<close>): for every connection a goroutine that reads and one that writes. The writing one subscribes a
  channel to the hook of \<open>Log_Broker\<close>; the connection's number stands for its channel.

  The web-socket library is a parameter: an event says whether an upgrade, a read or a write succeeds. On a
  connection that was closed every read and write fails.
\<close>

section \<open>Connections\<close>

definition writeWait :: int where "writeWait = 10 * Second"
definition pongWait :: int where "pongWait = 60 * Second"
definition pingPeriod :: int where "pingPeriod = go_div (pongWait * 9) 10"

record ws_conn =
  wsOpen :: bool
  wsReader :: bool
  wsWriter :: bool
  wsDone :: bool
  wsWritten :: "string list"

record ws_state =
  hub :: "nat broker"
  wsConns :: "nat \<Rightarrow> ws_conn"

definition no_conn :: ws_conn where
  "no_conn = \<lparr>wsOpen = False, wsReader = False, wsWriter = False, wsDone = False, wsWritten = []\<rparr>"

definition ws_start :: ws_state where
  "ws_start = \<lparr>hub = NewBrokerHook, wsConns = (\<lambda>_. no_conn)\<rparr>"

definition upd_ws :: "nat \<Rightarrow> (ws_conn \<Rightarrow> ws_conn) \<Rightarrow> ws_state \<Rightarrow> ws_state" where
  "upd_ws c f st = st\<lparr>wsConns := (wsConns st)(c := f (wsConns st c))\<rparr>"

text \<open>
  \<open>serveWsLog\<close>: a failed upgrade answers 400. The goroutine that writes subscribes before it waits.
\<close>

definition serveWsLog :: "goerr option \<Rightarrow> nat \<Rightarrow> ws_state \<Rightarrow> ws_state \<times> int option" where
  "serveWsLog upgrade c st =
     (case upgrade of
        Some err \<Rightarrow> (st, Some 400)
      | None \<Rightarrow>
          ((upd_ws c (\<lambda>_. no_conn\<lparr>wsOpen := True, wsReader := True, wsWriter := True\<rparr>) st)
             \<lparr>hub := AddSubscriber c (hub st)\<rparr>, None))"

section \<open>The goroutine that writes\<close>

text \<open>The deferred calls: remove the subscriber, close the connection.\<close>

definition writer_return :: "nat \<Rightarrow> ws_state \<Rightarrow> ws_state" where
  "writer_return c st =
     (upd_ws c (\<lambda>w. w\<lparr>wsOpen := False, wsWriter := False\<rparr>) st)\<lparr>hub := RemoveSubscriber c (hub st)\<rparr>"

definition writer_msg :: "bool \<Rightarrow> string \<Rightarrow> nat \<Rightarrow> ws_state \<Rightarrow> ws_state" where
  "writer_msg ok msg c st =
     (if ok \<and> wsOpen (wsConns st c) then upd_ws c (\<lambda>w. w\<lparr>wsWritten := wsWritten w @ [msg]\<rparr>) st else writer_return c st)"

definition writer_ping :: "bool \<Rightarrow> nat \<Rightarrow> ws_state \<Rightarrow> ws_state" where
  "writer_ping ok c st = (if ok \<and> wsOpen (wsConns st c) then st else writer_return c st)"

definition writer_done :: "nat \<Rightarrow> ws_state \<Rightarrow> ws_state" where
  "writer_done c st = (if wsDone (wsConns st c) then writer_return c st else st)"

section \<open>The goroutine that reads\<close>

text \<open>
  \<open>SetReadDeadline\<close> fails: the goroutine returns and closes the connection, but not the channel \<open>done\<close>. A failed read closes both.
\<close>

definition reader_deadline_fails :: "nat \<Rightarrow> ws_state \<Rightarrow> ws_state" where
  "reader_deadline_fails c st = upd_ws c (\<lambda>w. w\<lparr>wsReader := False, wsOpen := False\<rparr>) st"

definition reader_read :: "bool \<Rightarrow> nat \<Rightarrow> ws_state \<Rightarrow> ws_state" where
  "reader_read ok c st =
     (if ok \<and> wsOpen (wsConns st c) then st
      else upd_ws c (\<lambda>w. w\<lparr>wsDone := True, wsReader := False, wsOpen := False\<rparr>) st)"

section \<open>All together\<close>

text \<open>
  A message is handed to the subscribers that are ready; their goroutines then write it. Goroutines
  that returned take no more turns.
\<close>

definition deliver :: "(nat \<Rightarrow> bool) \<Rightarrow> (nat \<Rightarrow> bool) \<Rightarrow> ws_state \<Rightarrow> ws_state" where
  "deliver ready ok st =
     (case input (hub st) of
        [] \<Rightarrow> st
      | msg # _ \<Rightarrow>
          fold (\<lambda>c. writer_msg (ok c) msg c) (filter ready (subscribers (hub st)))
            (st\<lparr>hub := broker_step (Poll ready) (hub st)\<rparr>))"

datatype ws_event =
    WsConnect "goerr option" nat | WsLog "goerr + string" | WsDeliver "nat \<Rightarrow> bool" "nat \<Rightarrow> bool"
  | WsPing bool nat | WsDoneTurn nat | WsDeadlineFails nat | WsRead bool nat

fun ws_step :: "ws_event \<Rightarrow> ws_state \<Rightarrow> ws_state" where
  "ws_step (WsConnect upgrade c) st = fst (serveWsLog upgrade c st)"
| "ws_step (WsLog formatted) st = st\<lparr>hub := fst (Fire formatted (hub st))\<rparr>"
| "ws_step (WsDeliver ready ok) st = deliver ready ok st"
| "ws_step (WsPing ok c) st = (if wsWriter (wsConns st c) then writer_ping ok c st else st)"
| "ws_step (WsDoneTurn c) st = (if wsWriter (wsConns st c) then writer_done c st else st)"
| "ws_step (WsDeadlineFails c) st = (if wsReader (wsConns st c) then reader_deadline_fails c st else st)"
| "ws_step (WsRead ok c) st = (if wsReader (wsConns st c) then reader_read ok c st else st)"

text \<open>A new connection has a number of its own.\<close>

fun ws_fresh :: "ws_event \<Rightarrow> ws_state \<Rightarrow> bool" where
  "ws_fresh (WsConnect _ c) st = (wsConns st c = no_conn \<and> received (hub st) c = [])"
| "ws_fresh _ st = True"

fun ws_run :: "ws_event list \<Rightarrow> ws_state \<Rightarrow> ws_state" where
  "ws_run [] st = st"
| "ws_run (ev # evs) st = ws_run evs (ws_step ev st)"

fun ws_all_fresh :: "ws_event list \<Rightarrow> ws_state \<Rightarrow> bool" where
  "ws_all_fresh [] st = True"
| "ws_all_fresh (ev # evs) st = (ws_fresh ev st \<and> ws_all_fresh evs (ws_step ev st))"

section \<open>The invariant\<close>

lemma pings_in_time: "pingPeriod < pongWait \<and> writeWait < pingPeriod"
  by (simp add: pingPeriod_def pongWait_def writeWait_def Second_def)

definition ws_ok :: "ws_state \<Rightarrow> bool" where
  "ws_ok st \<longleftrightarrow> broker_ok (hub st) \<and> (\<forall>c. c \<in> set (subscribers (hub st)) \<longleftrightarrow> wsWriter (wsConns st c)) \<and>
     (\<forall>c. subseq (wsWritten (wsConns st c)) (received (hub st) c)) \<and>
     (\<forall>c. wsDone (wsConns st c) \<longrightarrow> \<not> wsOpen (wsConns st c))"

lemma broker_ok_Remove: "broker_ok h \<Longrightarrow> broker_ok (RemoveSubscriber c h)"
  by (simp add: broker_ok_def RemoveSubscriber_def)

lemma writer_return_ok: "ws_ok st \<Longrightarrow> ws_ok (writer_return c st)"
  by (auto simp: ws_ok_def writer_return_def upd_ws_def broker_ok_Remove) (auto simp: RemoveSubscriber_def)

text \<open>While a message is being written the written messages of the connections not yet served lag behind by that message.\<close>

lemma writer_msg_fold_ok:
  assumes "broker_ok (hub st)" "distinct cs"
    and "\<forall>c. c \<in> set (subscribers (hub st)) \<longleftrightarrow> wsWriter (wsConns st c)"
    and "\<forall>c. wsDone (wsConns st c) \<longrightarrow> \<not> wsOpen (wsConns st c)"
    and "\<forall>c\<in>set cs. subseq (wsWritten (wsConns st c) @ [msg]) (received (hub st) c)"
    and "\<forall>c. subseq (wsWritten (wsConns st c)) (received (hub st) c)"
  shows "ws_ok (fold (\<lambda>c. writer_msg (ok c) msg c) cs st)"
  using assms
proof (induction cs arbitrary: st)
  case (Cons c cs)
  show ?case
    unfolding fold.simps comp_def
  proof (rule Cons.IH)
    show "broker_ok (hub (writer_msg (ok c) msg c st))"
      using Cons.prems(1) by (simp add: writer_msg_def writer_return_def upd_ws_def broker_ok_Remove)
  qed (use Cons.prems in \<open>auto simp: writer_msg_def writer_return_def upd_ws_def RemoveSubscriber_def\<close>)
qed (simp add: ws_ok_def)

lemma count_list_one: "distinct xs \<Longrightarrow> x \<in> set xs \<Longrightarrow> count_list xs x = 1"
  by (induction xs) auto

lemma deliver_ok:
  assumes "ws_ok st"
  shows "ws_ok (deliver ready ok st)"
proof (cases "input (hub st)")
  case (Cons msg msgs)
  let ?h = "broker_step (Poll ready) (hub st)"
  have h: "?h = send ready msg (hub st\<lparr>input := msgs, polled := polled (hub st) @ [msg]\<rparr>)" using Cons by simp
  have sub: "subscribers ?h = subscribers (hub st)" unfolding h by simp
  have rec: "received ?h c = received (hub st) c @ replicate (deliveries ready (subscribers (hub st)) c) msg" for c
    unfolding h by (simp add: send_received)
  have bok: "broker_ok ?h" using assms by (intro broker_step_ok) (simp_all add: ws_ok_def)
  have d: "distinct (subscribers (hub st))" using assms by (simp add: ws_ok_def broker_ok_def)
  have one: "deliveries ready (subscribers (hub st)) c = 1" if "c \<in> set (filter ready (subscribers (hub st)))" for c
    using that d by (simp add: deliveries_def count_list_one)
  have "ws_ok (fold (\<lambda>c. writer_msg (ok c) msg c) (filter ready (subscribers (hub st))) (st\<lparr>hub := ?h\<rparr>))"
  proof (rule writer_msg_fold_ok)
    show "broker_ok (hub (st\<lparr>hub := ?h\<rparr>))" using bok by (simp del: broker_step.simps)
    show "\<forall>c\<in>set (filter ready (subscribers (hub st))).
        subseq (wsWritten (wsConns (st\<lparr>hub := ?h\<rparr>) c) @ [msg]) (received (hub (st\<lparr>hub := ?h\<rparr>)) c)"
      using assms one by (auto simp: rec ws_ok_def simp del: broker_step.simps intro: list_emb_append_mono)
    show "\<forall>c. subseq (wsWritten (wsConns (st\<lparr>hub := ?h\<rparr>) c)) (received (hub (st\<lparr>hub := ?h\<rparr>)) c)"
      using assms by (auto simp: rec ws_ok_def simp del: broker_step.simps intro: subseq_order.trans)
  qed (use assms d sub in \<open>auto simp: ws_ok_def simp del: broker_step.simps\<close>)
  then show ?thesis using Cons by (simp add: deliver_def)
qed (use assms in \<open>simp add: deliver_def\<close>)

lemma ws_step_ok:
  assumes "ws_ok st" "ws_fresh ev st"
  shows "ws_ok (ws_step ev st)"
proof (cases ev)
  case (WsConnect upgrade c)
  have "broker_ok (AddSubscriber c (hub st))" if "wsConns st c = no_conn"
    using assms(1) that by (auto simp: ws_ok_def broker_ok_def AddSubscriber_def no_conn_def)
  with assms WsConnect show ?thesis
    by (cases upgrade) (auto simp: serveWsLog_def ws_ok_def upd_ws_def no_conn_def AddSubscriber_def)
next
  case (WsLog formatted)
  have "broker_ok (broker_step (Fired formatted) (hub st))" using assms(1) by (intro broker_step_ok) (simp_all add: ws_ok_def)
  moreover have "subscribers (fst (Fire formatted (hub st))) = subscribers (hub st)" "received (fst (Fire formatted (hub st))) = received (hub st)"
    by (auto simp: Fire_def split: sum.split)
  ultimately show ?thesis using assms(1) WsLog by (simp add: ws_ok_def)
next
  case (WsDeliver ready ok)
  with assms show ?thesis by (simp add: deliver_ok)
next
  case (WsPing ok c)
  with assms show ?thesis by (simp add: writer_ping_def writer_return_ok)
next
  case (WsDoneTurn c)
  with assms show ?thesis by (simp add: writer_done_def writer_return_ok)
qed (use assms in \<open>auto simp: reader_deadline_fails_def reader_read_def ws_ok_def upd_ws_def\<close>)

lemma ws_run_ok: "ws_ok st \<Longrightarrow> ws_all_fresh evs st \<Longrightarrow> ws_ok (ws_run evs st)"
  by (induction evs arbitrary: st) (auto simp: ws_step_ok)

text \<open>
  C32: over any run of connections, log messages, deliveries, pings and failures exactly the connections whose writing goroutine runs are subscribed, so none leaks;
  the messages written to a browser are messages that the hook accepted, in order and each at most once; and the next turn of a goroutine that writes to a
  connection which was closed ends it and removes its subscription, whether a message, a ping or the end of the reading goroutine wakes it.
\<close>

theorem ws_log_subscriptions:
  assumes "ws_all_fresh evs ws_start"
  shows "let st = ws_run evs ws_start in set (subscribers (hub st)) = {c. wsWriter (wsConns st c)} \<and> distinct (subscribers (hub st)) \<and>
    subseq (wsWritten (wsConns st c)) (accepted (hub st)) \<and>
    (\<not> wsOpen (wsConns st c) \<longrightarrow>
       c \<notin> set (subscribers (hub (writer_msg ok msg c st))) \<and> c \<notin> set (subscribers (hub (writer_ping ok c st))) \<and>
       wsWritten (wsConns (writer_msg ok msg c st) c) = wsWritten (wsConns st c)) \<and>
    (wsDone (wsConns st c) \<longrightarrow> c \<notin> set (subscribers (hub (writer_done c st))))"
proof -
  have "ws_ok ws_start"
    by (simp add: ws_ok_def ws_start_def no_conn_def broker_ok_def NewBrokerHook_def)
  define st where "st = ws_run evs ws_start"
  from ws_run_ok [OF \<open>ws_ok ws_start\<close> assms] have ok: "ws_ok st" by (simp add: st_def)
  then have "subseq (received (hub st) c) (polled (hub st) @ input (hub st))"
    by (auto simp: ws_ok_def broker_ok_def intro: subseq_order.trans [of _ "polled (hub st)"])
  with ok have "subseq (wsWritten (wsConns st c)) (accepted (hub st))"
    by (auto simp: ws_ok_def broker_ok_def intro: subseq_order.trans [of _ "received (hub st) c"])
  with ok show ?thesis
    unfolding Let_def st_def [symmetric]
    by (auto simp: ws_ok_def broker_ok_def writer_msg_def writer_ping_def writer_done_def writer_return_def upd_ws_def RemoveSubscriber_def)
qed

theorem ws_log_subscriptions_witness:
  "let evs = [WsConnect None 1, WsLog (Inr ''a''), WsLog (Inr ''b''), WsDeliver (\<lambda>_. True) (\<lambda>_. True), WsRead False 1];
       st = ws_run evs ws_start
   in ws_all_fresh evs ws_start \<and> wsWritten (wsConns st 1) = [''a''] \<and> 1 \<in> set (subscribers (hub st)) \<and>
      1 \<notin> set (subscribers (hub (writer_msg True ''b'' 1 st))) \<and> 1 \<notin> set (subscribers (hub (writer_done 1 st)))"
proof -
  let ?evs = "[WsConnect None 1, WsLog (Inr ''a''), WsLog (Inr ''b''), WsDeliver (\<lambda>_. True) (\<lambda>_. True), WsRead False 1]"
  note eval = ws_start_def NewBrokerHook_def no_conn_def serveWsLog_def upd_ws_def AddSubscriber_def Fire_def deliver_def
    send_def writer_msg_def reader_read_def Log_Broker.cacheLimit_def
  have fresh: "ws_all_fresh ?evs ws_start" by (simp add: eval)
  have "wsWritten (wsConns (ws_run ?evs ws_start) 1) = [''a'']" "1 \<in> set (subscribers (hub (ws_run ?evs ws_start)))"
    "\<not> wsOpen (wsConns (ws_run ?evs ws_start) 1)" "wsDone (wsConns (ws_run ?evs ws_start) 1)"
    by (simp_all add: eval)
  with ws_log_subscriptions [OF fresh, of 1 True "''b''"] fresh show ?thesis unfolding Let_def by blast
qed

end
