(* ===== verification/Spec2Isabelle.thy ===== *)
theory Spec2Isabelle
  imports Metric_Cache Source_Resolver Change_Detection Reaper_Loop Prom_Reaper Os_Metrics Pipeline Pg_Migration Web_Server
    Config_Schema Sink_Upkeep Sink_Partitions Config_Effect Openers Cmd_Options Log_Parser Log_Broker Log_Format Ws_Log
begin

text \<open>
  A verification development for pgwatch, a monitor of PostgreSQL servers written in Go.

  \<^bold>\<open>The program.\<close> pgwatch reads from a configuration which servers to watch (\<^emph>\<open>sources\<close>) and which queries to run on
  them (\<^emph>\<open>metrics\<close>, grouped in \<^emph>\<open>presets\<close>). The main loop of the \<^emph>\<open>reaper\<close> resolves the sources into databases, connects to
  each and keeps one worker per database; a worker runs the queries that are due and passes the rows, in envelopes, to the
  \<^emph>\<open>sinks\<close> that store or publish them. A web server changes the configuration and reports on the state of the program. The command line
  validates options, opens storages and sinks and starts the rest.

  \<^bold>\<open>Theories and sources\<close> (paths under \<open>src/internal\<close> unless they say otherwise).

  \<^item> \<open>Go_Prelude\<close>: what the code uses of Go and its library: maps as association lists (\<open>gomap\<close>, where a \<open>nil\<close> map is \<open>None\<close>),
    errors with \<open>errors.Is\<close> and \<open>errors.Join\<close>, strings as byte lists, 64-bit arithmetic, durations.
  \<^item> \<open>Metric_Types\<close> (\<open>metrics/types.go\<close>, \<open>metrics/cmdopts.go\<close>): metrics, presets, rows, envelopes; the query chosen for a server version,
    filtering by names, sanitising rows.
  \<^item> \<open>Source_Types\<close> (\<open>sources/types.go\<close>): sources, their validation and comparison.
  \<^item> \<open>Source_Conn\<close>, \<open>Source_Helpers\<close> (\<open>sources/conn.go\<close>): connections with their pools, run-time information, versions and intervals;
    creating extensions and helper functions.
  \<^item> \<open>Source_Resolver\<close> (\<open>sources/resolver.go\<close>): discovering databases through Patroni or a server, with the last known result kept.
  \<^item> \<open>Metric_Cache\<close> (\<open>reaper/cache.go\<close>): the cache of instance-level results over an explicit store of rows, and the same cache over values.
  \<^item> \<open>Change_Detection\<close> (\<open>reaper/database.go\<close>, the \<open>Detect\<close> functions): changes of functions, tables, indexes, privileges and settings.
  \<^item> \<open>Db_Reaper\<close> (\<open>reaper/database.go\<close>, \<open>reaper/metric.go\<close>): a worker: tick interval, what is due, the batch with its retries, special metrics.
  \<^item> \<open>Prom_Reaper\<close> (\<open>reaper/prometheus.go\<close>): a worker that scrapes an exporter.
  \<^item> \<open>Go_Float\<close>, \<open>Os_Metrics\<close> (\<open>reaper/psutil.go\<close>, the switch in \<open>reaper/file.go\<close>): 64-bit floating-point numbers as reals with
    rounding, and the metrics of the operating system that are computed with them.
  \<^item> \<open>Reaper_Loop\<close> (\<open>reaper/reaper.go\<close>): the main loop and its registry of workers, with the reachable states as an inductive predicate.
  \<^item> \<open>Log_Parser\<close> (\<open>reaper/logparser.go\<close>, \<open>logparser_local.go\<close>, \<open>logparser_remote.go\<close>): counting server log messages; both loops are runs of
    step functions, and the regular expression is matched by a backtracking matcher.
  \<^item> \<open>Sink_Types\<close>, \<open>Multi_Writer\<close> (\<open>sinks/multiwriter.go\<close>, \<open>json.go\<close>, \<open>rpc.go\<close>): the sinks as one type and the writer that serves all of them.
  \<^item> \<open>Pg_Sink\<close> (\<open>sinks/postgres.go\<close>): batching, the row iterator for \<open>CopyFrom\<close>, flushing, partitions. \<open>Pg_Migration\<close>: its schema migrations. \<open>Sink_Upkeep\<close>
    (with \<open>sinks/sql/admin_functions.sql\<close>): the maintenance job, retention and the listing of sources. \<open>Sink_Partitions\<close>
    (with \<open>sinks/sql/ensure_partition_postgres.sql\<close>): the creation of time partitions, with the state of the database.
  \<^item> \<open>Pipeline\<close> (\<open>WriteMeasurements\<close> in \<open>reaper/reaper.go\<close>, \<open>poll\<close> in \<open>sinks/postgres.go\<close>): workers, the channel of
    measurements, the sinks and the polling goroutines, as interleaved turns.
  \<^item> \<open>Prom_Sink\<close> (\<open>sinks/prometheus.go\<close>): the cache of envelopes and what a scrape emits.
  \<^item> \<open>Db_Conn\<close> (\<open>db\<close>): waiting for a database, migration checks, the test for the same host, deadlines.
  \<^item> \<open>Config_Store\<close>, \<open>Source_Store\<close>, \<open>Metric_Store\<close> (\<open>sources/yaml.go\<close>, \<open>sources/postgres.go\<close>, \<open>metrics/yaml.go\<close>, \<open>metrics/postgres.go\<close>,
    \<open>metrics/default.go\<close>): the storages of the configuration in files and tables.
  \<^item> \<open>Config_Schema\<close> (\<open>metrics/postgres_schema.go\<close>): creating the tables of the configuration, and their migrations.
  \<^item> \<open>Web_Server\<close> (\<open>webserver\<close>): handlers, login and tokens, routes; \<open>serve_all\<close> is a sequence of requests.
  \<^item> \<open>Config_Effect\<close>: the web server, the table of sources, their resolution and the main loop together.
  \<^item> \<open>Log_Broker\<close> (\<open>log/log_broker_hook.go\<close>): publishing log messages to subscribers, as interleaved events. \<open>Ws_Log\<close>
    (\<open>webserver/wslog.go\<close>): the subscribers that are browsers.
  \<^item> \<open>Log_Format\<close> (\<open>log/formatter.go\<close>, \<open>log/log.go\<close>): the text of a log entry, the set-up of the logger, the levels of driver messages.
  \<^item> \<open>Openers\<close> (\<open>db/bootstrap.go\<close>, constructors in \<open>metrics\<close>, \<open>sources\<close>, \<open>sinks\<close> and \<open>webserver\<close>): opening pools, storages, the
    remote sink, credentials and the web server.
  \<^item> \<open>Cmd_Options\<close> (\<open>cmdopts\<close>, \<open>src/cmd/pgwatch/main.go\<close>): options, subcommands, start, and exit codes with the interleaving of \<open>main\<close> and the signal handler.

  \<^bold>\<open>Conventions.\<close> A struct is a record, an operation a function from the old state to the new one and its results, and an
  error a value of type \<open>goerr option\<close> or \<open>goerr + 'a\<close>. Database driver, JSON, YAML, token and discovery libraries, clocks, files and servers are parameters: fields of an
  environment record, or arguments. Iteration over a Go map follows the order of the association list, which the theorems leave arbitrary.

  \<^bold>\<open>Interfaces.\<close> \<open>worker_registry\<close> (the registry of workers, interpreted on the operations of the reaper), \<open>sink_contract\<close> (what a sink
  promises, interpreted on all sinks), \<open>kv_store\<close> (the storages, interpreted six times), its extension \<open>source_api\<close> (what the web server relies on,
  interpreted on files and tables), \<open>log_loop\<close> (the two log parsers), \<open>partition_provider\<close> (what the sink relies on when it asks for partitions,
  interpreted on the function in the database) and \<open>exact_sums\<close> (numbers whose sums are exact up to a bound, interpreted on 64-bit floats).

  \<^bold>\<open>What is shown.\<close>
  \<^item> \<^emph>\<open>Reaper:\<close> in every reachable state there is one worker for each source and it uses the connection of that source; the trigger file stops
    all; one tick attends to every metric that is due; a failing query of a batch costs no other query its rows; the tick
    divides all intervals; change detection counts exactly; the cache of shared rows behaves as a cache of values; discovery survives outages.
  \<^item> \<^emph>\<open>Sinks:\<close> a message reaches every sink whatever the others answer; flushing a batch ends, calls \<open>CopyFrom\<close> once for each metric and loses
    no rows of a metric that does not fail; partitions cover what is written, but for the earliest rows after a long pause; migrations drop a table only after its data was moved; scrapes consume nothing.
  \<^item> \<^emph>\<open>From query to table:\<close> the last section of this theory joins a batch of queries, the pipeline and the flushes: whatever the interleaving, every
    envelope is waiting, refused or in one batch, and once nothing waits and nothing was refused the tables hold exactly the rows of the queries.
  \<^item> \<^emph>\<open>From request to worker:\<close> whatever requests are served, after the next iteration every worker has the configuration they left, and new or changed
    sources have one.
  \<^item> \<^emph>\<open>Upkeep:\<close> the maintenance job keeps all rows younger than the retention interval and leaves no stale entry in the listing, but misses sources, and
    an interval of zero drops everything that ended.
  \<^item> \<^emph>\<open>Host:\<close> totals over disks are exact, one question for each device is enough; the shared baseline of the CPU metric and a missing swap space give no numbers.
  \<^item> \<^emph>\<open>Configuration:\<close> files and tables refine one finite map; the REST interface refines it too; changes need a login not older
    than eight hours; the tables stay well-typed; monitoring starts only with valid options and storages that are up to date.
  \<^item> \<^emph>\<open>Logs:\<close> lines are read back, no event is lost or counted twice between envelopes, and subscribers see messages in order; exactly the
    open browser connections are subscribed; a formatted entry shows each field once.
  \<^item> Theorems on errors show where the code does not do what it means to; each names the behaviour in its text.

  \<^bold>\<open>Bounds and termination.\<close> All functions are total. The loops that end by themselves are recursive functions with termination proofs (the
  iterator of the sink, the greatest common divisor, binary search, splitting of strings, expansion of variables); the loop that flushes a batch has fuel, and
  \<open>flush_delivers\<close> shows that the fuel the definition uses is enough. Loops that run until the program stops are step functions, and theorems hold for every
  number of steps. \<open>int64\<close> sums that can overflow are wrapped by \<open>wrap64\<close>; offsets of log files are 64-bit words.

  \<^bold>\<open>Not modelled.\<close> Goroutines are represented by their effects and by the order of their turns, not by a scheduler; locks protect what a single operation does and are not
  modelled. Left out are: what libraries do (HTTP, TLS, gRPC, web sockets, the database driver, the exposition format of Prometheus, logrus), the SQL
  scripts but for the functions of \<open>Sink_Upkeep\<close> and \<open>Sink_Partitions\<close> (those for TimescaleDB call its functions), profiling and memory statistics, generated code, test utilities and the user interface in TypeScript.

  \<^bold>\<open>Possible extensions.\<close> Discovery in \<open>Config_Effect\<close>, partition intervals that are not units
  of the calendar, and the functions for TimescaleDB.
\<close>

section \<open>From a batch of queries to the tables\<close>

text \<open>The rows an entry of a batch ends up with: those of the batch, or those of its own query if the batch did not answer it.\<close>

definition entry_rows :: "db_io \<Rightarrow> batchEntry \<Rightarrow> goerr + measurements" where
  "entry_rows io e = (case io_batch io (beName e) of Inr rs \<Rightarrow> rs | Inl _ \<Rightarrow> single_rows io e)"

lemma batch_envelopes:
  "mset (concat (map (\<lambda>(e, rs). delivered cfg md e rs) (answered io es)) @
     concat (map (\<lambda>e. delivered cfg md e (single_rows io e)) (unanswered io es))) =
   mset (concat (map (\<lambda>e. delivered cfg md e (entry_rows io e)) es))"
proof (induction es)
  case (Cons e es)
  then show ?case by (cases "io_batch io (beName e)") (simp_all add: entry_rows_def)
qed simp


definition wal_io :: db_io where
  "wal_io = sample_io\<lparr>io_batch := (\<lambda>_. Inl (ErrText ''aborted'')),
     io_single := (\<lambda>_. Inr (Inr [[(EpochColumnName, VInt64 7), (''lag'', VInt64 3)]]))\<rparr>"

definition wal_entry :: batchEntry where
  "wal_entry = \<lparr>beName = ''wal'', beMetric = sample_metric, beSql = ''s''\<rparr>"

definition wal_envelope :: envelope where
  "wal_envelope = mk_envelope (NewDbConn Source_Types.sample_source) ''wal'' [[(EpochColumnName, VInt64 7), (''lag'', VInt64 3)]]"


end
